(* ===== verification/Prelude.thy ===== *)
theory Prelude
  imports Main
    "HOL-Library.Sublist"
    "HOL-Library.Char_ord"
    "HOL-Library.List_Lexorder"
    "HOL-Library.Word"
begin

text \<open>
  What the components share: the result type of fallible functions, the parts of Rust's
  \<^verbatim>\<open>str\<close>, \<^verbatim>\<open>u64\<close>/\<^verbatim>\<open>usize\<close> formatting and \<^verbatim>\<open>BTreeMap\<close> interfaces the sources use, the generic
  lemmas on lists and strings behind the component proofs, and the generic invariant
  principle for step systems as a locale.

  A Rust string is a \<^typ>\<open>string\<close>. The correspondence is exact on ASCII strings, where
  bytes and characters coincide; the development makes no claim about what the code does
  with characters outside ASCII.
\<close>

section \<open>Collections of facts\<close>

named_theorems str_simps \<open>unfolding rules for the string helpers\<close>
named_theorems op_defs \<open>definitions of the state-changing operations\<close>

section \<open>Results\<close>

datatype ('e, 'a) result = Err 'e | Ok 'a

fun and_then :: "('e, 'a) result \<Rightarrow> ('a \<Rightarrow> ('e, 'b) result) \<Rightarrow> ('e, 'b) result" where
  "and_then (Err e) f = Err e"
| "and_then (Ok a) f = f a"

fun map_err :: "('e \<Rightarrow> 'f) \<Rightarrow> ('e, 'a) result \<Rightarrow> ('f, 'a) result" where
  "map_err f (Err e) = Err (f e)"
| "map_err f (Ok a) = Ok a"

fun is_ok :: "('e, 'a) result \<Rightarrow> bool" where
  "is_ok (Err e) = False"
| "is_ok (Ok a) = True"

definition ok_or :: "'e \<Rightarrow> 'a option \<Rightarrow> ('e, 'a) result" where
  "ok_or e x = (case x of None \<Rightarrow> Err e | Some a \<Rightarrow> Ok a)"

text \<open>A loop of fallible checks that stops at the first error (\<^verbatim>\<open>for x in xs { f(x)?; }\<close>).\<close>

fun check_all :: "('a \<Rightarrow> ('e, unit) result) \<Rightarrow> 'a list \<Rightarrow> ('e, unit) result" where
  "check_all f [] = Ok ()"
| "check_all f (x # xs) = and_then (f x) (\<lambda>_. check_all f xs)"

text \<open>A loop that collects one value per element and stops at the first error.\<close>

fun map_result :: "('a \<Rightarrow> ('e, 'b) result) \<Rightarrow> 'a list \<Rightarrow> ('e, 'b list) result" where
  "map_result f [] = Ok []"
| "map_result f (x # xs) =
     and_then (f x) (\<lambda>y. and_then (map_result f xs) (\<lambda>ys. Ok (y # ys)))"

text \<open>A loop over a list with an accumulator and a state, which ends at the first error.\<close>

fun try_fold ::
    "('x \<Rightarrow> 'a \<Rightarrow> 's \<Rightarrow> ('e, 'a) result \<times> 's) \<Rightarrow> 'x list \<Rightarrow> 'a \<Rightarrow> 's \<Rightarrow> ('e, 'a) result \<times> 's" where
  "try_fold f [] a s = (Ok a, s)"
| "try_fold f (x # xs) a s =
     (case f x a s of (Err e, s') \<Rightarrow> (Err e, s') | (Ok a', s') \<Rightarrow> try_fold f xs a' s')"

lemma try_fold_rule:
  assumes "try_fold f xs a s = (r, s')" "P a s"
    and "\<And>x a s a' s'. x \<in> set xs \<Longrightarrow> P a s \<Longrightarrow> f x a s = (Ok a', s') \<Longrightarrow> P a' s'"
    and "\<And>x a s e s'. x \<in> set xs \<Longrightarrow> P a s \<Longrightarrow> f x a s = (Err e, s') \<Longrightarrow> Q e s'"
  shows "case r of Ok a' \<Rightarrow> P a' s' | Err e \<Rightarrow> Q e s'"
  using assms
proof (induction xs arbitrary: a s)
  case (Cons x xs)
  obtain r1 s1 where f: "f x a s = (r1, s1)" by fastforce
  show ?case
  proof (cases r1)
    case (Err e)
    with f Cons.prems(1) have "r = Err e" "s' = s1" by auto
    with Cons.prems(2) Cons.prems(4) [of x a s e s1] f Err show ?thesis by simp
  next
    case (Ok a1)
    with f Cons.prems(1) have fold: "try_fold f xs a1 s1 = (r, s')" by simp
    have "P a1 s1" using Cons.prems(2) Cons.prems(3) [of x a s a1 s1] f Ok by simp
    with fold Cons.prems(3,4) show ?thesis by (intro Cons.IH [OF fold]) (meson list.set_intros(2))+
  qed
qed auto

lemma and_then_Ok [simp]: "and_then r f = Ok b \<longleftrightarrow> (\<exists>a. r = Ok a \<and> f a = Ok b)"
  by (cases r) auto

lemma and_then_Err: "and_then r f = Err e \<longleftrightarrow> r = Err e \<or> (\<exists>a. r = Ok a \<and> f a = Err e)"
  by (cases r) auto

lemma and_then_cong [fundef_cong]:
  "r = r' \<Longrightarrow> (\<And>a. r' = Ok a \<Longrightarrow> f a = g a) \<Longrightarrow> and_then r f = and_then r' g"
  by (cases r') auto

lemma map_err_Ok [simp]: "map_err f r = Ok a \<longleftrightarrow> r = Ok a"
  by (cases r) auto

lemma is_ok_iff: "is_ok r \<longleftrightarrow> (\<exists>a. r = Ok a)"
  by (cases r) auto

lemma check_all_Ok [simp]: "check_all f xs = Ok () \<longleftrightarrow> (\<forall>x\<in>set xs. f x = Ok ())"
  by (induction xs) auto

lemma check_all_Err: "check_all f xs = Err e \<Longrightarrow> \<exists>x\<in>set xs. f x = Err e"
  by (induction xs) (auto simp: and_then_Err)

lemma map_result_cong [fundef_cong]:
  "xs = ys \<Longrightarrow> (\<And>x. x \<in> set ys \<Longrightarrow> f x = g x) \<Longrightarrow> map_result f xs = map_result g ys"
proof -
  assume "xs = ys" and "\<And>x. x \<in> set ys \<Longrightarrow> f x = g x"
  then show ?thesis by (induction xs arbitrary: ys) auto
qed

lemma map_result_Ok:
  "map_result f xs = Ok ys \<longleftrightarrow> list_all2 (\<lambda>x y. f x = Ok y) xs ys"
  by (induction xs arbitrary: ys) (auto simp: list_all2_Cons1)

lemma map_result_Ok_length: "map_result f xs = Ok ys \<Longrightarrow> length ys = length xs"
  by (simp add: map_result_Ok list_all2_lengthD [symmetric])

section \<open>ASCII character classes\<close>

definition is_ascii_digit :: "char \<Rightarrow> bool" where
  "is_ascii_digit c \<longleftrightarrow> CHR ''0'' \<le> c \<and> c \<le> CHR ''9''"

definition is_ascii_lower :: "char \<Rightarrow> bool" where
  "is_ascii_lower c \<longleftrightarrow> CHR ''a'' \<le> c \<and> c \<le> CHR ''z''"

definition is_ascii_upper :: "char \<Rightarrow> bool" where
  "is_ascii_upper c \<longleftrightarrow> CHR ''A'' \<le> c \<and> c \<le> CHR ''Z''"

definition is_ascii_alphanumeric :: "char \<Rightarrow> bool" where
  "is_ascii_alphanumeric c \<longleftrightarrow> is_ascii_digit c \<or> is_ascii_lower c \<or> is_ascii_upper c"

text \<open>\<^verbatim>\<open>char::is_whitespace\<close>, which \<^verbatim>\<open>str::trim\<close> uses, and the smaller
  \<^verbatim>\<open>u8::is_ascii_whitespace\<close>, which leaves out the vertical tab.\<close>

definition is_whitespace :: "char \<Rightarrow> bool" where
  "is_whitespace c \<longleftrightarrow> c \<in> {CHR '' '', CHR 0x09, CHR 0x0A, CHR 0x0B, CHR 0x0C, CHR 0x0D}"

definition is_ascii_whitespace :: "char \<Rightarrow> bool" where
  "is_ascii_whitespace c \<longleftrightarrow> c \<in> {CHR '' '', CHR 0x09, CHR 0x0A, CHR 0x0C, CHR 0x0D}"

definition to_ascii_lower :: "char \<Rightarrow> char" where
  "to_ascii_lower c = (if is_ascii_upper c then char_of (of_char c + 32 :: nat) else c)"

abbreviation to_ascii_lowercase :: "string \<Rightarrow> string" where
  "to_ascii_lowercase \<equiv> map to_ascii_lower"

definition eq_ignore_ascii_case :: "string \<Rightarrow> string \<Rightarrow> bool" where
  "eq_ignore_ascii_case a b \<longleftrightarrow> to_ascii_lowercase a = to_ascii_lowercase b"

lemma eq_ignore_ascii_case_refl [simp]: "eq_ignore_ascii_case s s"
  by (simp add: eq_ignore_ascii_case_def)

text \<open>The alphabet of subject tokens, job ids and minted ids.\<close>

definition is_token_char :: "char \<Rightarrow> bool" where
  "is_token_char c \<longleftrightarrow> is_ascii_alphanumeric c \<or> c = CHR ''_'' \<or> c = CHR ''-''"

lemma is_token_char_noteq [simp]:
  "\<not> is_token_char (CHR ''.'')" "\<not> is_token_char (CHR ''/'')"
  "\<not> is_token_char (CHR '' '')" "\<not> is_token_char (CHR ''@'')"
  by code_simp+

section \<open>String operations\<close>

definition trim_start :: "string \<Rightarrow> string" where
  "trim_start s = dropWhile is_whitespace s"

definition trim_end :: "string \<Rightarrow> string" where
  "trim_end s = rev (dropWhile is_whitespace (rev s))"

definition trim :: "string \<Rightarrow> string" where
  "trim s = trim_end (trim_start s)"

definition trim_end_char :: "char \<Rightarrow> string \<Rightarrow> string" where
  "trim_end_char c s = rev (dropWhile (\<lambda>x. x = c) (rev s))"

definition trim_start_char :: "char \<Rightarrow> string \<Rightarrow> string" where
  "trim_start_char c s = dropWhile (\<lambda>x. x = c) s"

definition strip_prefix :: "string \<Rightarrow> string \<Rightarrow> string option" where
  "strip_prefix p s = (if prefix p s then Some (drop (length p) s) else None)"

definition strip_suffix :: "string \<Rightarrow> string \<Rightarrow> string option" where
  "strip_suffix p s = (if suffix p s then Some (take (length s - length p) s) else None)"

text \<open>\<^verbatim>\<open>trim_start_matches\<close> and \<^verbatim>\<open>trim_end_matches\<close> with a string pattern strip it
  as often as it occurs; the empty pattern strips nothing.\<close>

function trim_start_matches :: "string \<Rightarrow> string \<Rightarrow> string" where
  "trim_start_matches p s =
     (if p \<noteq> [] \<and> prefix p s then trim_start_matches p (drop (length p) s) else s)"
  by pat_completeness auto
termination
  by (relation "measure (\<lambda>(p, s). length s)") (auto simp: prefix_def)

declare trim_start_matches.simps [simp del]

definition trim_end_matches :: "string \<Rightarrow> string \<Rightarrow> string" where
  "trim_end_matches p s = rev (trim_start_matches (rev p) (rev s))"

text \<open>\<^verbatim>\<open>split\<close> with a character, which always yields at least one part.\<close>

fun split_on :: "char \<Rightarrow> string \<Rightarrow> string list" where
  "split_on d [] = [[]]"
| "split_on d (c # cs) =
     (if c = d then [] # split_on d cs
      else (c # hd (split_on d cs)) # tl (split_on d cs))"

fun join :: "string \<Rightarrow> string list \<Rightarrow> string" where
  "join sep [] = []"
| "join sep [w] = w"
| "join sep (w # ws) = w @ sep @ join sep ws"

text \<open>\<^verbatim>\<open>split_once\<close> and \<^verbatim>\<open>rsplit_once\<close> with a character.\<close>

definition split_once :: "char \<Rightarrow> string \<Rightarrow> (string \<times> string) option" where
  "split_once d s =
     (if d \<in> set s
      then Some (takeWhile (\<lambda>c. c \<noteq> d) s, tl (dropWhile (\<lambda>c. c \<noteq> d) s))
      else None)"

definition rsplit_once :: "char \<Rightarrow> string \<Rightarrow> (string \<times> string) option" where
  "rsplit_once d s =
     (case split_once d (rev s) of None \<Rightarrow> None | Some (b, a) \<Rightarrow> Some (rev a, rev b))"

text \<open>\<^verbatim>\<open>find\<close> and \<^verbatim>\<open>rfind\<close> with a string pattern: the index of the first (last)
  occurrence.\<close>

fun find_sub :: "string \<Rightarrow> string \<Rightarrow> nat option" where
  "find_sub p [] = (if p = [] then Some 0 else None)"
| "find_sub p (c # cs) =
     (if prefix p (c # cs) then Some 0 else map_option Suc (find_sub p cs))"

definition rfind_sub :: "string \<Rightarrow> string \<Rightarrow> nat option" where
  "rfind_sub p s =
     map_option (\<lambda>i. length s - length p - i) (find_sub (rev p) (rev s))"

definition contains_sub :: "string \<Rightarrow> string \<Rightarrow> bool" where
  "contains_sub s p \<longleftrightarrow> find_sub p s \<noteq> None"

text \<open>\<^verbatim>\<open>replace\<close>: every non-overlapping occurrence, left to right. The sources never
  pass an empty pattern.\<close>

function replace_all :: "string \<Rightarrow> string \<Rightarrow> string \<Rightarrow> string" where
  "replace_all p r [] = []"
| "replace_all p r (c # cs) =
     (if p \<noteq> [] \<and> prefix p (c # cs)
      then r @ replace_all p r (drop (length p) (c # cs))
      else c # replace_all p r cs)"
  by pat_completeness auto
termination
  by (relation "measure (\<lambda>(p, r, s). length s)") (auto simp: prefix_def neq_Nil_conv)

lemma replace_all_char:
  "replace_all [d] r s = concat (map (\<lambda>c. if c = d then r else [c]) s)"
  by (induction s) auto

definition replace_first_char :: "char \<Rightarrow> string \<Rightarrow> string \<Rightarrow> string" where
  "replace_first_char d r s =
     (case split_once d s of None \<Rightarrow> s | Some (a, b) \<Rightarrow> a @ r @ b)"

text \<open>\<^verbatim>\<open>str::lines\<close>: split at newlines, a final empty line dropped, a carriage
  return before a newline dropped.\<close>

definition str_lines :: "string \<Rightarrow> string list" where
  "str_lines s =
     (let ls = split_on (CHR 0x0A) s
      in map (\<lambda>l. if l \<noteq> [] \<and> last l = CHR 0x0D then butlast l else l) (butlast ls)
         @ (if last ls = [] then [] else [last ls]))"

text \<open>\<^verbatim>\<open>Path::join\<close> with a relative component.\<close>

definition path_join :: "string \<Rightarrow> string \<Rightarrow> string" where
  "path_join root c = (if root = [] \<or> last root = CHR ''/'' then root @ c else root @ ''/'' @ c)"

text \<open>The dash in some messages, in its UTF-8 form.\<close>

definition DASH :: string where
  "DASH = [CHR 0xE2, CHR 0x80, CHR 0x94]"

text \<open>Decimal and hexadecimal formatting of unsigned integers.\<close>

fun digits_in :: "nat \<Rightarrow> nat \<Rightarrow> string" where
  "digits_in base n =
     (if base < 2 \<or> n < base then [char_of (if n < 10 then 48 + n else 87 + n)]
      else digits_in base (n div base)
           @ [char_of (let d = n mod base in if d < 10 then 48 + d else 87 + d)])"

declare digits_in.simps [simp del]

definition nat_str :: "nat \<Rightarrow> string" where
  "nat_str n = digits_in 10 n"

definition pad_left :: "nat \<Rightarrow> char \<Rightarrow> string \<Rightarrow> string" where
  "pad_left w c s = replicate (w - length s) c @ s"

definition hex_padded :: "nat \<Rightarrow> nat \<Rightarrow> string" where
  "hex_padded w n = pad_left w (CHR ''0'') (digits_in 16 n)"

definition dec_value :: "string \<Rightarrow> nat" where
  "dec_value ds = foldl (\<lambda>acc c. 10 * acc + (of_char c - 48)) 0 ds"

text \<open>\<^verbatim>\<open>parse::<u64>()\<close> and \<^verbatim>\<open>parse::<usize>()\<close>: an optional \<open>+\<close>, at least one
  digit, and no overflow.\<close>

definition parse_u64 :: "string \<Rightarrow> nat option" where
  "parse_u64 s =
     (let ds = (case s of c # cs \<Rightarrow> if c = CHR ''+'' then cs else s | [] \<Rightarrow> s)
      in if ds \<noteq> [] \<and> list_all is_ascii_digit ds \<and> dec_value ds < 2 ^ 64
         then Some (dec_value ds) else None)"

lemma dec_value_snoc: "dec_value (ds @ [c]) = 10 * dec_value ds + (of_char c - 48)"
  by (simp add: dec_value_def)

lemma dec_value_nat_str [simp]: "dec_value (nat_str n) = n"
  unfolding nat_str_def
proof (induction n rule: less_induct)
  case (less n)
  have dig: "of_char (char_of (48 + d) :: char) - 48 = d" if "d < 10" for d :: nat
    using that by simp
  show ?case
  proof (cases "n < 10")
    case True
    then show ?thesis using dig [of n] by (simp add: digits_in.simps [of 10 n] dec_value_def)
  next
    case False
    then have "n div 10 < n" by simp
    with less False dig [of "n mod 10"] show ?thesis
      by (simp add: digits_in.simps [of 10 n] dec_value_snoc)
  qed
qed

lemma nat_str_inj [simp]: "nat_str m = nat_str n \<longleftrightarrow> m = n"
  by (metis dec_value_nat_str)

lemma nat_str_digits: "c \<in> set (nat_str n) \<Longrightarrow> is_ascii_digit c"
  unfolding nat_str_def
proof (induction n rule: less_induct)
  case (less n)
  have dig: "is_ascii_digit (char_of (48 + d :: nat))" if "d < 10" for d
    using that by (auto simp: is_ascii_digit_def less_eq_char_def)
  from less.prems show ?case
    using less.IH [of "n div 10"] dig [of n] dig [of "n mod 10"]
    by (subst (asm) digits_in.simps) (auto split: if_splits)
qed

lemma nat_str_not_Nil [simp]: "nat_str n \<noteq> []"
  by (simp add: nat_str_def digits_in.simps [of 10 n])

lemma nat_str_tokens: "list_all is_token_char (nat_str n)"
  using nat_str_digits by (auto simp: list_all_iff is_token_char_def is_ascii_alphanumeric_def)

section \<open>Generic lemmas on lists and strings\<close>

lemma split_on_not_Nil [simp]: "split_on d s \<noteq> []"
  by (cases s) auto

lemma join_Cons: "ws \<noteq> [] \<Longrightarrow> join sep (w # ws) = w @ sep @ join sep ws"
  by (cases ws) auto

lemma join_split_on: "join [d] (split_on d s) = s"
proof (induction s)
  case (Cons c cs)
  then show ?case
    by (cases "split_on d cs") (auto simp: join_Cons split: list.splits, (cases "tl (split_on d cs)"; simp)+)
qed simp

lemma split_on_no_delim: "w \<in> set (split_on d s) \<Longrightarrow> d \<notin> set w"
proof (induction s arbitrary: w)
  case (Cons c cs)
  then show ?case
    by (cases "split_on d cs") (auto split: if_splits)
qed simp

lemma split_on_append:
  "d \<notin> set w \<Longrightarrow> split_on d (w @ d # s) = w # split_on d s"
  by (induction w) auto

lemma split_on_single: "d \<notin> set w \<Longrightarrow> split_on d w = [w]"
  by (induction w) auto

lemma split_on_join:
  "ws \<noteq> [] \<Longrightarrow> \<forall>w\<in>set ws. d \<notin> set w \<Longrightarrow> split_on d (join [d] ws) = ws"
proof (induction ws)
  case (Cons w ws)
  then show ?case
    by (cases ws) (auto simp: split_on_single split_on_append)
qed simp

lemma split_once_append: "d \<notin> set a \<Longrightarrow> split_once d (a @ d # b) = Some (a, b)"
  by (auto simp: split_once_def takeWhile_append dropWhile_append)

lemma split_once_Some:
  "split_once d s = Some (a, b) \<longleftrightarrow> s = a @ d # b \<and> d \<notin> set a"
proof
  assume A: "split_once d s = Some (a, b)"
  then have d: "d \<in> set s" and a: "a = takeWhile (\<lambda>c. c \<noteq> d) s"
    and b: "b = tl (dropWhile (\<lambda>c. c \<noteq> d) s)"
    by (auto simp: split_once_def split: if_splits)
  from d have ne: "dropWhile (\<lambda>c. c \<noteq> d) s \<noteq> []"
    by (simp add: dropWhile_eq_Nil_conv)
  then have "hd (dropWhile (\<lambda>c. c \<noteq> d) s) = d"
    using hd_dropWhile [of "\<lambda>c. c \<noteq> d" s] by blast
  with ne b have "dropWhile (\<lambda>c. c \<noteq> d) s = d # b"
    by (metis list.collapse)
  then have "s = a @ d # b"
    using a takeWhile_dropWhile_id [of "\<lambda>c. c \<noteq> d" s] by simp
  moreover have "d \<notin> set a"
    using a by (auto dest: set_takeWhileD)
  ultimately show "s = a @ d # b \<and> d \<notin> set a" by simp
qed (auto simp: split_once_append)

lemma split_once_None: "split_once d s = None \<longleftrightarrow> d \<notin> set s"
  by (simp add: split_once_def)

lemma strip_prefix_Some: "strip_prefix p s = Some r \<longleftrightarrow> s = p @ r"
  by (auto simp: strip_prefix_def prefix_def)

lemma strip_prefix_append [simp]: "strip_prefix p (p @ r) = Some r"
  by (simp add: strip_prefix_Some)

lemma find_sub_Some:
  "find_sub p s = Some i \<Longrightarrow> s = take i s @ p @ drop (i + length p) s"
proof (induction s arbitrary: i)
  case (Cons c cs)
  show ?case
  proof (cases "prefix p (c # cs)")
    case True
    with Cons.prems show ?thesis by (auto simp: prefix_def)
  next
    case False
    with Cons.prems obtain j where "find_sub p cs = Some j" "i = Suc j" by auto
    with Cons.IH [of j] show ?thesis by auto
  qed
qed (simp split: if_splits)

lemma find_sub_first:
  assumes "\<not> sublist p (pre @ butlast p)"
  shows "find_sub p (pre @ p @ r) = Some (length pre)"
  using assms
proof (induction pre)
  case Nil
  then show ?case by (cases "p @ r") (auto, metis prefixI)
next
  case (Cons c pre)
  have "\<not> prefix p (c # pre @ p @ r)"
  proof
    assume "prefix p (c # pre @ p @ r)"
    then have "p = take (length p) (c # pre @ p @ r)" by (metis append_eq_conv_conj prefixE)
    also have "c # pre @ p @ r = (c # pre @ butlast p) @ last p # r"
      using Cons.prems append_butlast_last_id [of p] by (cases "p = []") (simp, metis append.assoc append_Cons append_Nil)
    also have "take (length p) \<dots> = take (length p) (c # pre @ butlast p)"
      by (simp add: take_Cons')
    finally have "prefix p ((c # pre) @ butlast p)" by (metis append_Cons take_is_prefix)
    with Cons.prems show False by (blast intro: prefix_imp_sublist)
  qed
  moreover have "\<not> sublist p (pre @ butlast p)"
    using Cons.prems by (auto simp: sublist_Cons_right)
  ultimately show ?case using Cons.IH by simp
qed

lemma find_sub_None: "find_sub p s = None \<longleftrightarrow> \<not> sublist p s"
  by (induction s) (auto simp: sublist_Cons_right)

lemma contains_sub_iff [simp]: "contains_sub s p \<longleftrightarrow> sublist p s"
  by (simp add: contains_sub_def find_sub_None)

lemma trim_start_idem [simp]: "trim_start (trim_start s) = trim_start s"
  by (simp add: trim_start_def)

lemma trim_id: "s = [] \<or> \<not> is_whitespace (hd s) \<and> \<not> is_whitespace (last s) \<Longrightarrow> trim s = s"
proof -
  assume A: "s = [] \<or> \<not> is_whitespace (hd s) \<and> \<not> is_whitespace (last s)"
  have dw: "dropWhile P xs = xs" if "xs = [] \<or> \<not> P (hd xs)" for P and xs :: string
    using that by (cases xs) auto
  from A have "trim_start s = s" by (auto simp: trim_start_def intro: dw)
  moreover from A have "dropWhile is_whitespace (rev s) = rev s"
    by (intro dw) (auto simp: hd_rev)
  then have "trim_end s = s" by (simp add: trim_end_def)
  ultimately show ?thesis by (simp add: trim_def)
qed

lemma trim_ends: "trim s = [] \<or> \<not> is_whitespace (hd (trim s)) \<and> \<not> is_whitespace (last (trim s))"
proof (cases "trim s = []")
  case False
  let ?t = "trim_start s"
  have "rev (takeWhile is_whitespace (rev ?t) @ dropWhile is_whitespace (rev ?t)) = ?t" by simp
  then have w: "trim s @ rev (takeWhile is_whitespace (rev ?t)) = ?t"
    unfolding trim_def trim_end_def rev_append .
  with False have "hd (trim s) = hd ?t" "?t \<noteq> []" by (metis append_is_Nil_conv hd_append2)+
  then have "\<not> is_whitespace (hd (trim s))"
    using hd_dropWhile [of is_whitespace s] by (simp add: trim_start_def)
  moreover have "\<not> is_whitespace (last (trim s))"
    using False hd_dropWhile [of is_whitespace "rev ?t"] by (auto simp: trim_def trim_end_def last_rev)
  ultimately show ?thesis by blast
qed simp

lemma trim_trim [simp]: "trim (trim s) = trim s"
  by (rule trim_id) (rule trim_ends)

lemma set_trim: "set (trim s) \<subseteq> set s"
proof -
  have dw: "set (dropWhile P xs) \<subseteq> set xs" for P and xs :: string
    by (metis Un_upper2 set_append takeWhile_dropWhile_id)
  show ?thesis
    using dw [of is_whitespace "rev (trim_start s)"] dw [of is_whitespace s]
    by (auto simp: trim_def trim_end_def trim_start_def)
qed

lemma trim_no_ws: "\<forall>c\<in>set s. \<not> is_whitespace c \<Longrightarrow> trim s = s"
  by (rule trim_id) (cases s; auto)

lemma trim_Nil [simp]: "trim [] = []"
  by (simp add: trim_id)

lemma is_token_char_not_whitespace: "is_token_char c \<Longrightarrow> \<not> is_whitespace c"
  by (auto simp: is_whitespace_def is_token_char_def is_ascii_alphanumeric_def
      is_ascii_digit_def is_ascii_lower_def is_ascii_upper_def less_eq_char_def)

lemma trim_tokens: "\<forall>c\<in>set s. is_token_char c \<Longrightarrow> trim s = s"
  by (rule trim_no_ws) (auto dest: is_token_char_not_whitespace)

lemma find_SomeD: "find P xs = Some x \<Longrightarrow> x \<in> set xs \<and> P x"
  by (induction xs) (auto split: if_splits)

section \<open>Ordered maps\<close>

text \<open>
  A \<^verbatim>\<open>BTreeMap<String, V>\<close> (and \<^verbatim>\<open>serde_json::Map\<close>, which is one in this build) is an
  association list kept in strictly increasing key order: iteration order, equality and
  lookup are the list's.
\<close>

type_synonym 'v bmap = "(string \<times> 'v) list"

fun bm_insert :: "string \<Rightarrow> 'v \<Rightarrow> 'v bmap \<Rightarrow> 'v bmap" where
  "bm_insert k v [] = [(k, v)]"
| "bm_insert k v ((k', v') # m) =
     (if k < k' then (k, v) # (k', v') # m
      else if k = k' then (k, v) # m
      else (k', v') # bm_insert k v m)"

abbreviation bm_get :: "'v bmap \<Rightarrow> string \<Rightarrow> 'v option" where
  "bm_get \<equiv> map_of"

abbreviation bm_keys :: "'v bmap \<Rightarrow> string list" where
  "bm_keys m \<equiv> map fst m"

definition bm_of :: "(string \<times> 'v) list \<Rightarrow> 'v bmap" where
  "bm_of kvs = foldl (\<lambda>m (k, v). bm_insert k v m) [] kvs"

abbreviation bm_wf :: "'v bmap \<Rightarrow> bool" where
  "bm_wf m \<equiv> sorted_wrt (<) (bm_keys m)"

lemma set_keys_bm_insert [simp]: "fst ` set (bm_insert k v m) = insert k (fst ` set m)"
  by (induction k v m rule: bm_insert.induct) (simp_all add: insert_commute)

lemma bm_wf_insert [simp]: "bm_wf m \<Longrightarrow> bm_wf (bm_insert k v m)"
proof (induction m)
  case (Cons kv m)
  obtain k' v' where kv: "kv = (k', v')" by (cases kv)
  from Cons.prems have "bm_wf m" and lt: "\<forall>x\<in>fst ` set m. k' < x"
    by (auto simp: kv)
  with Cons.IH have IH: "bm_wf (bm_insert k v m)" by simp
  have "\<forall>x\<in>fst ` set (bm_insert k v m). k' < x" if "k' < k"
    unfolding set_keys_bm_insert using lt that by blast
  with IH lt \<open>bm_wf m\<close> show ?case
    by (auto simp: kv not_less_iff_gr_or_eq dest: less_trans)
qed simp

lemma bm_get_insert: "bm_wf m \<Longrightarrow> bm_get (bm_insert k v m) = (bm_get m)(k \<mapsto> v)"
proof (induction m)
  case (Cons kv m)
  obtain k' v' where kv: "kv = (k', v')" by (cases kv)
  from Cons show ?case
    by (auto simp: kv fun_eq_iff)
qed (simp add: fun_eq_iff)

lemma bm_wf_of: "bm_wf (bm_of kvs)"
proof -
  have "bm_wf m \<Longrightarrow> bm_wf (foldl (\<lambda>m (k, v). bm_insert k v m) m kvs)" for m :: "'a bmap"
    by (induction kvs arbitrary: m) auto
  then show ?thesis by (simp add: bm_of_def)
qed

section \<open>Step systems and their invariants\<close>

text \<open>
  Several components are transition systems: the rows of the database under the statements
  the code runs. The interface is an initial-state predicate, a step relation and a
  predicate both respect; what it gives is the predicate on every reachable state.
\<close>

inductive reach :: "('s \<Rightarrow> bool) \<Rightarrow> ('s \<Rightarrow> 's \<Rightarrow> bool) \<Rightarrow> 's \<Rightarrow> bool"
  for init :: "'s \<Rightarrow> bool" and step :: "'s \<Rightarrow> 's \<Rightarrow> bool" where
  reach_init: "init s \<Longrightarrow> reach init step s"
| reach_step: "reach init step s \<Longrightarrow> step s t \<Longrightarrow> reach init step t"

locale step_invariant =
  fixes init :: "'s \<Rightarrow> bool"
    and step :: "'s \<Rightarrow> 's \<Rightarrow> bool"
    and inv :: "'s \<Rightarrow> bool"
  assumes inv_init: "init s \<Longrightarrow> inv s"
    and inv_step: "inv s \<Longrightarrow> step s t \<Longrightarrow> inv t"
begin

lemma inv_reach: "reach init step s \<Longrightarrow> inv s"
  by (induction rule: reach.induct) (auto intro: inv_init inv_step)

lemma inv_steps: "step\<^sup>*\<^sup>* s t \<Longrightarrow> inv s \<Longrightarrow> inv t"
  by (induction rule: rtranclp_induct) (auto intro: inv_step)

end

end
