(* ===== verification/Paths.thy ===== *)
theory Paths
  imports Prelude "HOL-Library.While_Combinator"
begin

text \<open>
  \<^verbatim>\<open>src/src/paths.rs\<close>: the glob matcher of the path and branch filters, and the set of paths
  a submit changed. The segment matcher is kept as the loop it is in the source, over its
  cursor pair and its one backtrack point; the development shows that the loop returns and
  that it decides the declarative meaning of \<open>*\<close> and \<open>?\<close>, although it only ever backtracks
  to the last star.
\<close>

section \<open>What a submit changed\<close>

definition MAX_CHANGED_PATHS :: nat where
  "MAX_CHANGED_PATHS = 5000"

datatype changes = Known "string list" | Unknown string

definition default_changes :: changes where
  "default_changes = Unknown ''this run predates change detection''"

definition known :: "string list \<Rightarrow> changes" where
  "known ps =
     (if length ps > MAX_CHANGED_PATHS
      then Unknown (''the diff touches '' @ nat_str (length ps) @ '' paths, over the ''
             @ nat_str MAX_CHANGED_PATHS
             @ '' this records; treating every path filter as matched'')
      else Known ps)"

fun changed_list :: "changes \<Rightarrow> string list" where
  "changed_list (Known ps) = ps"
| "changed_list (Unknown _) = []"

fun is_known :: "changes \<Rightarrow> bool" where
  "is_known (Known _) = True"
| "is_known (Unknown _) = False"

fun change_reason :: "changes \<Rightarrow> string option" where
  "change_reason (Known _) = None"
| "change_reason (Unknown r) = Some r"

fun display_changes :: "changes \<Rightarrow> string" where
  "display_changes (Known ps) = nat_str (length ps) @ '' path(s) changed''"
| "display_changes (Unknown r) = ''changed paths unknown: '' @ r"

section \<open>Validation\<close>

text \<open>Each error of \<^verbatim>\<open>validate\<close> is a formatted message; here it is a constructor with the
  values the message interpolates.\<close>

datatype pattern_error =
    EmptyPattern
  | NegatedPattern string string
  | AbsolutePattern string string

definition validate :: "string \<Rightarrow> (pattern_error, unit) result" where
  "validate pattern =
     (let p = trim pattern in
      if p = [] then Err EmptyPattern
      else case strip_prefix ''!'' p of
        Some rest \<Rightarrow> Err (NegatedPattern p rest)
      | None \<Rightarrow>
          if prefix ''/'' p then Err (AbsolutePattern p (trim_start_char (CHR ''/'') p))
          else Ok ())"

section \<open>The matcher\<close>

text \<open>
  \<^verbatim>\<open>match_segment\<close>: the loop state is the pattern cursor, the text cursor, the backtrack
  point \<^verbatim>\<open>star\<close>, and whether the loop has executed its \<^verbatim>\<open>return false\<close>.
\<close>

type_synonym seg_state = "nat \<times> nat \<times> (nat \<times> nat) option \<times> bool"

definition seg_cond :: "string \<Rightarrow> seg_state \<Rightarrow> bool" where
  "seg_cond t = (\<lambda>(pi, ti, star, failed). \<not> failed \<and> ti < length t)"

definition seg_body :: "string \<Rightarrow> string \<Rightarrow> seg_state \<Rightarrow> seg_state" where
  "seg_body p t = (\<lambda>(pi, ti, star, failed).
     if pi < length p \<and> p ! pi = CHR ''*'' then (pi + 1, ti, Some (pi, ti), failed)
     else if pi < length p \<and> p ! pi = CHR ''?'' then (pi + 1, ti + 1, star, failed)
     else if pi < length p \<and> p ! pi = t ! ti then (pi + 1, ti + 1, star, failed)
     else case star of
            Some (sp, st) \<Rightarrow> (sp + 1, st + 1, Some (sp, st + 1), failed)
          | None \<Rightarrow> (pi, ti, star, True))"

definition seg_loop :: "string \<Rightarrow> string \<Rightarrow> seg_state option" where
  "seg_loop p t = while_option (seg_cond t) (seg_body p t) (0, 0, None, False)"

definition match_segment :: "string \<Rightarrow> string \<Rightarrow> bool" where
  "match_segment p t =
     (case seg_loop p t of
        None \<Rightarrow> False
      | Some (pi, ti, star, failed) \<Rightarrow>
          \<not> failed \<and> pi + length (takeWhile (\<lambda>c. c = CHR ''*'') (drop pi p)) = length p)"

fun match_segments :: "string list \<Rightarrow> string list \<Rightarrow> bool" where
  "match_segments [] path = (path = [])"
| "match_segments (first # rest) path =
     (if first = ''**'' then
        (if rest = [] then True
         else list_ex (\<lambda>i. match_segments rest (drop i path)) [0..<Suc (length path)])
      else case path of
             [] \<Rightarrow> False
           | head # tail \<Rightarrow> match_segment first head \<and> match_segments rest tail)"

definition path_matches :: "string \<Rightarrow> string \<Rightarrow> bool" where
  "path_matches pattern path =
     match_segments
       (split_on (CHR ''/'') (trim_start_matches ''./'' (trim pattern)))
       (split_on (CHR ''/'') (trim_start_matches ''./'' path))"

fun matches_any :: "changes \<Rightarrow> string list \<Rightarrow> bool" where
  "matches_any (Unknown _) patterns = True"
| "matches_any (Known ps) patterns =
     list_ex (\<lambda>pat. list_ex (path_matches pat) ps) patterns"

fun all_match :: "changes \<Rightarrow> string list \<Rightarrow> bool" where
  "all_match (Unknown _) patterns = False"
| "all_match (Known ps) patterns =
     (if ps = [] \<or> patterns = [] then False
      else list_all (\<lambda>p. list_ex (\<lambda>pat. path_matches pat p) patterns) ps)"

section \<open>The meaning of a pattern\<close>

text \<open>The reference definition: a star takes any prefix of what is left, a question mark one
  character, anything else itself.\<close>

primrec glob :: "string \<Rightarrow> string \<Rightarrow> bool" where
  "glob [] t = (t = [])"
| "glob (c # p) t =
     (if c = CHR ''*'' then (\<exists>v\<in>set (suffixes t). glob p v)
      else (case t of [] \<Rightarrow> False | x # xs \<Rightarrow> (c = CHR ''?'' \<or> c = x) \<and> glob p xs))"

text \<open>And of a whole pattern: a segment \<open>**\<close> takes any number of whole segments.\<close>

primrec glob_path :: "string list \<Rightarrow> string list \<Rightarrow> bool" where
  "glob_path [] path = (path = [])"
| "glob_path (seg # rest) path =
     (if seg = ''**'' then (\<exists>v\<in>set (suffixes path). glob_path rest v)
      else (case path of [] \<Rightarrow> False | x # xs \<Rightarrow> glob seg x \<and> glob_path rest xs))"

text \<open>A run of pattern characters that are not stars matches exactly its own length.\<close>

definition lit_match :: "string \<Rightarrow> string \<Rightarrow> bool" where
  "lit_match ls u = list_all2 (\<lambda>c x. c \<noteq> CHR ''*'' \<and> (c = CHR ''?'' \<or> c = x)) ls u"

lemma glob_star: "glob (CHR ''*'' # p) t \<longleftrightarrow> (\<exists>u v. t = u @ v \<and> glob p v)"
proof -
  have "v \<in> set (suffixes t) \<longleftrightarrow> (\<exists>u. t = u @ v)" for v by (simp add: suffix_def)
  then have "(\<exists>v\<in>set (suffixes t). glob p v) \<longleftrightarrow> (\<exists>u v. t = u @ v \<and> glob p v)" by metis
  then show ?thesis by simp
qed

lemma glob_star_absorb: "glob (CHR ''*'' # p) v \<Longrightarrow> glob (CHR ''*'' # p) (u @ v)"
  unfolding glob_star by (metis append.assoc)

lemma glob_star_Cons:
  "glob (CHR ''*'' # p) (x # t) \<longleftrightarrow> glob p (x # t) \<or> glob (CHR ''*'' # p) t"
  by (auto simp: suffix_Cons)

lemma glob_lit: "lit_match ls u \<Longrightarrow> glob (ls @ r) (u @ v) \<longleftrightarrow> glob r v"
  unfolding lit_match_def
  by (induction ls u arbitrary: v rule: list_all2_induct) auto

lemma glob_lit_decomp:
  "list_all (\<lambda>c. c \<noteq> CHR ''*'') ls \<Longrightarrow> glob (ls @ r) w \<Longrightarrow>
     \<exists>u v. w = u @ v \<and> lit_match ls u \<and> glob r v"
proof (induction ls arbitrary: w)
  case Nil
  then show ?case by (auto simp: lit_match_def)
next
  case (Cons c ls)
  then obtain x xs where w: "w = x # xs" and c: "c = CHR ''?'' \<or> c = x" and g: "glob (ls @ r) xs"
    by (auto split: list.splits)
  from Cons.IH [OF _ g] Cons.prems(1) obtain u v
    where uv: "xs = u @ v" "lit_match ls u" "glob r v" by auto
  have "lit_match (c # ls) (x # u)"
    using uv(2) c Cons.prems(1) by (simp add: lit_match_def)
  then show ?case
    using uv by (intro exI [of _ "x # u"] exI [of _ v]) (simp add: w)
qed

lemma lit_match_nostar: "lit_match ls u \<Longrightarrow> list_all (\<lambda>c. c \<noteq> CHR ''*'') ls"
  by (auto simp: lit_match_def list_all_length list_all2_conv_all_nth)

lemma lit_match_length: "lit_match ls u \<Longrightarrow> length ls = length u"
  by (simp add: lit_match_def list_all2_lengthD)

lemma glob_all_stars: "glob p [] \<longleftrightarrow> list_all (\<lambda>c. c = CHR ''*'') p"
  by (induction p) auto

text \<open>The three facts that justify dropping every backtrack point but the last one.\<close>

lemma star_lits_star:
  assumes "lit_match ls u"
  shows "glob (CHR ''*'' # ls @ CHR ''*'' # r) (u @ v) \<longleftrightarrow> glob (CHR ''*'' # r) v"
proof
  assume "glob (CHR ''*'' # ls @ CHR ''*'' # r) (u @ v)"
  then obtain a b where ab: "u @ v = a @ b" and g: "glob (ls @ CHR ''*'' # r) b"
    unfolding glob_star by blast
  from glob_lit_decomp [OF lit_match_nostar [OF assms] g]
  obtain u' v' where b: "b = u' @ v'" "lit_match ls u'" "glob (CHR ''*'' # r) v'" by blast
  have "length u \<le> length (a @ u')"
    using lit_match_length [OF assms] lit_match_length [OF b(2)] by simp
  with ab b(1) obtain w where "v = w @ v'"
    by (metis append.assoc append_eq_append_conv_if append_take_drop_id)
  with b(3) show "glob (CHR ''*'' # r) v" by (simp add: glob_star_absorb del: glob.simps)
next
  assume "glob (CHR ''*'' # r) v"
  then have "glob (ls @ CHR ''*'' # r) (u @ v)" using glob_lit [OF assms] by blast
  then show "glob (CHR ''*'' # ls @ CHR ''*'' # r) (u @ v)"
    unfolding glob_star by (metis append_Nil)
qed

lemma star_lits_end:
  assumes "lit_match ls u"
  shows "glob (CHR ''*'' # ls @ r) u \<longleftrightarrow> glob r []"
proof
  assume "glob (CHR ''*'' # ls @ r) u"
  then obtain a b where ab: "u = a @ b" and g: "glob (ls @ r) b"
    unfolding glob_star by blast
  from glob_lit_decomp [OF lit_match_nostar [OF assms] g]
  obtain u' v' where b: "b = u' @ v'" "lit_match ls u'" "glob r v'" by blast
  have "length u = length u'"
    using lit_match_length [OF assms] lit_match_length [OF b(2)] by simp
  with ab b(1,3) show "glob r []" by simp
next
  assume "glob r []"
  then have "glob (ls @ r) u" using glob_lit [OF assms, of r "[]"] by simp
  then show "glob (CHR ''*'' # ls @ r) u" unfolding glob_star by (metis append_Nil)
qed

lemma lits_mismatch:
  assumes "lit_match ls u"
    and "r = [] \<or> (hd r \<noteq> CHR ''*'' \<and> hd r \<noteq> CHR ''?'' \<and> hd r \<noteq> x)"
  shows "\<not> glob (ls @ r) (u @ x # v)"
  using assms(2) glob_lit [OF assms(1), of r "x # v"] by (cases r) auto


section \<open>The loop returns, and decides the meaning\<close>

definition seg_inv :: "string \<Rightarrow> string \<Rightarrow> seg_state \<Rightarrow> bool" where
  "seg_inv p t = (\<lambda>(pi, ti, star, failed).
     pi \<le> length p \<and> ti \<le> length t \<and>
     (failed \<longrightarrow> \<not> glob p t) \<and>
     (\<not> failed \<longrightarrow>
       (case star of
          None \<Rightarrow> glob p t = glob (drop pi p) (drop ti t)
        | Some (sp, st) \<Rightarrow>
            sp < pi \<and> st \<le> ti \<and> p ! sp = CHR ''*'' \<and>
            glob p t = glob (drop sp p) (drop st t) \<and>
            lit_match (take (pi - Suc sp) (drop (Suc sp) p)) (take (ti - st) (drop st t)))))"

lemma drop_at_star:
  assumes "sp < pi" "pi \<le> length p" "p ! sp = c"
  shows "drop sp p = c # take (pi - Suc sp) (drop (Suc sp) p) @ drop pi p"
proof -
  have "drop sp p = c # drop (Suc sp) p"
    using assms by (simp add: Cons_nth_drop_Suc [symmetric])
  moreover have "drop (Suc sp) p = take (pi - Suc sp) (drop (Suc sp) p) @ drop pi p"
    using assms append_take_drop_id [of "pi - Suc sp" "drop (Suc sp) p"] by simp
  ultimately show ?thesis by simp
qed

lemma drop_at:
  assumes "st \<le> ti"
  shows "drop st t = take (ti - st) (drop st t) @ drop ti t"
  using assms append_take_drop_id [of "ti - st" "drop st t"] by simp

lemma lit_match_extend:
  assumes "lit_match (take n xs) (take m ys)"
    and "n < length xs" "m < length ys"
    and "xs ! n \<noteq> CHR ''*''" "xs ! n = CHR ''?'' \<or> xs ! n = ys ! m"
  shows "lit_match (take (Suc n) xs) (take (Suc m) ys)"
  using assms by (simp add: lit_match_def take_Suc_conv_app_nth list_all2_appendI)

lemma seg_inv_step:
  assumes inv: "seg_inv p t s" and cond: "seg_cond t s"
  shows "seg_inv p t (seg_body p t s)"
proof -
  obtain pi ti star failed where s: "s = (pi, ti, star, failed)" by (cases s)
  from cond s have nf: "\<not> failed" and ti: "ti < length t" by (auto simp: seg_cond_def)
  from inv s have pi: "pi \<le> length p" by (auto simp: seg_inv_def)
  have dt: "drop ti t = t ! ti # drop (Suc ti) t" using ti by (simp add: Cons_nth_drop_Suc)
  consider (star) "pi < length p" "p ! pi = CHR ''*''"
    | (one) "pi < length p" "p ! pi \<noteq> CHR ''*''" "p ! pi = CHR ''?'' \<or> p ! pi = t ! ti"
    | (bad) "drop pi p = [] \<or> (hd (drop pi p) \<noteq> CHR ''*'' \<and> hd (drop pi p) \<noteq> CHR ''?''
                 \<and> hd (drop pi p) \<noteq> t ! ti)"
    using pi by (cases "pi < length p") (auto simp: hd_drop_conv_nth)
  then show ?thesis
  proof cases
    case star
    have "glob p t = glob (drop pi p) (drop ti t)"
    proof (cases star)
      case None
      with inv s nf show ?thesis by (simp add: seg_inv_def)
    next
      case (Some a)
      obtain sp st where a: "a = (sp, st)" by (cases a)
      with inv s nf Some have I: "sp < pi" "st \<le> ti" "p ! sp = CHR ''*''"
        "glob p t = glob (drop sp p) (drop st t)"
        "lit_match (take (pi - Suc sp) (drop (Suc sp) p)) (take (ti - st) (drop st t))"
        by (auto simp: seg_inv_def)
      have "drop pi p = CHR ''*'' # drop (Suc pi) p"
        using star by (simp add: Cons_nth_drop_Suc [symmetric])
      with star_lits_star [OF I(5), of "drop (Suc pi) p" "drop ti t"] I(4)
        drop_at_star [OF I(1) pi I(3)] drop_at [OF I(2), of t]
      show ?thesis by (simp del: glob.simps)
    qed
    with star nf ti show ?thesis
      by (simp add: s seg_inv_def seg_body_def lit_match_def)
  next
    case one
    have "glob (drop pi p) (drop ti t) = glob (drop (Suc pi) p) (drop (Suc ti) t)"
      using one dt by (simp add: Cons_nth_drop_Suc [symmetric])
    moreover have "lit_match (take (Suc pi - Suc sp) (drop (Suc sp) p)) (take (Suc ti - st) (drop st t))"
      if "lit_match (take (pi - Suc sp) (drop (Suc sp) p)) (take (ti - st) (drop st t))"
        "sp < pi" "st \<le> ti" for sp st
      using lit_match_extend [OF that(1)] that(2,3) one ti
      by (simp add: Suc_diff_le Suc_diff_Suc)
    moreover have "seg_body p t s = (Suc pi, Suc ti, star, failed)"
      using one by (auto simp: s seg_body_def)
    ultimately show ?thesis
      using inv one(1) nf ti by (cases star) (simp_all add: s seg_inv_def split_beta less_Suc_eq)
  next
    case bad
    show ?thesis
    proof (cases star)
      case None
      with inv s nf have "glob p t = glob (drop pi p) (drop ti t)" by (simp add: seg_inv_def)
      moreover have "\<not> glob (drop pi p) (drop ti t)"
        using lits_mismatch [of "[]" "[]" "drop pi p" "t ! ti"] bad dt by (simp add: lit_match_def)
      ultimately show ?thesis
        using bad pi ti None by (auto simp: s seg_inv_def seg_body_def hd_drop_conv_nth)
    next
      case (Some a)
      obtain sp st where a: "a = (sp, st)" by (cases a)
      with inv s nf Some have I: "sp < pi" "st \<le> ti" "p ! sp = CHR ''*''"
        "glob p t = glob (drop sp p) (drop st t)"
        "lit_match (take (pi - Suc sp) (drop (Suc sp) p)) (take (ti - st) (drop st t))"
        by (auto simp: seg_inv_def)
      let ?q = "take (pi - Suc sp) (drop (Suc sp) p) @ drop pi p"
      have q: "drop sp p = CHR ''*'' # ?q" by (rule drop_at_star [OF I(1) pi I(3)])
      have "\<not> glob ?q (take (ti - st) (drop st t) @ t ! ti # drop (Suc ti) t)"
        by (rule lits_mismatch [OF I(5) bad])
      then have "\<not> glob ?q (drop st t)" using drop_at [OF I(2), of t] dt by simp
      moreover have "drop st t = t ! st # drop (Suc st) t"
        using I(2) ti by (simp add: Cons_nth_drop_Suc)
      ultimately have "glob (drop sp p) (drop st t) = glob (drop sp p) (drop (Suc st) t)"
        unfolding q by (metis glob_star_Cons)
      with I have "seg_inv p t (Suc sp, Suc st, Some (sp, Suc st), failed)"
        using pi ti nf by (simp add: seg_inv_def lit_match_def)
      moreover have "seg_body p t s = (Suc sp, Suc st, Some (sp, Suc st), failed)"
        using bad pi Some a by (auto simp: s seg_body_def hd_drop_conv_nth)
      ultimately show ?thesis by simp
    qed
  qed
qed

lemma seg_inv_init: "seg_inv p t (0, 0, None, False)"
  by (simp add: seg_inv_def)

text \<open>What decreases: first the stars still to come, then the text behind the backtrack
  point, then the two cursors.\<close>

definition seg_measures :: "string \<Rightarrow> string \<Rightarrow> (seg_state \<Rightarrow> nat) list" where
  "seg_measures p t =
     [\<lambda>(pi, ti, star, failed). case star of None \<Rightarrow> Suc (length p) | Some (sp, st) \<Rightarrow> length p - sp,
      \<lambda>(pi, ti, star, failed). case star of None \<Rightarrow> 0 | Some (sp, st) \<Rightarrow> length t - st,
      \<lambda>(pi, ti, star, failed). (length t - ti) + (length p - pi) + (if failed then 0 else 1)]"

lemma seg_body_decreases:
  assumes "seg_inv p t s" and "seg_cond t s"
  shows "(seg_body p t s, s) \<in> measures (seg_measures p t)"
proof -
  obtain pi ti star failed where s: "s = (pi, ti, star, failed)" by (cases s)
  from assms have "\<not> failed" "ti < length t" "pi \<le> length p"
    by (auto simp: s seg_cond_def seg_inv_def)
  moreover have "sp < pi" "st \<le> ti" if "star = Some (sp, st)" for sp st
    using assms that by (auto simp: s seg_inv_def seg_cond_def)
  ultimately show ?thesis
    unfolding seg_measures_def seg_body_def
    by (cases star) (auto simp: s diff_less_mono2)
qed

lemma seg_loop_returns: "\<exists>s. seg_loop p t = Some s"
  unfolding seg_loop_def
proof (rule wf_while_option_Some [where P = "seg_inv p t"])
  show "wf {(s', s). (seg_inv p t s \<and> seg_cond t s) \<and> s' = seg_body p t s}"
    by (rule wf_subset [OF wf_measures]) (auto intro: seg_body_decreases)
qed (auto intro: seg_inv_step seg_inv_init)

lemma takeWhile_all: "length (takeWhile P xs) = length xs \<longleftrightarrow> list_all P xs"
  by (induction xs) auto

lemma match_segment_glob: "match_segment p t = glob p t"
proof -
  obtain pi ti star failed where s: "seg_loop p t = Some (pi, ti, star, failed)"
    using seg_loop_returns [of p t] by (metis prod_cases4)
  have inv: "seg_inv p t (pi, ti, star, failed)"
    using while_option_rule [where P = "seg_inv p t", OF _ s [unfolded seg_loop_def]]
    by (simp add: seg_inv_step seg_inv_init)
  have stop: "\<not> seg_cond t (pi, ti, star, failed)"
    using while_option_stop [OF s [unfolded seg_loop_def]] .
  show ?thesis
  proof (cases failed)
    case True
    with inv s show ?thesis by (simp add: match_segment_def seg_inv_def)
  next
    case False
    with inv stop have pi: "pi \<le> length p" and ti: "drop ti t = []"
      by (auto simp: seg_inv_def seg_cond_def)
    have "glob p t = glob (drop pi p) []"
    proof (cases star)
      case None
      with inv False ti show ?thesis by (simp add: seg_inv_def)
    next
      case (Some a)
      obtain sp st where "a = (sp, st)" by (cases a)
      with inv False Some have I: "sp < pi" "st \<le> ti" "p ! sp = CHR ''*''"
        "glob p t = glob (drop sp p) (drop st t)"
        "lit_match (take (pi - Suc sp) (drop (Suc sp) p)) (take (ti - st) (drop st t))"
        by (auto simp: seg_inv_def)
      with star_lits_end [OF I(5), of "drop pi p"] drop_at_star [OF I(1) pi I(3)]
        drop_at [OF I(2), of t] ti
      show ?thesis by (simp del: glob.simps)
    qed
    also have "\<dots> \<longleftrightarrow> pi + length (takeWhile (\<lambda>c. c = CHR ''*'') (drop pi p)) = length p"
      using pi takeWhile_all [of "\<lambda>c. c = CHR ''*''" "drop pi p"] by (auto simp: glob_all_stars)
    finally show ?thesis using s False by (simp add: match_segment_def)
  qed
qed

lemma list_ex_drops: "list_ex (\<lambda>i. P (drop i xs)) [0..<Suc (length xs)] \<longleftrightarrow> (\<exists>v\<in>set (suffixes xs). P v)"
proof -
  have "set (suffixes xs) = (\<lambda>i. drop i xs) ` set [0..<Suc (length xs)]"
  proof (intro set_eqI iffI)
    fix v assume "v \<in> set (suffixes xs)"
    then obtain u where "xs = u @ v" by (auto simp: suffix_def)
    then show "v \<in> (\<lambda>i. drop i xs) ` set [0..<Suc (length xs)]"
      by (intro image_eqI [of _ _ "length u"]) auto
  qed (auto simp: suffix_drop simp del: upt_Suc)
  then show ?thesis by (simp add: list_ex_iff)
qed

lemma match_segments_glob: "match_segments pat path = glob_path pat path"
proof (induction pat path rule: match_segments.induct)
  case (2 first rest path)
  show ?case
  proof (cases "first = ''**''")
    case True
    have "(\<exists>v\<in>set (suffixes path). glob_path [] v)" by simp
    moreover have "list_ex (\<lambda>i. match_segments rest (drop i path)) [0..<Suc (length path)]
        \<longleftrightarrow> list_ex (\<lambda>i. glob_path rest (drop i path)) [0..<Suc (length path)]" if "rest \<noteq> []"
      using 2(1) [OF True that] by (auto simp: list_ex_iff simp del: upt_Suc)
    ultimately show ?thesis
      using True list_ex_drops [of "glob_path rest" path] by (cases "rest = []") auto
  next
    case False
    with 2(2) show ?thesis by (auto simp: match_segment_glob split: list.splits)
  qed
qed simp

text \<open>What the two entry points mean in terms of the reference definition.\<close>

abbreviation pattern_segments :: "string \<Rightarrow> string list" where
  "pattern_segments pattern \<equiv> split_on (CHR ''/'') (trim_start_matches ''./'' (trim pattern))"

abbreviation path_segments :: "string \<Rightarrow> string list" where
  "path_segments path \<equiv> split_on (CHR ''/'') (trim_start_matches ''./'' path)"

lemma path_matches_glob:
  "path_matches pattern path = glob_path (pattern_segments pattern) (path_segments path)"
  by (simp add: path_matches_def match_segments_glob)

lemma glob_path_length:
  "''**'' \<notin> set pat \<Longrightarrow> glob_path pat path \<Longrightarrow> length path = length pat"
  by (induction pat arbitrary: path) (auto split: list.splits)

lemma glob_literal:
  "CHR ''*'' \<notin> set p \<Longrightarrow> CHR ''?'' \<notin> set p \<Longrightarrow> glob p t \<longleftrightarrow> t = p"
  by (induction p arbitrary: t) (auto split: list.splits)

section \<open>Properties\<close>

text \<open>C40: the segment matcher, an iterative loop with one backtrack point, always returns, and
  answers exactly whether the text has the form the pattern describes (\<open>*\<close> any run of
  characters, \<open>?\<close> one character, everything else itself).\<close>

theorem match_segment_decides_glob:
  "(\<exists>s. seg_loop p t = Some s) \<and> (match_segment p t \<longleftrightarrow> glob p t)"
  using seg_loop_returns match_segment_glob by blast

text \<open>a pattern covers a path exactly when its segments describe the path's segments, with
  \<open>**\<close> standing for any number of whole segments; in particular a pattern without \<open>**\<close> never
  covers a path with a different number of segments, so \<open>*\<close> does not cross a separator.\<close>

theorem path_matches_segments:
  "(path_matches pattern path \<longleftrightarrow> glob_path (pattern_segments pattern) (path_segments path)) \<and>
   (''**'' \<notin> set (pattern_segments pattern) \<and> path_matches pattern path \<longrightarrow>
      length (path_segments path) = length (pattern_segments pattern))"
  using glob_path_length by (auto simp: path_matches_glob)

theorem path_matches_segments_witness:
  "''**'' \<notin> set (pattern_segments ''src/*.rs'') \<and> path_matches ''src/*.rs'' ''src/a.rs'' \<and>
   length (path_segments ''src/a.rs'') = length (pattern_segments ''src/*.rs'')"
proof -
  have "''**'' \<notin> set (pattern_segments ''src/*.rs'')" by code_simp
  moreover have "path_matches ''src/*.rs'' ''src/a.rs''" by code_simp
  ultimately show ?thesis using path_matches_segments [of "''src/*.rs''" "''src/a.rs''"] by blast
qed

end
