(* ===== verification/Expr.thy ===== *)
theory Expr
  imports Paths
begin

text \<open>
  \<^verbatim>\<open>src/src/expr.rs\<close>: the expression language of \<^verbatim>\<open>${{ \<dots> }}\<close> and \<^verbatim>\<open>if:\<close>. Values are
  \<^verbatim>\<open>serde_json::Value\<close>s. Two functions of that crate are parameters, bundled in the record
  \<open>json_lib\<close>: how a value is printed, and how a text is read. The numbers of the tokenizer are
  binary64 values with Rust's decimal parser spelled out.

  The parser is the source's recursive descent, which evaluates while it parses. Its recursion
  is driven by the tokens it consumes; in the model the nesting depth is the fuel, and
  \<open>parse_expr_returns\<close> shows that the amount \<open>eval_toks\<close> starts with never runs out.
\<close>

section \<open>Binary64 numbers\<close>

text \<open>A finite value is a mantissa and a power of two, not normalised; comparisons go through
  the value.\<close>

datatype f64 = Fin int int | PInf | NInf | NaN

fun bit_len :: "nat \<Rightarrow> nat" where
  "bit_len n = (if n = 0 then 0 else Suc (bit_len (n div 2)))"

declare bit_len.simps [simp del]

definition half_even :: "nat \<Rightarrow> nat \<Rightarrow> nat" where
  "half_even a b =
     (let q = a div b; r = a mod b
      in if 2 * r < b then q else if 2 * r > b then Suc q else if even q then q else Suc q)"

text \<open>The nearest binary64 value to \<open>num / den\<close>, ties to even; too large is infinite.\<close>

definition round_ratio :: "nat \<Rightarrow> nat \<Rightarrow> f64" where
  "round_ratio num den =
     (if num = 0 then Fin 0 0 else
      let scale = (\<lambda>e. if 0 \<le> e then (num, den * 2 ^ nat e) else (num * 2 ^ nat (- e), den));
          e0 = int (bit_len num) - int (bit_len den) - 53;
          e1 = (if fst (scale e0) \<ge> 2 ^ 53 * snd (scale e0) then e0 + 1 else e0);
          e = max e1 (- 1074);
          m = half_even (fst (scale e)) (snd (scale e))
      in if 0 \<le> e \<and> int m * 2 ^ nat e \<ge> 2 ^ 1024 then PInf else Fin (int m) e)"

fun f64_neg :: "f64 \<Rightarrow> f64" where
  "f64_neg (Fin m e) = Fin (- m) e"
| "f64_neg PInf = NInf"
| "f64_neg NInf = PInf"
| "f64_neg NaN = NaN"

definition f64_of_int :: "int \<Rightarrow> f64" where
  "f64_of_int i =
     (if 0 \<le> i then round_ratio (nat i) 1 else f64_neg (round_ratio (nat (- i)) 1))"

text \<open>Exact comparison of two finite values.\<close>

definition fin_less :: "int \<Rightarrow> int \<Rightarrow> int \<Rightarrow> int \<Rightarrow> bool" where
  "fin_less m1 e1 m2 e2 =
     (let e = min e1 e2 in m1 * 2 ^ nat (e1 - e) < m2 * 2 ^ nat (e2 - e))"

fun f64_less :: "f64 \<Rightarrow> f64 \<Rightarrow> bool" where
  "f64_less (Fin m1 e1) (Fin m2 e2) = fin_less m1 e1 m2 e2"
| "f64_less NaN _ = False"
| "f64_less _ NaN = False"
| "f64_less PInf _ = False"
| "f64_less _ PInf = True"
| "f64_less NInf NInf = False"
| "f64_less NInf _ = True"
| "f64_less _ NInf = False"

fun f64_eq :: "f64 \<Rightarrow> f64 \<Rightarrow> bool" where
  "f64_eq (Fin m1 e1) (Fin m2 e2) = (\<not> fin_less m1 e1 m2 e2 \<and> \<not> fin_less m2 e2 m1 e1)"
| "f64_eq PInf PInf = True"
| "f64_eq NInf NInf = True"
| "f64_eq _ _ = False"

text \<open>\<^verbatim>\<open>str::parse::<f64>\<close>: an optional sign, then \<^verbatim>\<open>inf\<close>, \<^verbatim>\<open>infinity\<close> or \<^verbatim>\<open>nan\<close> in any case,
  or digits with an optional point (a digit on at least one side) and an optional exponent.\<close>

definition split_exp :: "string \<Rightarrow> string \<times> string option" where
  "split_exp s =
     (let n = length (takeWhile (\<lambda>c. c \<noteq> CHR ''e'' \<and> c \<noteq> CHR ''E'') s)
      in if n < length s then (take n s, Some (drop (Suc n) s)) else (s, None))"

definition parse_exp :: "string option \<Rightarrow> int option" where
  "parse_exp x =
     (case x of
        None \<Rightarrow> Some 0
      | Some s \<Rightarrow>
          (let neg = (s \<noteq> [] \<and> hd s = CHR ''-'');
               ds = (if s \<noteq> [] \<and> (hd s = CHR ''-'' \<or> hd s = CHR ''+'') then tl s else s)
           in if ds \<noteq> [] \<and> list_all is_ascii_digit ds
              then Some (if neg then - int (dec_value ds) else int (dec_value ds)) else None))"

definition parse_decimal :: "string \<Rightarrow> f64 option" where
  "parse_decimal s =
     (case split_exp s of (mant, ex) \<Rightarrow>
        (let (ip, fp) = (case split_once (CHR ''.'') mant of None \<Rightarrow> (mant, []) | Some p \<Rightarrow> p)
         in if ip @ fp \<noteq> [] \<and> list_all is_ascii_digit (ip @ fp) then
              (case parse_exp ex of
                 None \<Rightarrow> None
               | Some k \<Rightarrow>
                   (let d = dec_value (ip @ fp); k' = k - int (length fp)
                    in Some (if 0 \<le> k' then round_ratio (d * 10 ^ nat k') 1
                             else round_ratio d (10 ^ nat (- k')))))
            else None))"

definition parse_f64 :: "string \<Rightarrow> f64 option" where
  "parse_f64 s =
     (let neg = (s \<noteq> [] \<and> hd s = CHR ''-'');
          b = (if s \<noteq> [] \<and> (hd s = CHR ''-'' \<or> hd s = CHR ''+'') then tl s else s);
          v = (if to_ascii_lowercase b \<in> {''inf'', ''infinity''} then Some PInf
               else if to_ascii_lowercase b = ''nan'' then Some NaN
               else parse_decimal b)
      in map_option (if neg then f64_neg else id) v)"

section \<open>Values and contexts\<close>

datatype jnum = NInt int | NFloat f64

datatype json =
    JNull
  | JBool bool
  | JNum jnum
  | JStr string
  | JArr "json list"
  | JObj "(string \<times> json) list"

record json_lib =
  json_to_string :: "json \<Rightarrow> string"
  json_from_str :: "string \<Rightarrow> json option"

text \<open>A crate that prints nothing and reads nothing, for concrete instances that do not depend on it.\<close>

definition no_json :: json_lib where
  "no_json = \<lparr>json_to_string = (\<lambda>_. []), json_from_str = (\<lambda>_. None)\<rparr>"

type_synonym expr_ctx = "json bmap"

definition set_scope :: "expr_ctx \<Rightarrow> string \<Rightarrow> json \<Rightarrow> expr_ctx" where
  "set_scope ctx scope v = bm_insert scope v ctx"

definition set_status :: "expr_ctx \<Rightarrow> string \<Rightarrow> expr_ctx" where
  "set_status ctx st = set_scope ctx ''__status'' (JStr st)"

definition ctx_status :: "expr_ctx \<Rightarrow> string" where
  "ctx_status ctx = (case bm_get ctx ''__status'' of Some (JStr s) \<Rightarrow> s | _ \<Rightarrow> ''success'')"

fun walk1 :: "json \<Rightarrow> string \<Rightarrow> json" where
  "walk1 (JObj m) seg = (case bm_get m seg of Some v \<Rightarrow> v | None \<Rightarrow> JNull)"
| "walk1 (JArr items) seg =
     (case parse_u64 seg of
        Some i \<Rightarrow> if i < length items then items ! i else JNull
      | None \<Rightarrow> JNull)"
| "walk1 _ seg = JNull"

definition walk :: "json \<Rightarrow> string list \<Rightarrow> json" where
  "walk cur segments = foldl walk1 cur segments"

definition lookup :: "expr_ctx \<Rightarrow> string list \<Rightarrow> json" where
  "lookup ctx path =
     (case path of
        [] \<Rightarrow> JNull
      | first # rest \<Rightarrow>
          (case bm_get ctx first of None \<Rightarrow> JNull | Some v \<Rightarrow> walk v rest))"

text \<open>\<^verbatim>\<open>number\<close>: an integer below 2^53 in magnitude becomes a JSON integer; what
  \<^verbatim>\<open>Number::from_f64\<close> refuses (not finite) becomes null.\<close>

fun number :: "f64 \<Rightarrow> json" where
  "number (Fin m e) =
     (if 0 \<le> e then
        (if \<bar>m * 2 ^ nat e\<bar> < 9007199254740992 then JNum (NInt (m * 2 ^ nat e))
         else JNum (NFloat (Fin m e)))
      else if 2 ^ nat (- e) dvd m \<and> \<bar>m div 2 ^ nat (- e)\<bar> < 9007199254740992
        then JNum (NInt (m div 2 ^ nat (- e)))
      else JNum (NFloat (Fin m e)))"
| "number _ = JNull"

fun as_f64 :: "jnum \<Rightarrow> f64" where
  "as_f64 (NInt i) = f64_of_int i"
| "as_f64 (NFloat f) = f"

fun to_display :: "json_lib \<Rightarrow> json \<Rightarrow> string" where
  "to_display L JNull = []"
| "to_display L (JStr s) = s"
| "to_display L (JBool b) = (if b then ''true'' else ''false'')"
| "to_display L v = json_to_string L v"

fun truthy :: "json \<Rightarrow> bool" where
  "truthy JNull = False"
| "truthy (JBool b) = b"
| "truthy (JNum n) = (\<not> f64_eq (as_f64 n) (Fin 0 0))"
| "truthy (JStr s) = (s \<noteq> [] \<and> s \<noteq> ''false'' \<and> s \<noteq> ''0'')"
| "truthy (JArr a) = (a \<noteq> [])"
| "truthy (JObj m) = (m \<noteq> [])"

fun loose_eq :: "json_lib \<Rightarrow> json \<Rightarrow> json \<Rightarrow> bool" where
  "loose_eq L JNull JNull = True"
| "loose_eq L (JBool x) (JBool y) = (x = y)"
| "loose_eq L (JNum x) (JNum y) = f64_eq (as_f64 x) (as_f64 y)"
| "loose_eq L (JStr x) (JStr y) = (x = y)"
| "loose_eq L JNull _ = False"
| "loose_eq L _ JNull = False"
| "loose_eq L a b = (to_display L a = to_display L b)"

fun as_number :: "json \<Rightarrow> f64 option" where
  "as_number (JNum n) = Some (as_f64 n)"
| "as_number (JStr s) = parse_f64 (trim s)"
| "as_number (JBool b) = Some (Fin (if b then 1 else 0) 0)"
| "as_number _ = None"

section \<open>Tokens\<close>

datatype tok =
    TIdent string | TStr string | TNum f64
  | TDot | TLParen | TRParen | TComma
  | TEqEq | TNotEq | TGt | TGe | TLt | TLe
  | TAnd | TOr | TNot

datatype expr_error =
    UnexpectedChar char
  | UnterminatedString
  | BadNumber string
  | UnclosedParen
  | TrailingDot string
  | Unexpected "tok option"
  | Trailing tok
  | UnknownFunction string

text \<open>The body of a string literal after its opening quote: the literal and what follows the
  closing quote. A doubled single quote inside a single-quoted literal is one quote.\<close>

function read_str :: "char \<Rightarrow> string \<Rightarrow> (string \<times> string) option" where
  "read_str q [] = None"
| "read_str q (c # cs) =
     (if c = q then
        (if q = CHR 0x27 \<and> cs \<noteq> [] \<and> hd cs = CHR 0x27
         then map_option (\<lambda>(l, r). (CHR 0x27 # l, r)) (read_str q (tl cs))
         else Some ([], cs))
      else map_option (\<lambda>(l, r). (c # l, r)) (read_str q cs))"
  by pat_completeness auto
termination
  by (relation "measure (\<lambda>(q, s). length s)") auto

text \<open>A number continues over a point only when a digit follows it.\<close>

fun num_span :: "string \<Rightarrow> string" where
  "num_span [] = []"
| "num_span (c # cs) =
     (if is_ascii_digit c then c # num_span cs
      else if c = CHR ''.'' \<and> cs \<noteq> [] \<and> is_ascii_digit (hd cs) then c # num_span cs
      else [])"

definition is_ident_char :: "char \<Rightarrow> bool" where
  "is_ident_char c \<longleftrightarrow> is_ascii_alphanumeric c \<or> c = CHR ''_'' \<or> c = CHR ''-'' \<or> c = CHR ''*''"

definition next_is :: "string \<Rightarrow> char \<Rightarrow> bool" where
  "next_is cs c \<longleftrightarrow> cs \<noteq> [] \<and> hd cs = c"

lemma read_str_length: "read_str q s = Some (l, r) \<Longrightarrow> length r < length s"
proof (induction q s arbitrary: l r rule: read_str.induct)
  case (2 q c cs)
  then show ?case by (fastforce split: if_splits)
qed simp

lemma num_span_pos: "is_ascii_digit c \<Longrightarrow> 0 < length (num_span (c # cs))"
  by simp

text \<open>One turn of the loop of \<^verbatim>\<open>tokenize\<close>: the token pushed, if any, and the rest of the input.\<close>

definition lex1 :: "char \<Rightarrow> string \<Rightarrow> (expr_error, tok option \<times> string) result" where
  "lex1 c cs =
     (if is_ascii_whitespace c then Ok (None, cs)
      else if c = CHR ''.'' then Ok (Some TDot, cs)
      else if c = CHR ''('' then Ok (Some TLParen, cs)
      else if c = CHR '')'' then Ok (Some TRParen, cs)
      else if c = CHR '','' then Ok (Some TComma, cs)
      else if c = CHR ''='' \<and> next_is cs (CHR ''='') then Ok (Some TEqEq, tl cs)
      else if c = CHR ''!'' \<and> next_is cs (CHR ''='') then Ok (Some TNotEq, tl cs)
      else if c = CHR ''!'' then Ok (Some TNot, cs)
      else if c = CHR ''>'' \<and> next_is cs (CHR ''='') then Ok (Some TGe, tl cs)
      else if c = CHR ''>'' then Ok (Some TGt, cs)
      else if c = CHR ''<'' \<and> next_is cs (CHR ''='') then Ok (Some TLe, tl cs)
      else if c = CHR ''<'' then Ok (Some TLt, cs)
      else if c = CHR ''&'' \<and> next_is cs (CHR ''&'') then Ok (Some TAnd, tl cs)
      else if c = CHR ''|'' \<and> next_is cs (CHR ''|'') then Ok (Some TOr, tl cs)
      else if c = CHR 0x27 \<or> c = CHR 0x22 then
        (case read_str c cs of
           None \<Rightarrow> Err UnterminatedString
         | Some (lit, rest) \<Rightarrow> Ok (Some (TStr lit), rest))
      else if is_ascii_digit c then
        (let text = num_span (c # cs) in
         (case parse_f64 text of
            None \<Rightarrow> Err (BadNumber text)
          | Some n \<Rightarrow> Ok (Some (TNum n), drop (length text) (c # cs))))
      else if is_ident_char c then
        Ok (Some (TIdent (c # takeWhile is_ident_char cs)), dropWhile is_ident_char cs)
      else Err (UnexpectedChar c))"

fun lex_bounded :: "nat \<Rightarrow> (expr_error, tok option \<times> string) result \<Rightarrow> bool" where
  "lex_bounded n (Ok (t, r)) = (length r \<le> n)"
| "lex_bounded n (Err e) = True"

lemma lex_bounded_if:
  "(P \<Longrightarrow> lex_bounded n a) \<Longrightarrow> (\<not> P \<Longrightarrow> lex_bounded n b) \<Longrightarrow> lex_bounded n (if P then a else b)"
  by simp

lemma lex1_bounded: "lex_bounded (length cs) (lex1 c cs)"
proof -
  have str: "lex_bounded (length cs) (case read_str c cs of None \<Rightarrow> Err UnterminatedString
      | Some (lit, rest) \<Rightarrow> Ok (Some (TStr lit), rest))"
    by (auto split: option.split dest: read_str_length)
  have num: "lex_bounded (length cs) (case parse_f64 (num_span (c # cs)) of
        None \<Rightarrow> Err (BadNumber (num_span (c # cs)))
      | Some n \<Rightarrow> Ok (Some (TNum n), drop (length (num_span (c # cs))) (c # cs)))"
    if "is_ascii_digit c" using that by (simp split: option.split)
  show ?thesis
    unfolding lex1_def Let_def
    by (intro lex_bounded_if str num) (simp_all add: length_dropWhile_le)
qed

lemma lex1_shorter: "lex1 c cs = Ok (t, r) \<Longrightarrow> length r \<le> length cs"
  using lex1_bounded [of cs c] by simp

function tokenize :: "string \<Rightarrow> (expr_error, tok list) result" where
  "tokenize [] = Ok []"
| "tokenize (c # cs) =
     and_then (lex1 c cs)
       (\<lambda>(t, r). and_then (tokenize r)
         (\<lambda>ts. Ok (case t of None \<Rightarrow> ts | Some x \<Rightarrow> x # ts)))"
  by pat_completeness auto
termination
  by (relation "measure length") (auto simp: le_imp_less_Suc dest: lex1_shorter)

section \<open>Functions\<close>

definition arg_str :: "json_lib \<Rightarrow> json list \<Rightarrow> nat \<Rightarrow> string" where
  "arg_str L args i = (if i < length args then to_display L (args ! i) else [])"

definition arg0 :: "json list \<Rightarrow> json" where
  "arg0 args = (case args of [] \<Rightarrow> JNull | a # _ \<Rightarrow> a)"

definition format_args :: "json_lib \<Rightarrow> string \<Rightarrow> json list \<Rightarrow> string" where
  "format_args L out args =
     foldl (\<lambda>out (i, a). replace_all (''{'' @ nat_str i @ ''}'') (to_display L a) out)
           out (enumerate 0 args)"

text \<open>\<^verbatim>\<open>changed('\<dots>')\<close>: true whenever the change set is not known.\<close>

definition call_changed :: "json_lib \<Rightarrow> expr_ctx \<Rightarrow> json list \<Rightarrow> bool" where
  "call_changed L ctx args =
     (if \<not> truthy (lookup ctx [''ci'', ''changes_known'']) then True
      else (case lookup ctx [''ci'', ''changed_files''] of
              JArr files \<Rightarrow>
                list_ex (\<lambda>pat. list_ex (\<lambda>f. path_matches (to_display L pat) (to_display L f)) files)
                  args
            | _ \<Rightarrow> True))"

definition call :: "json_lib \<Rightarrow> expr_ctx \<Rightarrow> string \<Rightarrow> json list \<Rightarrow> (expr_error, json) result" where
  "call L ctx name args =
     (let s = arg_str L args in
      if name = ''contains'' then
        Ok (JBool (case arg0 args of
                     JArr items \<Rightarrow>
                       list_ex (\<lambda>i. loose_eq L i (if 1 < length args then args ! 1 else JNull)) items
                   | _ \<Rightarrow> contains_sub (s 0) (s 1)))
      else if name = ''startsWith'' then Ok (JBool (prefix (s 1) (s 0)))
      else if name = ''endsWith'' then Ok (JBool (suffix (s 1) (s 0)))
      else if name = ''format'' then Ok (JStr (format_args L (s 0) (drop 1 args)))
      else if name = ''join'' then
        (let sep = (if 1 < length args then s 1 else '','')
         in Ok (JStr (case arg0 args of
                        JArr items \<Rightarrow> join sep (map (to_display L) items)
                      | _ \<Rightarrow> s 0)))
      else if name = ''toJSON'' then Ok (JStr (json_to_string L (arg0 args)))
      else if name = ''fromJSON'' then
        Ok (case json_from_str L (s 0) of None \<Rightarrow> JNull | Some v \<Rightarrow> v)
      else if name = ''changed'' then Ok (JBool (call_changed L ctx args))
      else if name = ''success'' then Ok (JBool (ctx_status ctx = ''success''))
      else if name = ''failure'' then Ok (JBool (ctx_status ctx = ''failure''))
      else if name = ''cancelled'' then Ok (JBool (ctx_status ctx = ''cancelled''))
      else if name = ''always'' then Ok (JBool True)
      else Err (UnknownFunction name))"

section \<open>The parser\<close>

type_synonym 'a presult = "(expr_error, 'a \<times> tok list) result"

text \<open>Sequencing under fuel: \<open>None\<close> is out of fuel.\<close>

fun pbind :: "'a presult option \<Rightarrow> ('a \<Rightarrow> tok list \<Rightarrow> 'b presult option) \<Rightarrow> 'b presult option" where
  "pbind None f = None"
| "pbind (Some (Err e)) f = Some (Err e)"
| "pbind (Some (Ok (a, ts))) f = f a ts"

definition eat :: "tok \<Rightarrow> tok list \<Rightarrow> tok list option" where
  "eat t ts = (case ts of [] \<Rightarrow> None | x # r \<Rightarrow> if x = t then Some r else None)"

definition is_cmp :: "tok \<Rightarrow> bool" where
  "is_cmp t \<longleftrightarrow> t \<in> {TEqEq, TNotEq, TGt, TGe, TLt, TLe}"

definition cmp_op :: "json_lib \<Rightarrow> tok \<Rightarrow> json \<Rightarrow> json \<Rightarrow> bool" where
  "cmp_op L op left right =
     (if op = TEqEq then loose_eq L left right
      else if op = TNotEq then \<not> loose_eq L left right
      else (case (as_number left, as_number right) of
              (Some a, Some b) \<Rightarrow>
                (if op = TGt then f64_less b a
                 else if op = TGe then f64_less b a \<or> f64_eq a b
                 else if op = TLt then f64_less a b
                 else f64_less a b \<or> f64_eq a b)
            | _ \<Rightarrow> False))"

text \<open>The postfix loop of \<^verbatim>\<open>parse_primary\<close>: the property segments after an atom.\<close>

definition seg_tok :: "json_lib \<Rightarrow> tok \<Rightarrow> string option" where
  "seg_tok L t =
     (case t of TIdent seg \<Rightarrow> Some seg | TNum n \<Rightarrow> Some (to_display L (number n)) | _ \<Rightarrow> None)"

fun postfix :: "json_lib \<Rightarrow> string list \<Rightarrow> tok list \<Rightarrow> string list presult" where
  "postfix L segs [] = Ok (segs, [])"
| "postfix L segs [t] =
     (if t = TDot then Err (TrailingDot (join ''.'' segs)) else Ok (segs, [t]))"
| "postfix L segs (t # s # ts) =
     (if t = TDot then
        (case seg_tok L s of
           Some seg \<Rightarrow> postfix L (segs @ [seg]) ts
         | None \<Rightarrow> Err (TrailingDot (join ''.'' segs)))
      else Ok (segs, t # s # ts))"

definition bare_name :: "expr_ctx \<Rightarrow> string \<Rightarrow> json" where
  "bare_name ctx name =
     (if name = ''true'' then JBool True
      else if name = ''false'' then JBool False
      else if name = ''null'' then JNull
      else lookup ctx [name])"

text \<open>
  The nested expression inside parentheses and arguments is parsed by \<open>rec\<close>. A loop goes on only
  while tokens are consumed; that it always does so is \<open>parse_expr_shorter\<close>.
\<close>

function parse_args ::
    "(tok list \<Rightarrow> json presult option) \<Rightarrow> json list \<Rightarrow> tok list \<Rightarrow> json list presult option" where
  "parse_args rec args ts =
     pbind (rec ts)
       (\<lambda>a r. (case eat TComma r of
                 Some r' \<Rightarrow>
                   (if length r' < length ts then parse_args rec (args @ [a]) r' else None)
               | None \<Rightarrow>
                   (case eat TRParen r of
                      Some r' \<Rightarrow> Some (Ok (args @ [a], r'))
                    | None \<Rightarrow> Some (Err UnclosedParen))))"
  by pat_completeness auto
termination
  by (relation "measure (\<lambda>(rec, args, ts). length ts)") auto

definition parse_atom ::
    "json_lib \<Rightarrow> expr_ctx \<Rightarrow> (tok list \<Rightarrow> json presult option) \<Rightarrow> tok list \<Rightarrow> json presult option" where
  "parse_atom L ctx rec ts =
     (case ts of
        [] \<Rightarrow> Some (Err (Unexpected None))
      | t # r \<Rightarrow>
          (case t of
             TLParen \<Rightarrow>
               pbind (rec r)
                 (\<lambda>v r'. Some (case eat TRParen r' of
                                None \<Rightarrow> Err UnclosedParen
                              | Some r'' \<Rightarrow> Ok (v, r'')))
           | TStr s \<Rightarrow> Some (Ok (JStr s, r))
           | TNum x \<Rightarrow> Some (Ok (number x, r))
           | TIdent name \<Rightarrow>
               (case eat TLParen r of
                  Some r' \<Rightarrow>
                    pbind (case eat TRParen r' of
                             Some r'' \<Rightarrow> Some (Ok ([], r''))
                           | None \<Rightarrow> parse_args rec [] r')
                      (\<lambda>args r''. Some (and_then (call L ctx name args) (\<lambda>v. Ok (v, r''))))
                | None \<Rightarrow> Some (Ok (bare_name ctx name, r)))
           | _ \<Rightarrow> Some (Err (Unexpected (Some t)))))"

definition parse_primary ::
    "json_lib \<Rightarrow> expr_ctx \<Rightarrow> (tok list \<Rightarrow> json presult option) \<Rightarrow> tok list \<Rightarrow> json presult option" where
  "parse_primary L ctx rec ts =
     pbind (parse_atom L ctx rec ts)
       (\<lambda>base r. Some (and_then (postfix L [] r) (\<lambda>(segs, r'). Ok (walk base segs, r'))))"

definition parse_cmp ::
    "json_lib \<Rightarrow> expr_ctx \<Rightarrow> (tok list \<Rightarrow> json presult option) \<Rightarrow> tok list \<Rightarrow> json presult option" where
  "parse_cmp L ctx rec ts =
     pbind (parse_primary L ctx rec ts)
       (\<lambda>left r.
          if r \<noteq> [] \<and> is_cmp (hd r) then
            pbind (parse_primary L ctx rec (tl r))
              (\<lambda>right r'. Some (Ok (JBool (cmp_op L (hd r) left right), r')))
          else Some (Ok (left, r)))"

fun parse_not ::
    "json_lib \<Rightarrow> expr_ctx \<Rightarrow> (tok list \<Rightarrow> json presult option) \<Rightarrow> tok list \<Rightarrow> json presult option" where
  "parse_not L ctx rec [] = parse_cmp L ctx rec []"
| "parse_not L ctx rec (t # ts) =
     (if t = TNot
      then pbind (parse_not L ctx rec ts) (\<lambda>v r. Some (Ok (JBool (\<not> truthy v), r)))
      else parse_cmp L ctx rec (t # ts))"

text \<open>The shape \<^verbatim>\<open>parse_and\<close> and \<^verbatim>\<open>parse_or\<close> share: an operand, then operator and operand
  as long as the operator follows.\<close>

function operator_loop ::
    "tok \<Rightarrow> (json \<Rightarrow> json \<Rightarrow> json) \<Rightarrow> (tok list \<Rightarrow> json presult option)
     \<Rightarrow> json \<Rightarrow> tok list \<Rightarrow> json presult option" where
  "operator_loop op f operand left ts =
     (case eat op ts of
        None \<Rightarrow> Some (Ok (left, ts))
      | Some r \<Rightarrow>
          pbind (operand r)
            (\<lambda>right r'.
               if length r' < length ts then operator_loop op f operand (f left right) r'
               else None))"
  by pat_completeness auto
termination
  by (relation "measure (\<lambda>(op, f, operand, left, ts). length ts)") auto

declare parse_args.simps [simp del] operator_loop.simps [simp del]

definition and_value :: "json \<Rightarrow> json \<Rightarrow> json" where
  "and_value left right = (if truthy left then right else left)"

definition or_value :: "json \<Rightarrow> json \<Rightarrow> json" where
  "or_value left right = (if truthy left then left else right)"

definition parse_and ::
    "json_lib \<Rightarrow> expr_ctx \<Rightarrow> (tok list \<Rightarrow> json presult option) \<Rightarrow> tok list \<Rightarrow> json presult option" where
  "parse_and L ctx rec ts =
     pbind (parse_not L ctx rec ts) (operator_loop TAnd and_value (parse_not L ctx rec))"

definition parse_or ::
    "json_lib \<Rightarrow> expr_ctx \<Rightarrow> (tok list \<Rightarrow> json presult option) \<Rightarrow> tok list \<Rightarrow> json presult option" where
  "parse_or L ctx rec ts =
     pbind (parse_and L ctx rec ts) (operator_loop TOr or_value (parse_and L ctx rec))"

text \<open>The knot: \<open>parse_expr n\<close> is \<^verbatim>\<open>parse_or\<close> with parentheses and calls nested at most \<open>n\<close> deep.\<close>

primrec parse_expr :: "json_lib \<Rightarrow> expr_ctx \<Rightarrow> nat \<Rightarrow> tok list \<Rightarrow> json presult option" where
  "parse_expr L ctx 0 ts = None"
| "parse_expr L ctx (Suc n) ts = parse_or L ctx (parse_expr L ctx n) ts"

definition eval_toks :: "json_lib \<Rightarrow> expr_ctx \<Rightarrow> tok list \<Rightarrow> (expr_error, json) result" where
  "eval_toks L ctx ts =
     and_then (the (parse_expr L ctx (Suc (length ts)) ts))
       (\<lambda>(v, r). (case r of [] \<Rightarrow> Ok v | t # _ \<Rightarrow> Err (Trailing t)))"

definition eval :: "json_lib \<Rightarrow> expr_ctx \<Rightarrow> string \<Rightarrow> (expr_error, json) result" where
  "eval L ctx expr = and_then (tokenize expr) (eval_toks L ctx)"

definition eval_condition :: "json_lib \<Rightarrow> expr_ctx \<Rightarrow> string \<Rightarrow> (expr_error, bool) result" where
  "eval_condition L ctx expr =
     (let e = trim expr in
      if e = [] then Ok True
      else
        (let e' = (case strip_prefix ''${{'' e of
                     Some rest \<Rightarrow> (case strip_suffix ''}}'' rest of Some r \<Rightarrow> r | None \<Rightarrow> rest)
                   | None \<Rightarrow> e)
         in and_then (eval L ctx e') (\<lambda>v. Ok (truthy v))))"

section \<open>Substitution\<close>

text \<open>\<^verbatim>\<open>find_close\<close>: the index of the first \<open>}}\<close> outside a string literal.\<close>

function find_close_from :: "char option \<Rightarrow> nat \<Rightarrow> string \<Rightarrow> nat option" where
  "find_close_from q i [] = None"
| "find_close_from q i (c # cs) =
     (case q of
        Some k \<Rightarrow>
          (if c = k then
             (if k = CHR 0x27 \<and> next_is cs (CHR 0x27)
              then find_close_from q (i + 2) (tl cs)
              else find_close_from None (i + 1) cs)
           else find_close_from q (i + 1) cs)
      | None \<Rightarrow>
          (if c = CHR 0x27 \<or> c = CHR 0x22 then find_close_from (Some c) (i + 1) cs
           else if c = CHR ''}'' \<and> next_is cs (CHR ''}'') then Some i
           else find_close_from None (i + 1) cs))"
  by pat_completeness auto
termination
  by (relation "measure (\<lambda>(q, i, s). length s)") auto

declare find_close_from.simps [simp del]

definition find_close :: "string \<Rightarrow> nat option" where
  "find_close body = find_close_from None 0 body"

function substitute_with :: "(string \<Rightarrow> string option) \<Rightarrow> string \<Rightarrow> string" where
  "substitute_with ev rest =
     (case find_sub ''${{'' rest of
        None \<Rightarrow> rest
      | Some start \<Rightarrow>
          (let body = drop (start + 3) rest in
           (case find_close body of
              None \<Rightarrow> take start rest @ drop start rest
            | Some n \<Rightarrow>
                take start rest
                @ (case ev (take n body) of
                     Some v \<Rightarrow> v
                   | None \<Rightarrow> take (3 + n + 2) (drop start rest))
                @ substitute_with ev (drop (n + 2) body))))"
  by pat_completeness auto
termination
proof (relation "measure (\<lambda>(ev, s). length s)", goal_cases)
  case (2 ev rest start body n)
  then have "rest \<noteq> []" by auto
  with 2 show ?case by simp
qed simp

declare substitute_with.simps [simp del]

definition substitute :: "json_lib \<Rightarrow> expr_ctx \<Rightarrow> string \<Rightarrow> string" where
  "substitute L ctx input =
     substitute_with
       (\<lambda>e. case eval L ctx e of Ok v \<Rightarrow> Some (to_display L v) | Err _ \<Rightarrow> None) input"

section \<open>The parser returns and consumes\<close>

definition shrinks :: "(tok list \<Rightarrow> 'a presult option) \<Rightarrow> bool" where
  "shrinks p \<longleftrightarrow> (\<forall>ts v r. p ts = Some (Ok (v, r)) \<longrightarrow> length r < length ts)"

definition returns_upto :: "nat \<Rightarrow> (tok list \<Rightarrow> 'a presult option) \<Rightarrow> bool" where
  "returns_upto n p \<longleftrightarrow> (\<forall>ts. length ts \<le> n \<longrightarrow> p ts \<noteq> None)"

lemma shrinksD: "shrinks p \<Longrightarrow> p ts = Some (Ok (v, r)) \<Longrightarrow> length r < length ts"
  by (simp add: shrinks_def)

lemma returns_uptoD: "returns_upto n p \<Longrightarrow> length ts \<le> n \<Longrightarrow> p ts \<noteq> None"
  by (simp add: returns_upto_def)

lemma pbind_Some_Ok:
  "pbind p f = Some (Ok (b, r)) \<longleftrightarrow> (\<exists>a r'. p = Some (Ok (a, r')) \<and> f a r' = Some (Ok (b, r)))"
  by (cases "(p, f)" rule: pbind.cases) auto

lemma pbind_None: "pbind p f = None \<longleftrightarrow> p = None \<or> (\<exists>a r. p = Some (Ok (a, r)) \<and> f a r = None)"
  by (cases "(p, f)" rule: pbind.cases) auto

lemma eat_Some: "eat t ts = Some r \<longleftrightarrow> ts = t # r"
  by (auto simp: eat_def split: list.splits if_splits)

lemma postfix_length: "postfix L segs ts = Ok (segs', r) \<Longrightarrow> length r \<le> length ts"
  by (induction L segs ts rule: postfix.induct) (force split: if_splits option.splits)+

lemma parse_args_shrinks:
  "shrinks rec \<Longrightarrow> parse_args rec args ts = Some (Ok (v, r)) \<Longrightarrow> length r < length ts"
proof (induction rec args ts rule: parse_args.induct)
  case (1 rec args ts)
  from "1.prems"(2) obtain a r1 where rec: "rec ts = Some (Ok (a, r1))"
    by (subst (asm) parse_args.simps) (auto simp: pbind_Some_Ok)
  from rec "1.prems"(1) have less: "length r1 < length ts" by (rule shrinksD [rotated])
  show ?case
  proof (cases "eat TComma r1")
    case None
    with rec less "1.prems"(2) show ?thesis
      by (subst (asm) parse_args.simps) (auto simp: eat_Some split: option.splits)
  next
    case (Some r2)
    with less have r2: "length r2 < length ts" by (simp add: eat_Some)
    with rec Some "1.prems"(2) have "parse_args rec (args @ [a]) r2 = Some (Ok (v, r))"
      by (subst (asm) parse_args.simps) auto
    from "1.IH" [OF Some r2 "1.prems"(1) this] r2 show ?thesis by simp
  qed
qed

lemma parse_args_returns:
  "shrinks rec \<Longrightarrow> returns_upto n rec \<Longrightarrow> length ts \<le> n \<Longrightarrow> parse_args rec args ts \<noteq> None"
proof (induction rec args ts rule: parse_args.induct)
  case (1 rec args ts)
  from "1.prems" have "rec ts \<noteq> None" by (blast dest: returns_uptoD)
  have step: "parse_args rec (args @ [a]) r2 \<noteq> None"
    if "rec ts = Some (Ok (a, r1))" "eat TComma r1 = Some r2" "length r2 < length ts" for a r1 r2
    using "1.IH" [OF that(2,3)] "1.prems" that(3) by simp
  have less: "length r2 < length ts"
    if "rec ts = Some (Ok (a, r1))" "eat TComma r1 = Some r2" for a r1 r2
    using shrinksD [OF "1.prems"(1) that(1)] that(2) by (simp add: eat_Some)
  show ?case
    using \<open>rec ts \<noteq> None\<close> step less
    by (subst parse_args.simps) (auto simp: pbind_None split: option.splits)
qed

lemma operator_loop_length:
  "shrinks operand \<Longrightarrow> operator_loop op f operand left ts = Some (Ok (v, r)) \<Longrightarrow> length r \<le> length ts"
proof (induction op f operand left ts rule: operator_loop.induct)
  case (1 op f operand left ts)
  show ?case
  proof (cases "eat op ts")
    case None
    with "1.prems"(2) show ?thesis by (subst (asm) operator_loop.simps) simp
  next
    case (Some r1)
    with "1.prems"(2) obtain a r2 where r2: "operand r1 = Some (Ok (a, r2))"
      and less: "length r2 < length ts"
      and loop: "operator_loop op f operand (f left a) r2 = Some (Ok (v, r))"
      by (subst (asm) operator_loop.simps) (auto simp: pbind_Some_Ok split: if_splits)
    from "1.IH" [OF Some less "1.prems"(1) loop] less show ?thesis by simp
  qed
qed

lemma operator_loop_returns:
  "shrinks operand \<Longrightarrow> returns_upto n operand \<Longrightarrow> length ts \<le> n
   \<Longrightarrow> operator_loop op f operand left ts \<noteq> None"
proof (induction op f operand left ts rule: operator_loop.induct)
  case (1 op f operand left ts)
  show ?case
  proof (cases "eat op ts")
    case None
    then show ?thesis by (subst operator_loop.simps) simp
  next
    case (Some r1)
    then have ts: "ts = op # r1" by (simp add: eat_Some)
    with "1.prems" have "operand r1 \<noteq> None" by (simp add: returns_upto_def)
    moreover have "length r2 < length ts \<and> operator_loop op f operand (f left a) r2 \<noteq> None"
      if "operand r1 = Some (Ok (a, r2))" for a r2
      using shrinksD [OF "1.prems"(1) that] "1.IH" [OF Some] "1.prems" ts by simp
    ultimately show ?thesis
      using Some by (subst operator_loop.simps) (auto simp: pbind_None)
  qed
qed

lemma parse_atom_shrinks: "shrinks rec \<Longrightarrow> shrinks (parse_atom L ctx rec)"
  unfolding shrinks_def parse_atom_def
  by (fastforce simp: pbind_Some_Ok eat_Some split: list.splits tok.splits option.splits
      dest: parse_args_shrinks [unfolded shrinks_def])

lemma parse_atom_returns:
  assumes "shrinks rec" "returns_upto n rec"
  shows "returns_upto (Suc n) (parse_atom L ctx rec)"
proof -
  have args: "length ts \<le> n \<Longrightarrow> parse_args rec [] ts \<noteq> None" for ts
    by (rule parse_args_returns [OF assms])
  have nested: "length ts \<le> n \<Longrightarrow> rec ts \<noteq> None" for ts
    by (rule returns_uptoD [OF assms(2)])
  have "parse_atom L ctx rec (t # r) \<noteq> None" if "length r \<le> n" for t r
    using args [of "tl r"] nested [of r] that
    by (cases t) (auto simp: parse_atom_def pbind_None eat_Some simp del: not_None_eq
        split: option.splits)
  then have "length ts \<le> Suc n \<Longrightarrow> parse_atom L ctx rec ts \<noteq> None" for ts
    by (cases ts) (auto simp: parse_atom_def)
  then show ?thesis by (simp add: returns_upto_def)
qed

lemma parse_primary_shrinks: "shrinks rec \<Longrightarrow> shrinks (parse_primary L ctx rec)"
  using parse_atom_shrinks [of rec L ctx]
  unfolding shrinks_def parse_primary_def
  by (fastforce simp: pbind_Some_Ok dest: postfix_length)

lemma parse_primary_returns:
  "shrinks rec \<Longrightarrow> returns_upto n rec \<Longrightarrow> returns_upto (Suc n) (parse_primary L ctx rec)"
  using parse_atom_returns [of rec n L ctx]
  by (auto simp: returns_upto_def parse_primary_def pbind_None)

lemma parse_cmp_shrinks:
  assumes "shrinks rec"
  shows "shrinks (parse_cmp L ctx rec)"
proof -
  note sh = shrinksD [OF parse_primary_shrinks [OF assms]]
  have "length r < length ts" if "parse_cmp L ctx rec ts = Some (Ok (v, r))" for ts v r
  proof -
    from that obtain l r1 where l: "parse_primary L ctx rec ts = Some (Ok (l, r1))"
      and r: "r = r1 \<or> (\<exists>x. parse_primary L ctx rec (tl r1) = Some (Ok (x, r)))"
      by (auto simp: parse_cmp_def pbind_Some_Ok split: if_splits)
    from r have "length r \<le> length r1" using sh by fastforce
    with sh [OF l] show ?thesis by simp
  qed
  then show ?thesis by (simp add: shrinks_def)
qed

lemma parse_cmp_returns:
  assumes "shrinks rec" "returns_upto n rec"
  shows "returns_upto (Suc n) (parse_cmp L ctx rec)"
  unfolding returns_upto_def
proof (intro allI impI)
  fix ts :: "tok list"
  assume len: "length ts \<le> Suc n"
  note ret = returns_uptoD [OF parse_primary_returns [OF assms]]
  have "parse_primary L ctx rec (tl r) \<noteq> None"
    if "parse_primary L ctx rec ts = Some (Ok (v, r))" for v r
    using shrinksD [OF parse_primary_shrinks [OF assms(1)] that] len by (intro ret) simp
  with ret [OF len] show "parse_cmp L ctx rec ts \<noteq> None"
    by (auto simp: parse_cmp_def pbind_None simp del: not_None_eq)
qed

lemma parse_not_shrinks: "shrinks rec \<Longrightarrow> shrinks (parse_not L ctx rec)"
proof -
  assume A: "shrinks rec"
  have "parse_not L ctx rec ts = Some (Ok (v, r)) \<Longrightarrow> length r < length ts" for ts v r
    using shrinksD [OF parse_cmp_shrinks [OF A]]
    by (induction ts arbitrary: v) (fastforce simp: pbind_Some_Ok split: if_splits)+
  then show ?thesis by (simp add: shrinks_def)
qed

lemma parse_not_returns:
  assumes "shrinks rec" "returns_upto n rec"
  shows "returns_upto (Suc n) (parse_not L ctx rec)"
proof -
  have "length ts \<le> Suc n \<Longrightarrow> parse_not L ctx rec ts \<noteq> None" for ts
    using returns_uptoD [OF parse_cmp_returns [OF assms]]
    by (induction ts) (auto simp: pbind_None simp del: not_None_eq)
  then show ?thesis by (simp add: returns_upto_def)
qed

lemma operator_parser_shrinks:
  "shrinks p \<Longrightarrow> shrinks (\<lambda>ts. pbind (p ts) (operator_loop op f p))"
  unfolding shrinks_def pbind_Some_Ok
  by (meson le_less_trans operator_loop_length shrinks_def)

lemma operator_parser_returns:
  assumes "shrinks p" "returns_upto n p"
  shows "returns_upto n (\<lambda>ts. pbind (p ts) (operator_loop op f p))"
proof -
  have "operator_loop op f p a r \<noteq> None" if "p ts = Some (Ok (a, r))" "length ts \<le> n" for ts a r
    using operator_loop_returns [OF assms] shrinksD [OF assms(1) that(1)] that(2) by simp
  with assms(2) show ?thesis
    by (auto simp: returns_upto_def pbind_None simp del: not_None_eq)
qed

lemmas operator_parser = operator_parser_shrinks operator_parser_returns

lemma parse_or_fun:
  "parse_or L ctx rec = (\<lambda>ts. pbind (parse_and L ctx rec ts)
     (operator_loop TOr or_value (parse_and L ctx rec)))"
  by (simp add: fun_eq_iff parse_or_def)

lemma parse_and_fun:
  "parse_and L ctx rec = (\<lambda>ts. pbind (parse_not L ctx rec ts)
     (operator_loop TAnd and_value (parse_not L ctx rec)))"
  by (simp add: fun_eq_iff parse_and_def)

lemma parse_or_shrinks: "shrinks rec \<Longrightarrow> shrinks (parse_or L ctx rec)"
  unfolding parse_or_fun parse_and_fun by (intro operator_parser parse_not_shrinks)

lemma parse_or_returns:
  "shrinks rec \<Longrightarrow> returns_upto n rec \<Longrightarrow> returns_upto (Suc n) (parse_or L ctx rec)"
  unfolding parse_or_fun parse_and_fun
  by (intro operator_parser parse_not_shrinks parse_not_returns)

lemma parse_expr_shorter: "shrinks (parse_expr L ctx n)"
proof (induction n)
  case (Suc n)
  then show ?case using parse_or_shrinks unfolding shrinks_def parse_expr.simps(2) by blast
qed (simp add: shrinks_def)

lemma parse_expr_returns: "length ts < n \<Longrightarrow> parse_expr L ctx n ts \<noteq> None"
proof -
  have "returns_upto n (parse_expr L ctx (Suc n))" for n
  proof (induction n)
    case 0
    then show ?case
      by (simp add: returns_upto_def parse_or_def parse_and_def parse_cmp_def parse_primary_def
          parse_atom_def)
  next
    case (Suc n)
    from parse_or_returns [OF parse_expr_shorter this] show ?case
      unfolding returns_upto_def parse_expr.simps(2) by blast
  qed
  then show "length ts < n \<Longrightarrow> ?thesis"
    by (cases n) (auto simp: returns_upto_def simp del: parse_expr.simps)
qed

section \<open>Abstract syntax\<close>

datatype ast =
    AOr ast ast | AAnd ast ast | ANot ast | ACmp tok ast ast
  | AProp ast "string list"
  | AStr string | ANum f64 | AName string | ACall string "ast list"

fun ast_val :: "json_lib \<Rightarrow> expr_ctx \<Rightarrow> ast \<Rightarrow> (expr_error, json) result" where
  "ast_val L ctx (AOr a b) =
     and_then (ast_val L ctx a) (\<lambda>x. and_then (ast_val L ctx b) (\<lambda>y. Ok (or_value x y)))"
| "ast_val L ctx (AAnd a b) =
     and_then (ast_val L ctx a) (\<lambda>x. and_then (ast_val L ctx b) (\<lambda>y. Ok (and_value x y)))"
| "ast_val L ctx (ANot a) = and_then (ast_val L ctx a) (\<lambda>x. Ok (JBool (\<not> truthy x)))"
| "ast_val L ctx (ACmp op a b) =
     and_then (ast_val L ctx a)
       (\<lambda>x. and_then (ast_val L ctx b) (\<lambda>y. Ok (JBool (cmp_op L op x y))))"
| "ast_val L ctx (AProp a segs) = and_then (ast_val L ctx a) (\<lambda>x. Ok (walk x segs))"
| "ast_val L ctx (AStr s) = Ok (JStr s)"
| "ast_val L ctx (ANum n) = Ok (number n)"
| "ast_val L ctx (AName x) = Ok (bare_name ctx x)"
| "ast_val L ctx (ACall f args) = and_then (map_result (ast_val L ctx) args) (call L ctx f)"

fun ast_level :: "ast \<Rightarrow> nat" where
  "ast_level (AOr _ _) = 0"
| "ast_level (AAnd _ _) = 1"
| "ast_level (ANot _) = 2"
| "ast_level (ACmp _ _ _) = 3"
| "ast_level (AProp _ _) = 4"
| "ast_level _ = 5"

definition wrap :: "nat \<Rightarrow> nat \<Rightarrow> tok list \<Rightarrow> tok list" where
  "wrap p l ts = (if l < p then TLParen # ts @ [TRParen] else ts)"

fun sep_toks :: "tok list list \<Rightarrow> tok list" where
  "sep_toks [] = []"
| "sep_toks [w] = w"
| "sep_toks (w # ws) = w @ TComma # sep_toks ws"

fun ast_toks :: "nat \<Rightarrow> ast \<Rightarrow> tok list" where
  "ast_toks p (AOr a b) = wrap p 0 (ast_toks 0 a @ TOr # ast_toks 1 b)"
| "ast_toks p (AAnd a b) = wrap p 1 (ast_toks 1 a @ TAnd # ast_toks 2 b)"
| "ast_toks p (ANot a) = wrap p 2 (TNot # ast_toks 2 a)"
| "ast_toks p (ACmp op a b) = wrap p 3 (ast_toks 4 a @ op # ast_toks 4 b)"
| "ast_toks p (AProp a segs) =
     wrap p 4 (ast_toks 5 a @ concat (map (\<lambda>s. [TDot, TIdent s]) segs))"
| "ast_toks p (AStr s) = [TStr s]"
| "ast_toks p (ANum n) = [TNum n]"
| "ast_toks p (AName x) = [TIdent x]"
| "ast_toks p (ACall f args) = TIdent f # TLParen # sep_toks (map (ast_toks 0) args) @ [TRParen]"

fun ast_wf :: "ast \<Rightarrow> bool" where
  "ast_wf (AOr a b) = (ast_wf a \<and> ast_wf b)"
| "ast_wf (AAnd a b) = (ast_wf a \<and> ast_wf b)"
| "ast_wf (ANot a) = ast_wf a"
| "ast_wf (ACmp op a b) = (is_cmp op \<and> ast_wf a \<and> ast_wf b)"
| "ast_wf (AProp a segs) = ast_wf a"
| "ast_wf (ACall f args) = list_all ast_wf args"
| "ast_wf _ = True"

text \<open>What may follow an expression printed at a level.\<close>

definition stop :: "nat \<Rightarrow> tok list \<Rightarrow> bool" where
  "stop p ts \<longleftrightarrow> (case ts of [] \<Rightarrow> True | t # _ \<Rightarrow>
     t \<noteq> TLParen \<and> (p \<le> 4 \<longrightarrow> t \<noteq> TDot) \<and> (p \<le> 3 \<longrightarrow> \<not> is_cmp t)
     \<and> (p \<le> 1 \<longrightarrow> t \<noteq> TAnd) \<and> (p \<le> 0 \<longrightarrow> t \<noteq> TOr))"

definition yields :: "('e, 'a) result \<Rightarrow> 'b \<Rightarrow> ('e, 'a \<times> 'b) result option" where
  "yields r ts = Some (and_then r (\<lambda>v. Ok (v, ts)))"

lemma pbind_yields: "pbind (yields r ts) f = (case r of Err e \<Rightarrow> Some (Err e) | Ok v \<Rightarrow> f v ts)"
  by (cases r) (simp_all add: yields_def)

lemma yields_Ok: "yields (Ok v) ts = Some (Ok (v, ts))"
  by (simp add: yields_def)

lemma stop_mono: "stop p ts \<Longrightarrow> p \<le> q \<Longrightarrow> stop q ts"
  by (auto simp: stop_def split: list.splits)

lemma stop_hd [simp]:
  "stop (Suc 0) (TOr # r)" "stop 2 (TAnd # r)" "stop p (TRParen # r)" "stop p (TComma # r)"
  "is_cmp op \<Longrightarrow> stop 4 (op # r)" "stop 5 (TDot # r)" "stop p []"
  by (auto simp: stop_def is_cmp_def)

lemma eat_stop: "stop 0 ts \<Longrightarrow> eat TOr ts = None" "stop (Suc 0) ts \<Longrightarrow> eat TAnd ts = None"
   "stop p ts \<Longrightarrow> eat TLParen ts = None"
  by (auto simp: stop_def eat_def split: list.splits)

lemma postfix_stop: "stop 4 ts \<Longrightarrow> postfix L segs ts = Ok (segs, ts)"
  by (cases "(L, segs, ts)" rule: postfix.cases) (auto simp: stop_def)

lemma postfix_segs:
  "stop 4 ts \<Longrightarrow> postfix L acc (concat (map (\<lambda>s. [TDot, TIdent s]) segs) @ ts) = Ok (acc @ segs, ts)"
  by (induction segs arbitrary: acc) (auto simp: postfix_stop seg_tok_def)

definition level_parser ::
  "json_lib \<Rightarrow> expr_ctx \<Rightarrow> (tok list \<Rightarrow> json presult option) \<Rightarrow> nat \<Rightarrow> tok list \<Rightarrow> json presult option" where
  "level_parser L ctx rec p =
     (if p = 0 then parse_or L ctx rec
      else if p = 1 then parse_and L ctx rec
      else if p = 2 then parse_not L ctx rec
      else if p = 3 then parse_cmp L ctx rec
      else if p = 4 then parse_primary L ctx rec
      else parse_atom L ctx rec)"

definition level_rest ::
  "json_lib \<Rightarrow> expr_ctx \<Rightarrow> (tok list \<Rightarrow> json presult option) \<Rightarrow> nat
   \<Rightarrow> json \<Rightarrow> tok list \<Rightarrow> json presult option" where
  "level_rest L ctx rec p =
     (if p = 0 then operator_loop TOr or_value (parse_and L ctx rec)
      else if p = 1 then operator_loop TAnd and_value (parse_not L ctx rec)
      else (\<lambda>v ts. Some (Ok (v, ts))))"

definition parses ::
  "json_lib \<Rightarrow> expr_ctx \<Rightarrow> nat \<Rightarrow> tok list \<Rightarrow> (expr_error, json) result \<Rightarrow> bool" where
  "parses L ctx p ts v \<longleftrightarrow>
     (\<forall>n rest. length (ts @ rest) \<le> n \<longrightarrow> stop (if p < 2 then Suc p else p) rest \<longrightarrow>
        level_parser L ctx (parse_expr L ctx n) p (ts @ rest) =
        pbind (yields v rest) (level_rest L ctx (parse_expr L ctx n) p))"

lemma pbind_Ok [simp]: "pbind x (\<lambda>v ts. Some (Ok (v, ts))) = x"
proof (cases x)
  case (Some r)
  then show ?thesis by (cases r) auto
qed simp

lemmas level_simps = parses_def level_parser_def level_rest_def

lemma operator_loop_stop: "eat op ts = None \<Longrightarrow> operator_loop op f q v ts = Some (Ok (v, ts))"
  by (subst operator_loop.simps) simp

lemma operator_loop_eat:
  "operator_loop op f q v (op # r) =
     pbind (q r) (\<lambda>w r'. if length r' \<le> length r then operator_loop op f q (f v w) r' else None)"
  by (subst operator_loop.simps) (simp add: eat_def less_Suc_eq_le)

lemma and_then_right: "and_then r Ok = r"
  by (cases r) auto

lemma parses_5:
  "parses L ctx 5 ts v \<longleftrightarrow> (\<forall>n rest. length (ts @ rest) \<le> n \<longrightarrow> stop 5 rest \<longrightarrow>
     parse_atom L ctx (parse_expr L ctx n) (ts @ rest) = yields v rest)"
  by (simp add: level_simps)

lemma parses_4:
  "parses L ctx 4 ts v \<longleftrightarrow> (\<forall>n rest. length (ts @ rest) \<le> n \<longrightarrow> stop 4 rest \<longrightarrow>
     parse_primary L ctx (parse_expr L ctx n) (ts @ rest) = yields v rest)"
  by (simp add: level_simps)

lemma parses_3:
  "parses L ctx 3 ts v \<longleftrightarrow> (\<forall>n rest. length (ts @ rest) \<le> n \<longrightarrow> stop 3 rest \<longrightarrow>
     parse_cmp L ctx (parse_expr L ctx n) (ts @ rest) = yields v rest)"
  by (simp add: level_simps)

lemma parses_2:
  "parses L ctx 2 ts v \<longleftrightarrow> (\<forall>n rest. length (ts @ rest) \<le> n \<longrightarrow> stop 2 rest \<longrightarrow>
     parse_not L ctx (parse_expr L ctx n) (ts @ rest) = yields v rest)"
  by (simp add: level_simps)

lemma parses_1:
  "parses L ctx (Suc 0) ts v \<longleftrightarrow> (\<forall>n rest. length (ts @ rest) \<le> n \<longrightarrow> stop 2 rest \<longrightarrow>
     parse_and L ctx (parse_expr L ctx n) (ts @ rest) =
     pbind (yields v rest) (operator_loop TAnd and_value (parse_not L ctx (parse_expr L ctx n))))"
  by (simp add: level_simps numeral_2_eq_2)

lemma parses_0:
  "parses L ctx 0 ts v \<longleftrightarrow> (\<forall>n rest. length (ts @ rest) \<le> n \<longrightarrow> stop 1 rest \<longrightarrow>
     parse_or L ctx (parse_expr L ctx n) (ts @ rest) =
     pbind (yields v rest) (operator_loop TOr or_value (parse_and L ctx (parse_expr L ctx n))))"
  by (simp add: level_simps)

lemma parses_1_stop:
  assumes "parses L ctx (Suc 0) ts v" "length (ts @ rest) \<le> n" "stop 1 rest"
  shows "parse_and L ctx (parse_expr L ctx n) (ts @ rest) = yields v rest"
  using assms stop_mono [of 1 rest 2]
  by (cases v) (simp_all add: parses_1 pbind_yields operator_loop_stop eat_stop yields_def)

lemma parses_0_stop:
  assumes "parses L ctx 0 ts v" "length (ts @ rest) < n" "stop 0 rest"
  shows "parse_expr L ctx n (ts @ rest) = yields v rest"
  using assms stop_mono [of 0 rest 1]
  by (cases n; cases v) (simp_all add: parses_0 pbind_yields operator_loop_stop eat_stop yields_def)

lemma parses_54: "parses L ctx 5 ts v \<Longrightarrow> parses L ctx 4 ts v"
  using stop_mono [of 4 _ 5]
  by (cases v) (auto simp: parses_5 parses_4 parse_primary_def postfix_stop yields_def walk_def)

lemma parses_43: "parses L ctx 4 ts v \<Longrightarrow> parses L ctx 3 ts v"
  using stop_mono [of 3 _ 4]
  by (cases v) (auto simp: parses_4 parses_3 parse_cmp_def yields_def stop_def split: list.splits)

lemma parses_32: "parses L ctx 3 ts v \<Longrightarrow> ts \<noteq> [] \<Longrightarrow> hd ts \<noteq> TNot \<Longrightarrow> parses L ctx 2 ts v"
  using stop_mono [of 2 _ 3]
  by (cases ts) (auto simp: parses_3 parses_2)

lemma parses_21: "parses L ctx 2 ts v \<Longrightarrow> parses L ctx (Suc 0) ts v"
  by (simp add: parses_2 parses_1 parse_and_def)

lemma parses_10: "parses L ctx (Suc 0) ts v \<Longrightarrow> parses L ctx 0 ts v"
  unfolding parses_0 parse_or_def by (simp add: parses_1_stop)

lemma parses_lower:
  assumes "parses L ctx q ts v" "p \<le> q" "q \<le> 5" "3 \<le> q \<longrightarrow> ts \<noteq> [] \<and> hd ts \<noteq> TNot"
  shows "parses L ctx p ts v"
  using assms(2,1)
proof (induction rule: inc_induct)
  case (step n)
  with assms(3) have "n = 0 \<or> n = 1 \<or> n = 2 \<or> n = 3 \<or> n = 4" by auto
  with step assms(4) show ?case
    by (auto intro: parses_10 parses_21 parses_21 [unfolded numeral_2_eq_2]
        parses_32 parses_43 parses_54)
qed

lemma parses_paren:
  assumes "parses L ctx 0 ts v"
  shows "parses L ctx 5 (TLParen # ts @ [TRParen]) v"
  unfolding parses_5
proof (intro allI impI)
  fix n rest
  assume "length ((TLParen # ts @ [TRParen]) @ rest) \<le> n"
  then have "parse_expr L ctx n (ts @ TRParen # rest) = yields v (TRParen # rest)"
    by (intro parses_0_stop [OF assms]) auto
  then show "parse_atom L ctx (parse_expr L ctx n) ((TLParen # ts @ [TRParen]) @ rest) = yields v rest"
    by (cases v) (simp_all add: parse_atom_def eat_def yields_def)
qed

lemma parses_wrap:
  assumes "parses L ctx l ts v" "p \<le> 5" "l \<le> 5" "3 \<le> l \<longrightarrow> ts \<noteq> [] \<and> hd ts \<noteq> TNot"
  shows "parses L ctx p (wrap p l ts) v"
proof (cases "l < p")
  case True
  have "parses L ctx 5 (TLParen # ts @ [TRParen]) v"
    by (intro parses_paren parses_lower [OF assms(1)]) (use assms in auto)
  then show ?thesis
    using True assms(2) by (auto simp: wrap_def intro: parses_lower)
next
  case False
  then show ?thesis
    using assms by (auto simp: wrap_def intro: parses_lower [OF assms(1)])
qed

lemma hd_ast_toks: "3 \<le> p \<Longrightarrow> ast_toks p a \<noteq> [] \<and> hd (ast_toks p a) \<noteq> TNot"
proof (induction a arbitrary: p)
  case (ACmp op a b)
  from ACmp.IH(1) [of 4] show ?case by (simp add: wrap_def hd_append)
next
  case (AProp a segs)
  from AProp.IH [of 5] show ?case by (simp add: wrap_def hd_append)
qed (auto simp: wrap_def)

lemma parses_or:
  assumes a: "parses L ctx 0 ta va" and b: "parses L ctx (Suc 0) tb vb"
  shows "parses L ctx 0 (ta @ TOr # tb)
    (and_then va (\<lambda>x. and_then vb (\<lambda>y. Ok (or_value x y))))"
  unfolding parses_0
proof (intro allI impI)
  fix n rest
  assume len: "length ((ta @ TOr # tb) @ rest) \<le> n" and st: "stop 1 rest"
  let ?A = "parse_and L ctx (parse_expr L ctx n)"
  from a len have "parse_or L ctx (parse_expr L ctx n) (ta @ TOr # tb @ rest) =
      pbind (yields va (TOr # tb @ rest)) (operator_loop TOr or_value ?A)"
    by (simp add: parses_0)
  moreover from len st have "?A (tb @ rest) = yields vb rest"
    by (intro parses_1_stop [OF b]) auto
  ultimately show "parse_or L ctx (parse_expr L ctx n) ((ta @ TOr # tb) @ rest) =
      pbind (yields (and_then va (\<lambda>x. and_then vb (\<lambda>y. Ok (or_value x y)))) rest)
        (operator_loop TOr or_value ?A)"
    by (cases va; cases vb) (simp_all add: yields_def operator_loop_eat)
qed

lemma parses_and:
  assumes a: "parses L ctx (Suc 0) ta va" and b: "parses L ctx 2 tb vb"
  shows "parses L ctx (Suc 0) (ta @ TAnd # tb)
    (and_then va (\<lambda>x. and_then vb (\<lambda>y. Ok (and_value x y))))"
  unfolding parses_1
proof (intro allI impI)
  fix n rest
  assume len: "length ((ta @ TAnd # tb) @ rest) \<le> n" and st: "stop 2 rest"
  let ?A = "parse_not L ctx (parse_expr L ctx n)"
  from a len have "parse_and L ctx (parse_expr L ctx n) (ta @ TAnd # tb @ rest) =
      pbind (yields va (TAnd # tb @ rest)) (operator_loop TAnd and_value ?A)"
    by (simp add: parses_1)
  moreover from len st b have "?A (tb @ rest) = yields vb rest"
    by (simp add: parses_2)
  ultimately show "parse_and L ctx (parse_expr L ctx n) ((ta @ TAnd # tb) @ rest) =
      pbind (yields (and_then va (\<lambda>x. and_then vb (\<lambda>y. Ok (and_value x y)))) rest)
        (operator_loop TAnd and_value ?A)"
    by (cases va; cases vb) (simp_all add: yields_def operator_loop_eat)
qed

lemma parses_not: "parses L ctx 2 ts v \<Longrightarrow>
    parses L ctx 2 (TNot # ts) (and_then v (\<lambda>x. Ok (JBool (\<not> truthy x))))"
  by (cases v) (simp_all add: parses_2 yields_def)

lemma parses_cmp:
  assumes "parses L ctx 4 ta va" "parses L ctx 4 tb vb" "is_cmp op"
  shows "parses L ctx 3 (ta @ op # tb)
    (and_then va (\<lambda>x. and_then vb (\<lambda>y. Ok (JBool (cmp_op L op x y)))))"
  using assms stop_mono [of 3 _ 4]
  by (cases va; cases vb) (auto simp: parses_3 parses_4 yields_def parse_cmp_def)

lemma parses_prop:
  assumes "parses L ctx 5 ts v"
  shows "parses L ctx 4 (ts @ concat (map (\<lambda>s. [TDot, TIdent s]) segs))
    (and_then v (\<lambda>x. Ok (walk x segs)))"
  unfolding parses_4
proof (intro allI impI)
  fix n rest
  let ?s = "concat (map (\<lambda>s. [TDot, TIdent s]) segs)"
  assume len: "length ((ts @ ?s) @ rest) \<le> n" and st: "stop 4 rest"
  then have "stop 5 (?s @ rest)"
    by (cases segs) (auto intro: stop_mono)
  with assms len have "parse_atom L ctx (parse_expr L ctx n) (ts @ ?s @ rest) = yields v (?s @ rest)"
    by (simp add: parses_5)
  with st show "parse_primary L ctx (parse_expr L ctx n) ((ts @ ?s) @ rest) =
      yields (and_then v (\<lambda>x. Ok (walk x segs))) rest"
    by (cases v) (simp_all add: yields_def parse_primary_def postfix_segs)
qed

lemma parse_args_parses:
  assumes "list_all2 (parses L ctx 0) tss vs" "tss \<noteq> []"
    "length (sep_toks tss @ TRParen # rest) < n"
  shows "parse_args (parse_expr L ctx n) acc (sep_toks tss @ TRParen # rest) =
    yields (and_then (map_result (\<lambda>r. r) vs) (\<lambda>xs. Ok (acc @ xs))) rest"
  using assms
proof (induction tss vs arbitrary: acc rule: list_all2_induct)
  case (Cons ts tss v vs)
  show ?case
  proof (cases "tss = []")
    case True
    with Cons have "parse_expr L ctx n (ts @ TRParen # rest) = yields v (TRParen # rest)"
      by (intro parses_0_stop) auto
    with True Cons.hyps show ?thesis
      by (subst parse_args.simps) (cases v; simp add: yields_def eat_def)
  next
    case False
    then have sep: "sep_toks (ts # tss) = ts @ TComma # sep_toks tss" by (cases tss) auto
    with Cons have "parse_expr L ctx n (ts @ TComma # sep_toks tss @ TRParen # rest) =
        yields v (TComma # sep_toks tss @ TRParen # rest)"
      by (intro parses_0_stop) auto
    moreover have "parse_args (parse_expr L ctx n) acc' (sep_toks tss @ TRParen # rest) =
        yields (and_then (map_result (\<lambda>r. r) vs) (\<lambda>xs. Ok (acc' @ xs))) rest" for acc'
      using Cons.IH False Cons.prems sep by simp
    ultimately show ?thesis
      unfolding sep
      by (subst parse_args.simps)
         (cases v; cases "map_result (\<lambda>r. r) vs"; simp add: yields_def eat_def)
  qed
qed simp

lemma map_result_map: "map_result f (map g xs) = map_result (\<lambda>x. f (g x)) xs"
  by (induction xs) auto

lemma sep_toks_hd:
  "tss \<noteq> [] \<Longrightarrow> hd tss \<noteq> [] \<Longrightarrow> sep_toks tss \<noteq> [] \<and> hd (sep_toks tss) = hd (hd tss)"
  by (induction tss rule: sep_toks.induct) auto

lemma ast_toks_not_rparen: "ast_toks p a \<noteq> [] \<and> hd (ast_toks p a) \<noteq> TRParen"
proof (induction a arbitrary: p)
  case (AOr a b)
  from AOr.IH(1) [of 0] show ?case by (simp add: wrap_def hd_append)
next
  case (AAnd a b)
  from AAnd.IH(1) [of 1] show ?case by (simp add: wrap_def hd_append)
next
  case (ACmp op a b)
  from ACmp.IH(1) [of 4] show ?case by (simp add: wrap_def hd_append)
next
  case (AProp a segs)
  from AProp.IH [of 5] show ?case by (simp add: wrap_def hd_append)
qed (auto simp: wrap_def)

lemma parses_call:
  assumes args: "list_all2 (parses L ctx 0) tss vs"
    and hd: "\<forall>ts\<in>set tss. ts \<noteq> [] \<and> hd ts \<noteq> TRParen"
  shows "parses L ctx 5 (TIdent f # TLParen # sep_toks tss @ [TRParen])
    (and_then (map_result (\<lambda>r. r) vs) (call L ctx f))"
  unfolding parses_5
proof (intro allI impI)
  fix n rest
  let ?in = "sep_toks tss @ TRParen # rest"
  assume len: "length ((TIdent f # TLParen # sep_toks tss @ [TRParen]) @ rest) \<le> n"
  have "(case eat TRParen ?in of Some r'' \<Rightarrow> Some (Ok ([], r''))
         | None \<Rightarrow> parse_args (parse_expr L ctx n) [] ?in) = yields (map_result (\<lambda>r. r) vs) rest"
  proof (cases "tss = []")
    case True
    with args show ?thesis by (simp add: eat_def yields_def)
  next
    case False
    with hd have "hd ?in \<noteq> TRParen" "?in \<noteq> []"
      using sep_toks_hd [of tss] by (auto simp: hd_append)
    then have "eat TRParen ?in = None" by (cases ?in) (auto simp: eat_def)
    with parse_args_parses [OF args False, of rest n "[]"] len show ?thesis
      by (simp add: and_then_right)
  qed
  then show "parse_atom L ctx (parse_expr L ctx n)
      ((TIdent f # TLParen # sep_toks tss @ [TRParen]) @ rest) =
      yields (and_then (map_result (\<lambda>r. r) vs) (call L ctx f)) rest"
    by (cases "map_result (\<lambda>r. r) vs") (simp_all add: parse_atom_def eat_def yields_def)
qed

lemma parses_atoms:
  "parses L ctx 5 [TStr s] (Ok (JStr s))" "parses L ctx 5 [TNum x] (Ok (number x))"
  "parses L ctx 5 [TIdent y] (Ok (bare_name ctx y))"
  by (simp_all add: parses_5 parse_atom_def yields_def eat_stop)

lemma ast_parses: "ast_wf a \<Longrightarrow> p \<le> 5 \<Longrightarrow> parses L ctx p (ast_toks p a) (ast_val L ctx a)"
proof (induction a arbitrary: p)
  case (AOr a b)
  then show ?case by (auto intro!: parses_wrap parses_or)
next
  case (AAnd a b)
  then show ?case by (auto intro!: parses_wrap parses_and)
next
  case (ANot a)
  then show ?case by (auto intro!: parses_wrap parses_not)
next
  case (ACmp op a b)
  with hd_ast_toks [of 4 a] show ?case by (auto intro!: parses_wrap parses_cmp simp: hd_append)
next
  case (AProp a segs)
  with hd_ast_toks [of 5 a] show ?case by (auto intro!: parses_wrap parses_prop simp: hd_append)
next
  case (ACall f args)
  then have "list_all2 (parses L ctx 0) (map (ast_toks 0) args) (map (ast_val L ctx) args)"
    by (auto simp: list_all2_conv_all_nth list_all_iff)
  then have "parses L ctx 5 (ast_toks p (ACall f args)) (ast_val L ctx (ACall f args))"
    using parses_call [of L ctx "map (ast_toks 0) args" "map (ast_val L ctx) args" f]
    by (simp add: ast_toks_not_rparen map_result_map)
  then show ?case
    by (rule parses_lower) (use ACall.prems in auto)
qed (auto intro: parses_lower [OF parses_atoms(1)] parses_lower [OF parses_atoms(2)]
    parses_lower [OF parses_atoms(3)])

section \<open>Closing braces\<close>

text \<open>Where an expression closes: the first \<open>}}\<close> at which no string literal is open.\<close>

definition quote_step :: "char option \<Rightarrow> char \<Rightarrow> char option" where
  "quote_step q c =
     (case q of
        None \<Rightarrow> if c = CHR 0x27 \<or> c = CHR 0x22 then Some c else None
      | Some k \<Rightarrow> if c = k then None else Some k)"

definition closes :: "char option \<Rightarrow> string \<Rightarrow> nat \<Rightarrow> bool" where
  "closes q body i \<longleftrightarrow> foldl quote_step q (take i body) = None \<and> prefix ''}}'' (drop i body)"

fun first_close :: "char option \<Rightarrow> string \<Rightarrow> nat option" where
  "first_close q [] = None"
| "first_close q (c # cs) =
     (if q = None \<and> prefix ''}}'' (c # cs) then Some 0
      else map_option Suc (first_close (quote_step q c) cs))"

lemma next_is_iff: "next_is cs c \<longleftrightarrow> (\<exists>r. cs = c # r)"
  by (cases cs) (auto simp: next_is_def)

lemma prefix_single: "prefix [c] cs \<longleftrightarrow> next_is cs c"
  by (cases cs) (auto simp: next_is_def)

lemma find_close_from_first:
  "find_close_from q i s = map_option (\<lambda>k. i + k) (first_close q s)"
proof (induction q i s rule: find_close_from.induct)
  case (2 q i c cs)
  show ?case
  proof (cases q)
    case None
    with 2 show ?thesis
      by (auto simp: find_close_from.simps(2) quote_step_def next_is_iff prefix_single option.map_comp comp_def)
  next
    case (Some k)
    with 2 show ?thesis
      by (auto simp: find_close_from.simps(2) quote_step_def next_is_iff prefix_single option.map_comp comp_def)
  qed
qed (simp add: find_close_from.simps)

lemma first_close_Some:
  "first_close q s = Some i \<longleftrightarrow> closes q s i \<and> (\<forall>j<i. \<not> closes q s j)"
proof (induction s arbitrary: q i)
  case Nil
  then show ?case by (simp add: closes_def)
next
  case (Cons c cs)
  have z: "closes q (c # cs) 0 \<longleftrightarrow> q = None \<and> prefix ''}}'' (c # cs)" by (simp add: closes_def)
  have s: "closes q (c # cs) (Suc k) \<longleftrightarrow> closes (quote_step q c) cs k" for k
    by (simp add: closes_def)
  show ?case
    using Cons.IH [of "quote_step q c"]
    by (cases i) (auto simp: z s All_less_Suc2 simp del: prefix_code)
qed

section \<open>Properties\<close>

text \<open>
  C39. The parser never gets stuck and always makes progress: with one level of nesting per token
  it returns a value or an error on every token list, and a value comes with strictly fewer
  tokens left.
\<close>

theorem parser_total:
  "\<exists>r. parse_expr L ctx (Suc (length ts)) ts = Some r \<and>
     (case r of Ok (v, rest) \<Rightarrow> length rest < length ts | Err _ \<Rightarrow> True)"
proof -
  obtain r where r: "parse_expr L ctx (Suc (length ts)) ts = Some r"
    using parse_expr_returns [of ts "Suc (length ts)" L ctx] by blast
  moreover have "case r of Ok (v, rest) \<Rightarrow> length rest < length ts | Err _ \<Rightarrow> True"
    using shrinksD [OF parse_expr_shorter] r by (auto simp del: parse_expr.simps split: result.split)
  ultimately show ?thesis by blast
qed

text \<open>
  C38. Operator precedence, associativity, parentheses, calls and property access are those of the
  grammar: the tokens of any expression, printed with only the parentheses its structure needs
  (\<^verbatim>\<open>||\<close> loosest, then \<^verbatim>\<open>&&\<close>, \<^verbatim>\<open>!\<close>, one comparison, property access), evaluate to the value of that
  expression, errors included. A chain of splits at \<^verbatim>\<open>&&\<close> and \<^verbatim>\<open>||\<close> does not have this property.
\<close>

theorem parser_precedence:
  assumes "ast_wf a"
  shows "eval_toks L ctx (ast_toks 0 a) = ast_val L ctx a"
proof -
  have "parse_expr L ctx (Suc (length (ast_toks 0 a))) (ast_toks 0 a @ []) = yields (ast_val L ctx a) []"
    by (intro parses_0_stop ast_parses assms) simp_all
  then show ?thesis by (cases "ast_val L ctx a") (simp_all add: eval_toks_def yields_def)
qed

theorem parser_precedence_witness:
  "eval_toks no_json []
     [TStr ''x'', TOr, TLParen, TNum (Fin 1 0), TOr, TStr ''y'', TRParen, TAnd, TNot, TIdent ''true'']
   = Ok (JStr ''x'')"
  using parser_precedence
    [of "AOr (AStr ''x'') (AAnd (AOr (ANum (Fin 1 0)) (AStr ''y'')) (ANot (AName ''true'')))" no_json "[]"]
  by (simp add: wrap_def or_value_def)

text \<open>
  \<^verbatim>\<open>find_close\<close> finds exactly the first \<open>}}\<close> that lies outside every string literal, and none
  when there is none. The doubled quote, which the code skips as a pair, is covered.
\<close>

theorem find_close_first:
  "find_close body = Some i \<longleftrightarrow> closes None body i \<and> (\<forall>j<i. \<not> closes None body j)"
  by (simp add: find_close_def find_close_from_first first_close_Some)

theorem find_close_first_witness:
  "find_close ''format('}}', x) }} y'' = Some 16 \<and> closes None ''format('}}', x) }} y'' 16
   \<and> \<not> closes None ''format('}}', x) }} y'' 8"
proof -
  have "find_close ''format('}}', x) }} y'' = Some 16" by code_simp
  with find_close_first [of "''format('}}', x) }} y''" 16] show ?thesis by simp
qed

text \<open>
  Substitution replaces an expression that evaluates by its value, leaves one that does not
  evaluate in place verbatim, braces included, keeps the text before it, and goes on after it.
\<close>

theorem substitute_step:
  assumes "\<not> sublist ''${{'' (pre @ ''${'')"
    and "find_close (body @ ''}}'' @ rest) = Some (length body)"
  shows "substitute L ctx (pre @ ''${{'' @ body @ ''}}'' @ rest) =
    pre @ (case eval L ctx body of Ok v \<Rightarrow> to_display L v | Err _ \<Rightarrow> ''${{'' @ body @ ''}}'')
    @ substitute L ctx rest"
proof -
  let ?in = "pre @ ''${{'' @ body @ ''}}'' @ rest"
  from assms(1) have "find_sub ''${{'' ?in = Some (length pre)"
    by (intro find_sub_first) simp
  moreover have "drop (length pre + 3) ?in = body @ ''}}'' @ rest" by simp
  moreover have "take (3 + length body + 2) (''${{'' @ body @ ''}}'' @ rest) = ''${{'' @ body @ ''}}''"
    by (simp add: numeral_eq_Suc)
  ultimately show ?thesis
    unfolding substitute_def
    by (subst substitute_with.simps)
       (simp add: assms(2) [simplified] split: result.split)
qed

theorem substitute_step_witness:
  "substitute no_json [(''x'', JStr ''v'')] ''a ${{ x }} b'' = ''a v b''"
proof -
  have "\<not> sublist ''${{'' (''a '' @ ''${'')"
    unfolding contains_sub_iff [symmetric] by code_simp
  moreover have "find_close ('' x '' @ ''}}'' @ '' b'') = Some (length '' x '')" by code_simp
  moreover have "eval no_json [(''x'', JStr ''v'')] '' x '' = Ok (JStr ''v'')"
    by code_simp
  moreover have "substitute no_json [(''x'', JStr ''v'')] '' b'' = '' b''"
    by code_simp
  ultimately show ?thesis
    using substitute_step [of "''a ''" "'' x ''" "'' b''" no_json "[(''x'', JStr ''v'')]"] by simp
qed

text \<open>
  \<^verbatim>\<open>changed(\<dots>)\<close> fails open: it is false only when the change set is known, its files are an
  array, and no pattern matches any of them.
\<close>

theorem changed_fails_open:
  "call L ctx ''changed'' args = Ok (JBool False) \<longleftrightarrow>
     truthy (lookup ctx [''ci'', ''changes_known'']) \<and>
     (\<exists>files. lookup ctx [''ci'', ''changed_files''] = JArr files \<and>
        \<not> (\<exists>p\<in>set args. \<exists>f\<in>set files. path_matches (to_display L p) (to_display L f)))"
  by (auto simp: call_def call_changed_def list_ex_iff split: json.splits)

end
