(* ===== verification/Vm.thy ===== *)
theory Vm
  imports Prelude
begin

text \<open>
  \<^verbatim>\<open>src/src/vm.rs\<close>: the \<^verbatim>\<open>vm:\<close> block of a job and its validation, and the boundary to the
  daemon: making sure a VM runs, running one step as an exec operation, and writing a file into
  the guest in chunks.

  The daemon and its SDK are not part of the repository. Where the code calls them, the answer is
  an argument: a status, an operation record with the time it arrived, the result of an exec.
  Errors carry the constructor and the arguments of the source; message texts are left out.
\<close>

section \<open>The vm block\<close>

datatype sandbox_driver = Firecracker | Kvm | Libvirt

record image_build =
  dockerfile :: string
  build_context :: "string option"
  size_mb :: "nat option"

definition context_dir :: "image_build \<Rightarrow> string" where
  "context_dir b =
     (case build_context b of
        Some c \<Rightarrow> c
      | None \<Rightarrow>
          (case rsplit_once (CHR ''/'') (dockerfile b) of
             Some (dir, _) \<Rightarrow> dir
           | None \<Rightarrow> ''.''))"

record vm_spec =
  vm_driver :: sandbox_driver
  vm_image :: "string option"
  vm_build :: "image_build option"
  size_class :: "string option"
  disk_size_gb :: "nat option"
  vm_working_directory :: "string option"
  env_vars :: "string bmap"
  setup_hooks :: "string list"
  cache_key_files :: "string list"
  vm_reuse :: bool
  ttl_seconds :: "nat option"

datatype vm_spec_error =
    UnsupportedDriver
  | ZeroDisk
  | ZeroTtl
  | InvalidEnvKey string
  | EscapingCacheKeyFile string
  | ImageAndBuild
  | EscapingBuildPath string
  | EmptyDockerfilePath
  | ZeroImageSize

text \<open>A path that is absolute or has a \<^verbatim>\<open>..\<close> segment.\<close>

definition escapes_tree :: "string \<Rightarrow> bool" where
  "escapes_tree path \<longleftrightarrow> prefix ''/'' path \<or> list_ex (\<lambda>s. s = ''..'') (split_on (CHR ''/'') path)"

definition valid_env_key :: "string \<Rightarrow> bool" where
  "valid_env_key key \<longleftrightarrow>
     key \<noteq> [] \<and> list_all (\<lambda>b. is_ascii_alphanumeric b \<or> b = CHR ''_'') key"

definition validate_build :: "vm_spec \<Rightarrow> image_build \<Rightarrow> (vm_spec_error, unit) result" where
  "validate_build spec b =
     (if vm_image spec \<noteq> None then Err ImageAndBuild
      else and_then
        (check_all (\<lambda>p. if escapes_tree p then Err (EscapingBuildPath p) else Ok ())
           [dockerfile b, context_dir b])
        (\<lambda>_. if trim (dockerfile b) = [] then Err EmptyDockerfilePath
             else if size_mb b = Some 0 then Err ZeroImageSize
             else Ok ()))"

definition validate_vm :: "vm_spec \<Rightarrow> (vm_spec_error, unit) result" where
  "validate_vm spec =
     (if vm_driver spec = Libvirt then Err UnsupportedDriver
      else and_then (case vm_build spec of None \<Rightarrow> Ok () | Some b \<Rightarrow> validate_build spec b)
        (\<lambda>_. if disk_size_gb spec = Some 0 then Err ZeroDisk
             else if ttl_seconds spec = Some 0 then Err ZeroTtl
             else and_then
               (check_all (\<lambda>k. if valid_env_key k then Ok () else Err (InvalidEnvKey k))
                  (bm_keys (env_vars spec)))
               (\<lambda>_. check_all
                  (\<lambda>p. if escapes_tree p then Err (EscapingCacheKeyFile p) else Ok ())
                  (cache_key_files spec))))"

text \<open>A plain VM, for concrete instances.\<close>

definition sample_vm :: vm_spec where
  "sample_vm = \<lparr>vm_driver = Firecracker, vm_image = Some ''ubuntu'', vm_build = None,
     size_class = None, disk_size_gb = None, vm_working_directory = None, env_vars = [],
     setup_hooks = [], cache_key_files = [], vm_reuse = True, ttl_seconds = None\<rparr>"

section \<open>What a step produced\<close>

record exec_output =
  out_output :: string
  out_stdout :: string
  out_stderr :: string
  exit_code :: int

definition combined :: "exec_output \<Rightarrow> string" where
  "combined o' =
     (if out_output o' \<noteq> [] then out_output o'
      else if out_stderr o' \<noteq> [] then
        out_stdout o'
        @ (if out_stdout o' \<noteq> [] \<and> last (out_stdout o') \<noteq> CHR 0x0A then [CHR 0x0A] else [])
        @ out_stderr o'
      else out_stdout o')"

definition succeeded :: "exec_output \<Rightarrow> bool" where
  "succeeded o' \<longleftrightarrow> exit_code o' = 0"

section \<open>Errors of the daemon boundary\<close>

datatype heyo_error = Api nat string | Connection string | OtherError string

fun is_transport_sdk :: "heyo_error \<Rightarrow> bool" where
  "is_transport_sdk (Api status _) = (status = 0)"
| "is_transport_sdk (Connection _) = True"
| "is_transport_sdk (OtherError _) = False"

datatype vm_error =
    CreateError string heyo_error
  | DaemonError string string heyo_error
  | NotRunnable string string "string option"
  | BadOperationId string
  | ExecFailed string string string
  | ExecTimeout string string nat
  | MalformedRecord string string string
  | UploadFailed string string nat nat string
  | UploadCorrupted string string string string

fun is_transport :: "vm_error \<Rightarrow> bool" where
  "is_transport (CreateError _ e) = is_transport_sdk e"
| "is_transport (DaemonError _ _ e) = is_transport_sdk e"
| "is_transport _ = False"

section \<open>Making sure a VM runs\<close>

datatype sandbox_status = Running | Stopped | Paused | OtherStatus string

fun status_name :: "sandbox_status \<Rightarrow> string" where
  "status_name Running = ''Running''"
| "status_name Stopped = ''Stopped''"
| "status_name Paused = ''Paused''"
| "status_name (OtherStatus s) = s"

record sandbox_info =
  si_status :: sandbox_status
  si_error_message :: "string option"

text \<open>\<^verbatim>\<open>Vm::ensure_running\<close>, with the daemon's answers to the three requests it may make: the
  first look, the start, and the wait. A wait that returns is not a VM that runs.\<close>

definition ensure_running ::
    "string \<Rightarrow> (heyo_error, sandbox_info) result \<Rightarrow> (heyo_error, unit) result
     \<Rightarrow> (heyo_error, sandbox_info) result \<Rightarrow> (vm_error, unit) result" where
  "ensure_running vid look start wait =
     and_then (map_err (DaemonError vid ''reading sandbox info'') look)
       (\<lambda>info.
          if si_status info = Running then Ok ()
          else if si_status info = Stopped \<or> si_status info = Paused then
            and_then (map_err (DaemonError vid ''starting the sandbox'') start)
              (\<lambda>_. and_then
                 (map_err (DaemonError vid ''waiting for the sandbox to start'') wait)
                 (\<lambda>info'.
                    if si_status info' \<noteq> Running
                    then Err (NotRunnable vid (status_name (si_status info')) (si_error_message info'))
                    else Ok ()))
          else Err (NotRunnable vid (status_name (si_status info)) (si_error_message info)))"

section \<open>Running a step\<close>

record exec_record =
  op_status :: string
  op_result :: "exec_output option"
  op_error :: "string option"

definition is_terminal_record :: "exec_record \<Rightarrow> bool" where
  "is_terminal_record r \<longleftrightarrow> op_status r \<in> {''completed'', ''failed''}"

definition finish :: "string \<Rightarrow> string \<Rightarrow> exec_record \<Rightarrow> (vm_error, exec_output) result" where
  "finish vid op r =
     (if op_status r = ''completed'' then
        ok_or (MalformedRecord vid op ''status was `completed` but no result was attached'')
          (op_result r)
      else if op_status r = ''failed'' then
        Err (ExecFailed vid op
          (case op_error r of Some e \<Rightarrow> e | None \<Rightarrow> ''no reason reported''))
      else Err (MalformedRecord vid op (''unexpected terminal status '' @ op_status r)))"

definition valid_operation_id :: "string \<Rightarrow> bool" where
  "valid_operation_id s \<longleftrightarrow>
     s \<noteq> [] \<and> length s \<le> 160
     \<and> list_all (\<lambda>b. is_ascii_alphanumeric b \<or> b = CHR ''-'' \<or> b = CHR ''_'' \<or> b = CHR ''.'') s"

text \<open>Durations in milliseconds.\<close>

definition POLL_MIN :: nat where "POLL_MIN = 250"
definition POLL_MAX :: nat where "POLL_MAX = 2000"
definition POLL_SLACK :: nat where "POLL_SLACK = 30000"
definition UPLOAD_CHUNK :: nat where "UPLOAD_CHUNK = 24 * 1024"

text \<open>The pause before the \<open>i\<close>-th poll.\<close>

fun poll_interval :: "nat \<Rightarrow> nat" where
  "poll_interval 0 = POLL_MIN"
| "poll_interval (Suc i) = min (poll_interval i * 2) POLL_MAX"

text \<open>The poll loop over the answers as they arrive, each with the time the deadline is checked
  at. \<open>None\<close> is a loop still waiting when the answers given run out.\<close>

fun poll_loop ::
    "string \<Rightarrow> string \<Rightarrow> nat \<Rightarrow> nat \<Rightarrow> (nat \<times> (heyo_error, exec_record) result) list
     \<Rightarrow> (vm_error, exec_output) result option" where
  "poll_loop vid op timeout deadline [] = None"
| "poll_loop vid op timeout deadline ((now, answer) # later) =
     (case answer of
        Err e \<Rightarrow> Some (Err (DaemonError vid ''polling an exec operation'' e))
      | Ok r \<Rightarrow>
          if is_terminal_record r then Some (finish vid op r)
          else if deadline \<le> now then Some (Err (ExecTimeout vid op (timeout + POLL_SLACK)))
          else poll_loop vid op timeout deadline later)"

definition exec ::
    "string \<Rightarrow> string \<Rightarrow> nat \<Rightarrow> nat \<Rightarrow> (heyo_error, exec_record) result
     \<Rightarrow> (nat \<times> (heyo_error, exec_record) result) list \<Rightarrow> (vm_error, exec_output) result option" where
  "exec vid op timeout started_at start polls =
     (if \<not> valid_operation_id op then Some (Err (BadOperationId op))
      else (case start of
              Err e \<Rightarrow> Some (Err (DaemonError vid ''starting an exec operation'' e))
            | Ok r \<Rightarrow>
                if is_terminal_record r then Some (finish vid op r)
                else poll_loop vid op timeout (started_at + timeout + POLL_SLACK) polls))"

section \<open>Names and quoting\<close>

definition new_id :: "nat \<Rightarrow> nat \<Rightarrow> string" where
  "new_id ms seq = hex_padded 12 ms @ ''-'' @ hex_padded 8 (seq mod 2 ^ 32)"

definition sandbox_name :: "string \<Rightarrow> string \<Rightarrow> nat \<Rightarrow> string" where
  "sandbox_name workflow fp nonce =
     ''ci-'' @ map (\<lambda>c. if is_ascii_alphanumeric c then c else CHR ''-'') workflow
     @ ''-'' @ fp @ ''-'' @ hex_padded 12 nonce"

definition SQ :: char where "SQ = CHR 0x27"
definition BS :: char where "BS = CHR 0x5C"

definition shell_single_quote :: "string \<Rightarrow> string" where
  "shell_single_quote s = [SQ] @ replace_all [SQ] [SQ, BS, SQ, SQ] s @ [SQ]"

definition percent_byte :: "char \<Rightarrow> string" where
  "percent_byte b =
     CHR ''%'' # map (\<lambda>c. if is_ascii_lower c then char_of (of_char c - 32 :: nat) else c)
                   (hex_padded 2 (of_char b))"

definition is_unreserved :: "char \<Rightarrow> bool" where
  "is_unreserved b \<longleftrightarrow>
     is_ascii_alphanumeric b \<or> b \<in> {CHR ''-'', CHR ''_'', CHR ''.'', CHR ''~''}"

definition encode_segment :: "string \<Rightarrow> string" where
  "encode_segment s = concat (map (\<lambda>b. if is_unreserved b then [b] else percent_byte b) s)"

section \<open>Uploading a file\<close>

text \<open>\<^verbatim>\<open>slice::chunks\<close>.\<close>

function chunks_of :: "nat \<Rightarrow> 'a list \<Rightarrow> 'a list list" where
  "chunks_of n xs = (if n = 0 \<or> xs = [] then [] else take n xs # chunks_of n (drop n xs))"
  by pat_completeness auto
termination
  by (relation "measure (\<lambda>(n, xs). length xs)") auto

declare chunks_of.simps [simp del]

definition upload_chunks :: "string \<Rightarrow> string list" where
  "upload_chunks encoded = (if encoded = [] then [[]] else chunks_of UPLOAD_CHUNK encoded)"

definition upload_script :: "string \<Rightarrow> nat \<Rightarrow> string \<Rightarrow> string" where
  "upload_script quoted i chunk =
     ''mkdir -p \"$(dirname '' @ quoted @ '')\" && printf %s '' @ [SQ] @ chunk @ [SQ]
     @ '' | base64 -d '' @ (if i = 0 then ''>'' else ''>>'') @ '' '' @ quoted"

definition split_whitespace :: "string \<Rightarrow> string list" where
  "split_whitespace s =
     filter (\<lambda>w. w \<noteq> [])
       (split_on (CHR '' '') (map (\<lambda>c. if is_whitespace c then CHR '' '' else c) s))"

definition is_hex_digit :: "char \<Rightarrow> bool" where
  "is_hex_digit c \<longleftrightarrow>
     is_ascii_digit c \<or> (CHR ''a'' \<le> c \<and> c \<le> CHR ''f'') \<or> (CHR ''A'' \<le> c \<and> c \<le> CHR ''F'')"

definition reported_hash :: "string \<Rightarrow> string option" where
  "reported_hash text =
     find (\<lambda>t. length t = 64 \<and> list_all is_hex_digit t) (split_whitespace text)"

fun upload_loop ::
    "string \<Rightarrow> string \<Rightarrow> string \<Rightarrow> (string \<Rightarrow> string \<Rightarrow> (vm_error, exec_output) result) \<Rightarrow> nat
     \<Rightarrow> nat \<Rightarrow> string list \<Rightarrow> (vm_error, unit) result" where
  "upload_loop vid op path run count i [] = Ok ()"
| "upload_loop vid op path run count i (chunk # rest) =
     and_then (run (op @ ''.u'' @ nat_str i) (upload_script (shell_single_quote path) i chunk))
       (\<lambda>out. if \<not> succeeded out then Err (UploadFailed vid path i count (combined out))
              else upload_loop vid op path run count (Suc i) rest)"

text \<open>\<open>b64\<close> and \<open>sha256_hex\<close> are the base64 and SHA-256 crates; \<open>run\<close> is an exec, by operation id
  and script.\<close>

definition upload_bytes ::
    "(string \<Rightarrow> string) \<Rightarrow> (string \<Rightarrow> string) \<Rightarrow> string \<Rightarrow> string \<Rightarrow> string
     \<Rightarrow> (string \<Rightarrow> string \<Rightarrow> (vm_error, exec_output) result) \<Rightarrow> string \<Rightarrow> (vm_error, unit) result" where
  "upload_bytes b64 sha256_hex vid op path run bytes =
     (let parts = upload_chunks (b64 bytes); expected = sha256_hex bytes in
      and_then (upload_loop vid op path run (length parts) 0 parts)
        (\<lambda>_. and_then (run (op @ ''.uv'') (''sha256sum '' @ shell_single_quote path))
          (\<lambda>out.
             if \<not> succeeded out then
               (if exit_code out = 127 then Ok ()
                else Err (UploadCorrupted vid path expected
                  (''no hash; sha256sum failed with: '' @ trim (combined out))))
             else
               (case reported_hash (combined out) of
                  Some h \<Rightarrow>
                    if h = expected then Ok () else Err (UploadCorrupted vid path expected h)
                | None \<Rightarrow> Ok ()))))"

section \<open>Properties\<close>

text \<open>What validation guarantees about a \<^verbatim>\<open>build:\<close> block.\<close>

lemma validate_build_Ok:
  "validate_build spec b = Ok () \<longleftrightarrow>
     vm_image spec = None \<and> \<not> escapes_tree (dockerfile b) \<and> \<not> escapes_tree (context_dir b)
     \<and> trim (dockerfile b) \<noteq> [] \<and> size_mb b \<noteq> Some 0"
  by (auto simp: validate_build_def and_then_Err)

text \<open>
  A \<^verbatim>\<open>vm:\<close> block is accepted exactly when it does not ask for libvirt, does not both name
  and build an image, keeps every path it names inside the repository, has positive sizes and
  only shell-safe environment names.
\<close>

theorem validate_vm_accepts:
  "validate_vm spec = Ok () \<longleftrightarrow>
     vm_driver spec \<noteq> Libvirt
     \<and> (case vm_build spec of
          None \<Rightarrow> True
        | Some b \<Rightarrow> vm_image spec = None \<and> \<not> escapes_tree (dockerfile b)
            \<and> \<not> escapes_tree (context_dir b) \<and> trim (dockerfile b) \<noteq> [] \<and> size_mb b \<noteq> Some 0)
     \<and> disk_size_gb spec \<noteq> Some 0 \<and> ttl_seconds spec \<noteq> Some 0
     \<and> list_all valid_env_key (bm_keys (env_vars spec))
     \<and> \<not> list_ex escapes_tree (cache_key_files spec)"
proof (cases "vm_driver spec = Libvirt")
  case False
  have env: "check_all (\<lambda>k. if valid_env_key k then Ok () else Err (InvalidEnvKey k)) ks = Ok ()
      \<longleftrightarrow> list_all valid_env_key ks" for ks
    by (auto simp: list_all_iff split: if_splits)
  have ckf: "check_all (\<lambda>p. if escapes_tree p then Err (EscapingCacheKeyFile p) else Ok ()) ps = Ok ()
      \<longleftrightarrow> \<not> list_ex escapes_tree ps" for ps
    by (auto simp: list_ex_iff split: if_splits)
  show ?thesis
    using False
    by (simp add: validate_vm_def validate_build_Ok env ckf del: check_all_Ok split: option.split)
qed (simp add: validate_vm_def)

text \<open>
  \<^verbatim>\<open>ensure_running\<close> succeeds only on a VM the daemon last reported as running: either the first
  look said so, or a stopped or paused VM was started and the wait itself reported \<^verbatim>\<open>Running\<close>. A
  wait that merely returned is not enough.
\<close>

theorem ensure_running_Ok:
  "ensure_running vid look start wait = Ok () \<longleftrightarrow>
     (\<exists>info. look = Ok info \<and>
        (si_status info = Running
         \<or> si_status info \<in> {Stopped, Paused} \<and> start = Ok ()
           \<and> (\<exists>info'. wait = Ok info' \<and> si_status info' = Running)))"
  by (cases look; cases start; cases wait) (auto simp: ensure_running_def)

text \<open>The poll loop ends no later than the first answer at or after the deadline.\<close>

lemma poll_loop_returns:
  "\<exists>p\<in>set polls. deadline \<le> fst p \<Longrightarrow> poll_loop vid op timeout deadline polls \<noteq> None"
proof (induction polls)
  case (Cons p polls)
  then show ?case by (cases p) (auto split: result.split)
qed simp

lemma finish_Ok: "finish vid op r = Ok out \<longleftrightarrow> op_status r = ''completed'' \<and> op_result r = Some out"
  by (auto simp: finish_def ok_or_def split: option.split)

lemma poll_loop_Ok:
  "poll_loop vid op timeout deadline polls = Some (Ok out) \<Longrightarrow>
   \<exists>rec. Ok rec \<in> snd ` set polls \<and> op_status rec = ''completed'' \<and> op_result rec = Some out"
proof (induction polls)
  case (Cons p polls)
  obtain now answer where p: "p = (now, answer)" by (cases p)
  show ?case
  proof (cases "\<exists>rec. answer = Ok rec \<and> is_terminal_record rec")
    case True
    with Cons.prems show ?thesis by (auto simp: p finish_Ok)
  next
    case False
    with Cons.prems have "poll_loop vid op timeout deadline polls = Some (Ok out)"
      by (auto simp: p split: result.splits if_splits)
    with Cons.IH show ?thesis by auto
  qed
qed simp

text \<open>
  An exec returns by its deadline: once the daemon's answers reach the step's timeout plus
  the slack, the call has returned, whatever was answered. A successful result is the one the
  daemon attached to a record it called completed.
\<close>

theorem exec_returns:
  assumes "\<exists>p\<in>set polls. started_at + timeout + POLL_SLACK \<le> fst p"
  shows "\<exists>r. exec vid op timeout started_at start polls = Some r \<and>
    (\<forall>out. r = Ok out \<longrightarrow>
      (\<exists>rec. (start = Ok rec \<or> Ok rec \<in> snd ` set polls)
        \<and> op_status rec = ''completed'' \<and> op_result rec = Some out))"
proof -
  have "exec vid op timeout started_at start polls \<noteq> None"
    using poll_loop_returns [OF assms] by (auto simp: exec_def split: result.split)
  then obtain r where r: "exec vid op timeout started_at start polls = Some r" by blast
  have "\<exists>rec. (start = Ok rec \<or> Ok rec \<in> snd ` set polls)
      \<and> op_status rec = ''completed'' \<and> op_result rec = Some out" if "r = Ok out" for out
    using r that
    by (cases start) (auto simp: exec_def finish_Ok split: if_splits dest!: poll_loop_Ok)
  with r show ?thesis by blast
qed

theorem exec_returns_witness:
  "\<exists>r. exec ''sb'' ''op'' 1000 0 (Ok \<lparr>op_status = ''queued'', op_result = None, op_error = None\<rparr>)
     [(31000, Ok \<lparr>op_status = ''running'', op_result = None, op_error = None\<rparr>)] = Some r"
proof -
  have "\<exists>p\<in>set [(31000, Ok \<lparr>op_status = ''running'', op_result = None, op_error = None\<rparr>
      :: (heyo_error, exec_record) result)]. 0 + 1000 + POLL_SLACK \<le> fst p"
    by (simp add: POLL_SLACK_def)
  from exec_returns [OF this] show ?thesis by blast
qed

text \<open>The pauses between polls stay between the two bounds.\<close>

lemma poll_interval_bounds: "POLL_MIN \<le> poll_interval i \<and> poll_interval i \<le> POLL_MAX"
  by (induction i) (auto simp: POLL_MIN_def POLL_MAX_def)

text \<open>How \<^verbatim>\<open>sh\<close> reads one word made of single-quoted parts, escaped characters and plain
  characters; anything else is not one word.\<close>

fun sh_word :: "bool \<Rightarrow> string \<Rightarrow> string option" where
  "sh_word True [] = None"
| "sh_word True (c # cs) =
     (if c = SQ then sh_word False cs else map_option ((#) c) (sh_word True cs))"
| "sh_word False [] = Some []"
| "sh_word False [c] =
     (if c = SQ then sh_word True [] else if is_token_char c then Some [c] else None)"
| "sh_word False (c # d # cs) =
     (if c = SQ then sh_word True (d # cs)
      else if c = BS then map_option ((#) d) (sh_word False cs)
      else if is_token_char c then map_option ((#) c) (sh_word False (d # cs))
      else None)"

lemma sh_word_open: "sh_word False (SQ # cs) = sh_word True cs"
  by (cases cs) auto

lemma sh_word_quoted:
  "sh_word True (replace_all [SQ] [SQ, BS, SQ, SQ] s @ [SQ]) = Some s"
proof (induction s)
  case (Cons c s)
  have "SQ \<noteq> BS" by (simp add: SQ_def BS_def)
  with Cons show ?case by (auto simp: sh_word_open)
qed simp

text \<open>
  Quoting is safe: the shell reads a single-quoted value back as one word with exactly the
  original characters, whatever they are.
\<close>

theorem shell_single_quote_roundtrip: "sh_word False (shell_single_quote s) = Some s"
  by (simp add: shell_single_quote_def sh_word_open sh_word_quoted)

lemma concat_chunks_of: "0 < n \<Longrightarrow> concat (chunks_of n xs) = xs"
proof (induction n xs rule: chunks_of.induct)
  case (1 n xs)
  then show ?case by (subst chunks_of.simps) (cases "xs = []"; simp)
qed

lemma chunks_of_length: "0 < n \<Longrightarrow> c \<in> set (chunks_of n xs) \<Longrightarrow> c \<noteq> [] \<and> length c \<le> n"
proof (induction n xs rule: chunks_of.induct)
  case (1 n xs)
  from 1(3) "1.prems"(1) "1.IH" show ?case
    by (subst (asm) chunks_of.simps) (auto split: if_splits)
qed

lemma upload_loop_Ok:
  "upload_loop vid op path run count i parts = Ok () \<longleftrightarrow>
     (\<forall>k<length parts. \<exists>out. run (op @ ''.u'' @ nat_str (i + k))
        (upload_script (shell_single_quote path) (i + k) (parts ! k)) = Ok out \<and> succeeded out)"
proof (induction parts arbitrary: i)
  case (Cons c parts)
  show ?case
    by (auto simp: Cons.IH All_less_Suc2 and_then_Err split: if_splits)
qed simp

text \<open>
  A successful upload wrote the whole payload in order, in chunks of at most 24 KiB, the first
  truncating and the rest appending, every one of them acknowledged; and the guest did not
  report a different hash: it either reported the hash that was sent or could not report one.
\<close>

theorem upload_bytes_Ok:
  assumes "upload_bytes b64 sha vid op path run bytes = Ok ()"
  shows "\<exists>parts. concat parts = b64 bytes
    \<and> (\<forall>c\<in>set parts. length c \<le> UPLOAD_CHUNK)
    \<and> (\<forall>k<length parts. \<exists>out. run (op @ ''.u'' @ nat_str k)
         (upload_script (shell_single_quote path) k (parts ! k)) = Ok out \<and> succeeded out)
    \<and> (\<exists>out. run (op @ ''.uv'') (''sha256sum '' @ shell_single_quote path) = Ok out
         \<and> (if succeeded out then reported_hash (combined out) \<in> {None, Some (sha bytes)}
            else exit_code out = 127))"
proof (rule exI [of _ "upload_chunks (b64 bytes)"], intro conjI)
  let ?parts = "upload_chunks (b64 bytes)"
  show "concat ?parts = b64 bytes"
    by (simp add: upload_chunks_def concat_chunks_of UPLOAD_CHUNK_def)
  show "\<forall>c\<in>set ?parts. length c \<le> UPLOAD_CHUNK"
    using chunks_of_length [of UPLOAD_CHUNK _ "b64 bytes"]
    by (auto simp: upload_chunks_def UPLOAD_CHUNK_def)
  show "\<forall>k<length ?parts. \<exists>out. run (op @ ''.u'' @ nat_str k)
      (upload_script (shell_single_quote path) k (?parts ! k)) = Ok out \<and> succeeded out"
    using assms by (simp add: upload_bytes_def Let_def upload_loop_Ok)
  show "\<exists>out. run (op @ ''.uv'') (''sha256sum '' @ shell_single_quote path) = Ok out
      \<and> (if succeeded out then reported_hash (combined out) \<in> {None, Some (sha bytes)}
         else exit_code out = 127)"
    using assms by (auto simp: upload_bytes_def Let_def split: if_splits option.splits)
qed

theorem upload_bytes_Ok_witness:
  "\<exists>parts. concat parts = ''QUJD'' \<and> (\<exists>out. (\<lambda>(_::string) (_::string). Ok \<lparr>out_output = [], out_stdout = [],
     out_stderr = [], exit_code = 0\<rparr> :: (vm_error, exec_output) result) ''op.uv''
     (''sha256sum '' @ shell_single_quote ''/x'') = Ok out)"
proof -
  have "upload_bytes (\<lambda>_. ''QUJD'') (\<lambda>_. ''h'') ''sb'' ''op'' ''/x''
      (\<lambda>_ _. Ok \<lparr>out_output = [], out_stdout = [], out_stderr = [], exit_code = 0\<rparr>) ''ABC'' = Ok ()"
    by (simp add: upload_bytes_def upload_chunks_def UPLOAD_CHUNK_def chunks_of.simps succeeded_def
        combined_def reported_hash_def split_whitespace_def)
  from upload_bytes_Ok [OF this] show ?thesis by blast
qed

end
