(* ===== verification/Workflow.thy ===== *)
theory Workflow
  imports Expr Vm
begin

text \<open>
  \<^verbatim>\<open>src/src/workflow.rs\<close>: the workflow file. The YAML reader is the \<^verbatim>\<open>serde_yaml\<close> crate with derived
  deserializers and enters as the record \<open>yaml_lib\<close> of functions; everything the module itself
  does with the values read is modelled: the \<^verbatim>\<open>uses:\<close> grammar, the submit filters, the trigger
  block, the validation of jobs and the search for a cycle among \<^verbatim>\<open>needs\<close>.

  Errors keep the source's constructors and arguments; where the source stores the message of an
  inner error, the inner error itself is kept.
\<close>

section \<open>Targets\<close>

record target =
  tg_network :: "string option"
  tg_node :: "string option"
  tg_vm :: "string option"
  tg_local :: bool

datatype workflow_error =
    Yaml string string
  | NoJobs string
  | DuplicateJob string
  | BadJobId string
  | BadTriggerBlock string string
  | BadFilter string string pattern_error
  | ConflictingFilter string string string
  | BadJob string string string
  | BadVm string vm_spec_error
  | BadUses string workflow_error
  | EmptyUses
  | EmptyRunner string
  | UsesTooDeep string
  | VmWithoutNode string
  | UnknownNeed string string
  | SelfNeed string
  | Cycle "string list"
  | NoSteps string
  | StepRunAndUses string string
  | StepNeitherRunNorUses string string

definition DEFAULT_NODE :: string where
  "DEFAULT_NODE = ''default''"

definition node_of_part :: "string \<Rightarrow> string option \<Rightarrow> (workflow_error, string option) result" where
  "node_of_part raw part =
     (case part of
        None \<Rightarrow> Ok None
      | Some n \<Rightarrow>
          if n = ''*'' then Ok None
          else if n = [] then Err (EmptyRunner raw)
          else Ok (Some n))"

definition vm_of_part :: "string \<Rightarrow> string option \<Rightarrow> (workflow_error, string option) result" where
  "vm_of_part raw part =
     (case part of
        None \<Rightarrow> Ok None
      | Some v \<Rightarrow> if v = [] \<or> v = ''*'' then Err (EmptyRunner raw) else Ok (Some v))"

definition part_at :: "nat \<Rightarrow> 'a list \<Rightarrow> 'a option" where
  "part_at i parts = (if i < length parts then Some (parts ! i) else None)"

definition target_parse :: "string \<Rightarrow> (workflow_error, target) result" where
  "target_parse raw0 =
     (let raw = trim raw0 in
      if raw = [] then Err EmptyUses
      else if eq_ignore_ascii_case raw DEFAULT_NODE then
        Ok \<lparr>tg_network = None, tg_node = None, tg_vm = None, tg_local = True\<rparr>
      else
        (let parts = map trim (split_on (CHR ''/'') raw) in
         if 3 < length parts then Err (UsesTooDeep raw)
         else if parts ! 0 = [] then Err EmptyUses
         else
           and_then (node_of_part raw (part_at 1 parts))
             (\<lambda>node. and_then (vm_of_part raw (part_at 2 parts))
                (\<lambda>vm. if vm \<noteq> None \<and> node = None then Err (VmWithoutNode raw)
                      else Ok \<lparr>tg_network = Some (parts ! 0), tg_node = node, tg_vm = vm,
                               tg_local = False\<rparr>))))"

definition target_any :: target where
  "target_any = \<lparr>tg_network = None, tg_node = None, tg_vm = None, tg_local = False\<rparr>"

definition is_existing_vm :: "target \<Rightarrow> bool" where
  "is_existing_vm t \<longleftrightarrow> tg_vm t \<noteq> None"

definition display_target :: "target \<Rightarrow> string" where
  "display_target t =
     (if tg_local t then DEFAULT_NODE
      else
        (let network = (case tg_network t of Some n \<Rightarrow> n | None \<Rightarrow> ''*'') in
         (case (tg_node t, tg_vm t) of
            (Some n, Some v) \<Rightarrow> network @ ''/'' @ n @ ''/'' @ v
          | (Some n, None) \<Rightarrow> network @ ''/'' @ n
          | (None, _) \<Rightarrow> network @ ''/*'')))"

section \<open>Jobs and steps\<close>

datatype fallback = FallbackNone | FallbackAny

text \<open>A \<^verbatim>\<open>serde_yaml::Value\<close>; a mapping keeps the order it was written in.\<close>

datatype yaml =
    YNull
  | YBool bool
  | YNum jnum
  | YStr string
  | YSeq "yaml list"
  | YMap "(yaml \<times> yaml) list"

record step =
  sp_name :: "string option"
  sp_id :: "string option"
  sp_condition :: "string option"
  sp_uses :: "string option"
  sp_with :: "string bmap"
  sp_run :: "string option"
  sp_shell :: "string option"
  sp_working_directory :: "string option"
  sp_env :: "string bmap"
  sp_timeout_minutes :: "nat option"
  sp_continue_on_error :: bool

text \<open>The ellipsis is the three bytes of its UTF-8 form.\<close>

definition truncate :: "string \<Rightarrow> nat \<Rightarrow> string" where
  "truncate s mx =
     (if length s \<le> mx then s else take (mx - 1) s @ [CHR 0xE2, CHR 0x80, CHR 0xA6])"

definition step_label :: "step \<Rightarrow> nat \<Rightarrow> string" where
  "step_label s index =
     (case sp_name s of
        Some n \<Rightarrow> n
      | None \<Rightarrow>
          (case sp_uses s of
             Some u \<Rightarrow> u
           | None \<Rightarrow>
               (case sp_run s of
                  Some r \<Rightarrow>
                    truncate (trim (case find (\<lambda>l. trim l \<noteq> []) (str_lines r) of
                                      Some l \<Rightarrow> l | None \<Rightarrow> [])) 60
                | None \<Rightarrow> ''step '' @ nat_str (index + 1))))"

record strategy =
  sg_matrix :: "yaml option"
  sg_max_parallel :: "nat option"
  sg_fail_fast :: bool

record job =
  jb_name :: "string option"
  jb_uses :: "string option"
  jb_vm :: vm_spec
  jb_needs :: "string list"
  jb_condition :: "string option"
  jb_strategy :: "strategy option"
  jb_env :: "string bmap"
  jb_outputs :: "string bmap"
  jb_continue_on_error :: bool
  jb_timeout_minutes :: "nat option"
  jb_fallback :: fallback
  jb_steps :: "step list"

definition job_target :: "job \<Rightarrow> (workflow_error, target) result" where
  "job_target j = (case jb_uses j of Some u \<Rightarrow> target_parse u | None \<Rightarrow> Ok target_any)"

section \<open>Submit filters\<close>

record submit_filter =
  sf_branches :: "string list"
  sf_branches_ignore :: "string list"
  sf_paths :: "string list"
  sf_paths_ignore :: "string list"

definition default_filter :: submit_filter where
  "default_filter =
     \<lparr>sf_branches = [], sf_branches_ignore = [], sf_paths = [], sf_paths_ignore = []\<rparr>"

definition validate_filter :: "string \<Rightarrow> submit_filter \<Rightarrow> (workflow_error, unit) result" where
  "validate_filter path f =
     (if sf_paths f \<noteq> [] \<and> sf_paths_ignore f \<noteq> []
        then Err (ConflictingFilter path ''paths'' ''paths-ignore'')
      else if sf_branches f \<noteq> [] \<and> sf_branches_ignore f \<noteq> []
        then Err (ConflictingFilter path ''branches'' ''branches-ignore'')
      else
        check_all
          (\<lambda>(field, patterns).
             check_all (\<lambda>p. map_err (BadFilter path field) (validate p)) patterns)
          [(''branches'', sf_branches f), (''branches-ignore'', sf_branches_ignore f),
           (''paths'', sf_paths f), (''paths-ignore'', sf_paths_ignore f)])"

text \<open>The reason a submit is declined.\<close>

datatype decline =
    BranchNotIn string "string list"
  | BranchIgnored string string
  | NothingChanged "string list" changes
  | AllIgnored "string list"

definition admits :: "submit_filter \<Rightarrow> string \<Rightarrow> changes \<Rightarrow> (decline, unit) result" where
  "admits f branch ch =
     (if sf_branches f \<noteq> [] \<and> \<not> list_ex (\<lambda>p. path_matches p branch) (sf_branches f)
        then Err (BranchNotIn branch (sf_branches f))
      else
        (case find (\<lambda>p. path_matches p branch) (sf_branches_ignore f) of
           Some hit \<Rightarrow> Err (BranchIgnored branch hit)
         | None \<Rightarrow>
             if sf_paths f \<noteq> [] \<and> \<not> matches_any ch (sf_paths f)
               then Err (NothingChanged (sf_paths f) ch)
             else if all_match ch (sf_paths_ignore f) then Err (AllIgnored (sf_paths_ignore f))
             else Ok ()))"

section \<open>The workflow file\<close>

record workflow =
  wf_path :: string
  wf_name :: "string option"
  wf_on :: "string list"
  wf_on_submit :: submit_filter
  wf_env :: "string bmap"
  wf_jobs :: "(string \<times> job) list"

record workflow_header =
  wh_name :: "string option"
  wh_on :: "yaml option"
  wh_env :: "string bmap"
  wh_jobs :: yaml

record yaml_lib =
  header_from_str :: "string \<Rightarrow> (string, workflow_header) result"
  job_from_value :: "yaml \<Rightarrow> (string, job) result"
  filter_from_value :: "yaml \<Rightarrow> (string, submit_filter) result"
  yaml_debug :: "yaml \<Rightarrow> string"

fun yaml_str :: "yaml \<Rightarrow> string option" where
  "yaml_str (YStr s) = Some s"
| "yaml_str _ = None"

definition is_job_id :: "string \<Rightarrow> bool" where
  "is_job_id s \<longleftrightarrow> s \<noteq> [] \<and> length s \<le> 64 \<and> list_all is_token_char s"

definition submit_filter_of :: "yaml_lib \<Rightarrow> string \<Rightarrow> yaml \<Rightarrow> (workflow_error, submit_filter) result" where
  "submit_filter_of Y path v =
     (case v of
        YMap m \<Rightarrow>
          (case find (\<lambda>(k, _). yaml_str k = Some ''submit'') m of
             None \<Rightarrow> Ok default_filter
           | Some (_, block) \<Rightarrow>
               if block = YNull then Ok default_filter
               else map_err (BadTriggerBlock path) (filter_from_value Y block))
      | _ \<Rightarrow> Ok default_filter)"

definition trigger_names :: "yaml \<Rightarrow> string list" where
  "trigger_names v =
     (case v of
        YStr s \<Rightarrow> [s]
      | YSeq items \<Rightarrow> List.map_filter yaml_str items
      | YMap m \<Rightarrow> List.map_filter (\<lambda>(k, _). yaml_str k) m
      | _ \<Rightarrow> [])"

subsection \<open>Cycles among needs\<close>

datatype mark = Open | Done

type_synonym deps = "string \<rightharpoonup> string list"
type_synonym dfs_state = "(string \<rightharpoonup> mark) \<times> string list"

definition deps_of :: "(string \<times> job) list \<Rightarrow> deps" where
  "deps_of jobs = (\<lambda>x. map_option jb_needs (map_of (rev jobs) x))"

text \<open>\<^verbatim>\<open>stack.iter().position(\<dots>).unwrap_or(0)\<close>.\<close>

definition position_or_0 :: "string \<Rightarrow> string list \<Rightarrow> nat" where
  "position_or_0 x xs =
     (let n = length (takeWhile (\<lambda>y. y \<noteq> x) xs) in if n < length xs then n else 0)"

text \<open>The result of a visit: a cycle (\<open>Err\<close>) or the new marks and stack; \<open>None\<close> is a recursion
  deeper than the fuel. \<open>visit_needs\<close> is the loop over the needs of a node.\<close>

fun visit_needs ::
    "(string \<Rightarrow> dfs_state \<Rightarrow> (string list, dfs_state) result option) \<Rightarrow> deps \<Rightarrow> string list
     \<Rightarrow> dfs_state \<Rightarrow> (string list, dfs_state) result option" where
  "visit_needs rec deps [] st = Some (Ok st)"
| "visit_needs rec deps (n # ns) st =
     (if deps n = None then visit_needs rec deps ns st
      else (case rec n st of
              None \<Rightarrow> None
            | Some (Err c) \<Rightarrow> Some (Err c)
            | Some (Ok st') \<Rightarrow> visit_needs rec deps ns st'))"

primrec visit :: "deps \<Rightarrow> nat \<Rightarrow> string \<Rightarrow> dfs_state \<Rightarrow> (string list, dfs_state) result option" where
  "visit deps 0 node st = None"
| "visit deps (Suc fuel) node st =
     (case fst st node of
        Some Done \<Rightarrow> Some (Ok st)
      | Some Open \<Rightarrow> Some (Err (drop (position_or_0 node (snd st)) (snd st) @ [node]))
      | None \<Rightarrow>
          (case visit_needs (visit deps fuel) deps
                  (case deps node of Some ns \<Rightarrow> ns | None \<Rightarrow> [])
                  ((fst st)(node \<mapsto> Open), snd st @ [node]) of
             Some (Ok (marks, stack)) \<Rightarrow> Some (Ok (marks(node \<mapsto> Done), butlast stack))
           | r \<Rightarrow> r))"

definition find_cycle_fuel :: "(string \<times> job) list \<Rightarrow> (string list, dfs_state) result option" where
  "find_cycle_fuel jobs =
     visit_needs (visit (deps_of jobs) (Suc (length jobs))) (deps_of jobs) (map fst jobs)
       (Map.empty, [])"

definition find_cycle :: "(string \<times> job) list \<Rightarrow> string list option" where
  "find_cycle jobs = (case the (find_cycle_fuel jobs) of Err c \<Rightarrow> Some c | Ok _ \<Rightarrow> None)"

subsection \<open>Validation\<close>

definition validate_need :: "string list \<Rightarrow> string \<Rightarrow> string \<Rightarrow> (workflow_error, unit) result" where
  "validate_need ids jid need =
     (if need \<notin> set ids then Err (UnknownNeed jid need)
      else if need = jid then Err (SelfNeed jid)
      else Ok ())"

definition validate_step :: "string \<Rightarrow> nat \<times> step \<Rightarrow> (workflow_error, unit) result" where
  "validate_step jid = (\<lambda>(i, s).
     (case (sp_run s, sp_uses s) of
        (Some _, Some _) \<Rightarrow> Err (StepRunAndUses jid (step_label s i))
      | (None, None) \<Rightarrow> Err (StepNeitherRunNorUses jid (step_label s i))
      | _ \<Rightarrow> Ok ()))"

definition validate_job :: "string list \<Rightarrow> string \<times> job \<Rightarrow> (workflow_error, unit) result" where
  "validate_job ids = (\<lambda>(jid, j).
     if \<not> is_job_id jid then Err (BadJobId jid)
     else
       and_then (map_err (BadVm jid) (validate_vm (jb_vm j)))
         (\<lambda>_. and_then (map_err (BadUses jid) (job_target j))
           (\<lambda>_. and_then (check_all (validate_need ids jid) (jb_needs j))
             (\<lambda>_. if jb_steps j = [] then Err (NoSteps jid)
                  else check_all (validate_step jid) (enumerate 0 (jb_steps j))))))"

definition validate_workflow :: "workflow \<Rightarrow> (workflow_error, unit) result" where
  "validate_workflow w =
     (let ids = map fst (wf_jobs w) in
      if \<not> distinct ids then Err (DuplicateJob (wf_path w))
      else
        and_then (check_all (validate_job ids) (wf_jobs w))
          (\<lambda>_. case find_cycle (wf_jobs w) of Some c \<Rightarrow> Err (Cycle c) | None \<Rightarrow> Ok ()))"

definition read_job ::
    "yaml_lib \<Rightarrow> string \<Rightarrow> yaml \<times> yaml \<Rightarrow> (workflow_error, string \<times> job) result" where
  "read_job Y path = (\<lambda>(key, value).
     and_then (ok_or (BadJobId (yaml_debug Y key)) (yaml_str key))
       (\<lambda>jid. and_then (map_err (BadJob path jid) (job_from_value Y value))
          (\<lambda>j. Ok (jid, j))))"

definition parse_workflow :: "yaml_lib \<Rightarrow> string \<Rightarrow> string \<Rightarrow> (workflow_error, workflow) result" where
  "parse_workflow Y path text =
     and_then (map_err (Yaml path) (header_from_str Y text))
       (\<lambda>h. case wh_jobs h of
          YMap mapping \<Rightarrow>
            if mapping = [] then Err (NoJobs path)
            else
              and_then (map_result (read_job Y path) mapping)
                (\<lambda>jobs. and_then
                   (case wh_on h of
                      None \<Rightarrow> Ok ([''submit''], default_filter)
                    | Some v \<Rightarrow>
                        and_then (submit_filter_of Y path v) (\<lambda>f. Ok (trigger_names v, f)))
                   (\<lambda>(on, on_submit). and_then (validate_filter path on_submit)
                      (\<lambda>_. let w = \<lparr>wf_path = path, wf_name = wh_name h, wf_on = on,
                                     wf_on_submit = on_submit, wf_env = wh_env h, wf_jobs = jobs\<rparr>
                           in and_then (validate_workflow w) (\<lambda>_. Ok w))))
        | _ \<Rightarrow> Err (NoJobs path))"

definition display_name :: "workflow \<Rightarrow> string" where
  "display_name w = (case wf_name w of Some n \<Rightarrow> n | None \<Rightarrow> wf_path w)"

section \<open>The search finds a cycle exactly when there is one\<close>

definition needs_edge :: "deps \<Rightarrow> string \<Rightarrow> string \<Rightarrow> bool" where
  "needs_edge d x y \<longleftrightarrow> (\<exists>ns. d x = Some ns \<and> y \<in> set ns \<and> d y \<noteq> None)"

abbreviation grounded :: "deps \<Rightarrow> string \<Rightarrow> bool" where
  "grounded d \<equiv> Wellfounded.accp (\<lambda>y x. needs_edge d x y)"

definition is_cycle :: "deps \<Rightarrow> string list \<Rightarrow> bool" where
  "is_cycle d c \<longleftrightarrow> 2 \<le> length c \<and> hd c = last c \<and> successively (needs_edge d) c"

subsection \<open>Finished nodes lie on no cycle\<close>

definition done_grounded :: "deps \<Rightarrow> (string \<rightharpoonup> mark) \<Rightarrow> bool" where
  "done_grounded d m \<longleftrightarrow> (\<forall>x. m x = Some Done \<longrightarrow> grounded d x)"

definition done_le :: "(string \<rightharpoonup> mark) \<Rightarrow> (string \<rightharpoonup> mark) \<Rightarrow> bool" where
  "done_le m m' \<longleftrightarrow> (\<forall>x. m x = Some Done \<longrightarrow> m' x = Some Done)"

definition visit_sound :: "deps \<Rightarrow> (string \<Rightarrow> dfs_state \<Rightarrow> (string list, dfs_state) result option) \<Rightarrow> bool" where
  "visit_sound d rec \<longleftrightarrow> (\<forall>node m s m' s'.
     done_grounded d m \<longrightarrow> rec node (m, s) = Some (Ok (m', s')) \<longrightarrow>
     done_grounded d m' \<and> m' node = Some Done \<and> done_le m m')"

lemma visit_needs_sound:
  assumes "visit_sound d rec" "done_grounded d m"
    "visit_needs rec d ns (m, s) = Some (Ok (m', s'))"
  shows "done_grounded d m' \<and> done_le m m' \<and> (\<forall>n\<in>set ns. d n \<noteq> None \<longrightarrow> m' n = Some Done)"
  using assms(2,3)
proof (induction ns arbitrary: m s)
  case (Cons n ns)
  show ?case
  proof (cases "d n")
    case None
    with Cons show ?thesis by simp
  next
    case (Some k)
    with Cons.prems obtain m1 s1 where rec: "rec n (m, s) = Some (Ok (m1, s1))"
      and rest: "visit_needs rec d ns (m1, s1) = Some (Ok (m', s'))"
      by (auto split: option.splits result.splits)
    with assms(1) Cons.prems(1) have "done_grounded d m1" "m1 n = Some Done" "done_le m m1"
      unfolding visit_sound_def by blast+
    with Cons.IH [OF _ rest] show ?thesis by (auto simp: done_le_def)
  qed
qed (simp add: done_le_def)

lemma visit_visit_sound: "visit_sound d (visit d n)"
proof (induction n)
  case 0
  then show ?case by (simp add: visit_sound_def)
next
  case (Suc n)
  have "done_grounded d m' \<and> m' node = Some Done \<and> done_le m m'"
    if dg: "done_grounded d m" and v: "visit d (Suc n) node (m, s) = Some (Ok (m', s'))"
    for node m s m' s'
  proof (cases "m node")
    case None
    let ?ns = "case d node of Some ns \<Rightarrow> ns | None \<Rightarrow> []"
    from None v obtain m1 s1
      where loop: "visit_needs (visit d n) d ?ns (m(node \<mapsto> Open), s @ [node]) = Some (Ok (m1, s1))"
        and m': "m' = m1(node \<mapsto> Done)"
      by (auto split: option.splits result.splits)
    have dg0: "done_grounded d (m(node \<mapsto> Open))" using dg by (simp add: done_grounded_def)
    from visit_needs_sound [OF Suc dg0 loop]
    have dg1: "done_grounded d m1" and le: "done_le (m(node \<mapsto> Open)) m1"
      and ns: "\<forall>k\<in>set ?ns. d k \<noteq> None \<longrightarrow> m1 k = Some Done" by auto
    have "grounded d node"
    proof (rule accp.accI)
      fix y assume "needs_edge d node y"
      with ns have "m1 y = Some Done" by (auto simp: needs_edge_def)
      with dg1 show "grounded d y" by (simp add: done_grounded_def)
    qed
    with dg1 le None m' show ?thesis by (auto simp: done_grounded_def done_le_def)
  next
    case (Some mk)
    with dg v show ?thesis by (cases mk) (auto simp: done_le_def)
  qed
  then show ?case unfolding visit_sound_def by blast
qed

subsection \<open>A reported cycle is a cycle\<close>

definition path_inv :: "deps \<Rightarrow> (string \<rightharpoonup> mark) \<Rightarrow> string list \<Rightarrow> bool" where
  "path_inv d m s \<longleftrightarrow> (\<forall>x. m x = Some Open \<longleftrightarrow> x \<in> set s) \<and> successively (needs_edge d) s"

abbreviation extends :: "deps \<Rightarrow> string list \<Rightarrow> string \<Rightarrow> bool" where
  "extends d s node \<equiv> s = [] \<or> needs_edge d (last s) node"

definition visit_path :: "deps \<Rightarrow> (string \<Rightarrow> dfs_state \<Rightarrow> (string list, dfs_state) result option) \<Rightarrow> bool" where
  "visit_path d rec \<longleftrightarrow> (\<forall>node m s. path_inv d m s \<longrightarrow> extends d s node \<longrightarrow>
     (\<forall>m' s'. rec node (m, s) = Some (Ok (m', s')) \<longrightarrow> s' = s \<and> path_inv d m' s) \<and>
     (\<forall>c. rec node (m, s) = Some (Err c) \<longrightarrow> is_cycle d c))"

lemma visit_needs_path:
  assumes "visit_path d rec" "path_inv d m s" "\<forall>n\<in>set ns. d n \<noteq> None \<longrightarrow> extends d s n"
  shows "(\<forall>m' s'. visit_needs rec d ns (m, s) = Some (Ok (m', s')) \<longrightarrow> s' = s \<and> path_inv d m' s)
    \<and> (\<forall>c. visit_needs rec d ns (m, s) = Some (Err c) \<longrightarrow> is_cycle d c)"
  using assms(2,3)
proof (induction ns arbitrary: m)
  case (Cons n ns)
  show ?case
  proof (cases "d n")
    case None
    with Cons show ?thesis by simp
  next
    case (Some k)
    with Cons.prems have ext: "extends d s n" by simp
    with assms(1) Cons.prems(1)
    have ok: "\<And>m1 s1. rec n (m, s) = Some (Ok (m1, s1)) \<Longrightarrow> s1 = s \<and> path_inv d m1 s"
      and err: "\<And>c. rec n (m, s) = Some (Err c) \<Longrightarrow> is_cycle d c"
      unfolding visit_path_def by blast+
    show ?thesis
    proof (cases "rec n (m, s)")
      case None
      with Some show ?thesis by simp
    next
      case (Some r)
      show ?thesis
      proof (cases r)
        case (Err c)
        with Some \<open>d n = Some k\<close> err show ?thesis by simp
      next
        case (Ok st)
        obtain m1 s1 where "st = (m1, s1)" by (cases st)
        with Ok Some ok have "s1 = s" "path_inv d m1 s" by auto
        with Cons.IH [of m1] Cons.prems(2) Some Ok \<open>st = _\<close> \<open>d n = Some k\<close> show ?thesis by simp
      qed
    qed
  qed
qed simp

lemma position_or_0_nth: "x \<in> set xs \<Longrightarrow> position_or_0 x xs < length xs \<and> xs ! position_or_0 x xs = x"
proof -
  have "x \<in> set xs \<Longrightarrow> length (takeWhile (\<lambda>y. y \<noteq> x) xs) < length xs
      \<and> xs ! length (takeWhile (\<lambda>y. y \<noteq> x) xs) = x"
    by (induction xs) auto
  then show "x \<in> set xs \<Longrightarrow> ?thesis" by (simp add: position_or_0_def)
qed

lemma is_cycle_open:
  assumes "path_inv d m s" "extends d s node" "m node = Some Open"
  shows "is_cycle d (drop (position_or_0 node s) s @ [node])"
proof -
  let ?k = "position_or_0 node s"
  from assms have mem: "node \<in> set s" and succ: "successively (needs_edge d) s"
    by (auto simp: path_inv_def)
  then have k: "?k < length s" "s ! ?k = node" using position_or_0_nth by auto
  from succ have "successively (needs_edge d) (take ?k s @ drop ?k s)" by simp
  then have dr: "successively (needs_edge d) (drop ?k s)"
    by (simp only: successively_append_iff)
  have ne: "drop ?k s \<noteq> []" and last: "last (drop ?k s) = last s" and hd: "hd (drop ?k s) = node"
    using k by (auto simp: hd_drop_conv_nth)
  have "needs_edge d (last s) node" using assms(2) mem by auto
  with dr ne last have "successively (needs_edge d) (drop ?k s @ [node])"
    by (simp add: successively_append_iff)
  with ne hd k show ?thesis by (simp add: is_cycle_def)
qed

lemma visit_visit_path: "visit_path d (visit d n)"
proof (induction n)
  case 0
  then show ?case by (simp add: visit_path_def)
next
  case (Suc n)
  have "(\<forall>m' s'. visit d (Suc n) node (m, s) = Some (Ok (m', s')) \<longrightarrow> s' = s \<and> path_inv d m' s)
      \<and> (\<forall>c. visit d (Suc n) node (m, s) = Some (Err c) \<longrightarrow> is_cycle d c)"
    if pi: "path_inv d m s" and ext: "extends d s node" for node m s
  proof (cases "m node")
    case None
    let ?ns = "case d node of Some ns \<Rightarrow> ns | None \<Rightarrow> []"
    let ?r = "visit_needs (visit d n) d ?ns (m(node \<mapsto> Open), s @ [node])"
    have pi0: "path_inv d (m(node \<mapsto> Open)) (s @ [node])"
      using pi ext by (auto simp: path_inv_def successively_append_iff)
    have ext0: "\<forall>k\<in>set ?ns. d k \<noteq> None \<longrightarrow> extends d (s @ [node]) k"
      by (cases "d node") (auto simp: needs_edge_def)
    note loop = visit_needs_path [OF Suc pi0 ext0]
    have notin: "node \<notin> set s" using pi None by (metis option.distinct(1) path_inv_def)
    have fin: "path_inv d (m1(node \<mapsto> Done)) s" if "path_inv d m1 (s @ [node])" for m1
      using that notin by (auto simp: path_inv_def successively_append_iff)
    show ?thesis
      using None loop fin fin [of "m(node \<mapsto> Open)", OF pi0] by (auto split: option.splits result.splits)
  next
    case (Some mk)
    with pi ext is_cycle_open [OF pi ext] show ?thesis by (cases mk) auto
  qed
  then show ?case unfolding visit_path_def by blast
qed

subsection \<open>The fuel is enough\<close>

definition unmarked :: "deps \<Rightarrow> (string \<rightharpoonup> mark) \<Rightarrow> string set" where
  "unmarked d m = dom d - dom m"

definition visit_returns ::
    "deps \<Rightarrow> nat \<Rightarrow> (string \<Rightarrow> dfs_state \<Rightarrow> (string list, dfs_state) result option) \<Rightarrow> bool" where
  "visit_returns d k rec \<longleftrightarrow> (\<forall>node m s. d node \<noteq> None \<longrightarrow> card (unmarked d m) < k \<longrightarrow>
     rec node (m, s) \<noteq> None \<and>
     (\<forall>m' s'. rec node (m, s) = Some (Ok (m', s')) \<longrightarrow> dom m \<subseteq> dom m'))"

lemma visit_needs_returns:
  assumes fin: "finite (dom d)" and rec: "visit_returns d k rec"
  shows "card (unmarked d m) < k \<Longrightarrow> visit_needs rec d ns (m, s) \<noteq> None \<and>
     (\<forall>m' s'. visit_needs rec d ns (m, s) = Some (Ok (m', s')) \<longrightarrow> dom m \<subseteq> dom m')"
proof (induction ns arbitrary: m s)
  case (Cons n ns)
  show ?case
  proof (cases "d n")
    case None
    with Cons show ?thesis by simp
  next
    case (Some j)
    with rec Cons.prems obtain r where r: "rec n (m, s) = Some r"
      and dm: "\<And>m1 s1. r = Ok (m1, s1) \<Longrightarrow> dom m \<subseteq> dom m1"
      unfolding visit_returns_def by blast
    show ?thesis
    proof (cases r)
      case (Err c)
      with r Some show ?thesis by simp
    next
      case (Ok st)
      obtain m1 s1 where st: "st = (m1, s1)" by (cases st)
      with dm Ok have sub: "dom m \<subseteq> dom m1" by simp
      then have "unmarked d m1 \<subseteq> unmarked d m" by (auto simp: unmarked_def)
      with fin have "card (unmarked d m1) \<le> card (unmarked d m)"
        by (intro card_mono) (auto simp: unmarked_def)
      with Cons.IH [of m1 s1] Cons.prems
      have "visit_needs rec d ns (m1, s1) \<noteq> None"
        and "\<And>m' s'. visit_needs rec d ns (m1, s1) = Some (Ok (m', s')) \<Longrightarrow> dom m1 \<subseteq> dom m'"
        by auto
      with sub r Ok st Some show ?thesis by (simp del: not_None_eq) blast
    qed
  qed
qed simp

lemma visit_visit_returns: "finite (dom d) \<Longrightarrow> visit_returns d n (visit d n)"
proof (induction n)
  case 0
  then show ?case by (simp add: visit_returns_def)
next
  case (Suc n)
  have "visit d (Suc n) node (m, s) \<noteq> None \<and>
      (\<forall>m' s'. visit d (Suc n) node (m, s) = Some (Ok (m', s')) \<longrightarrow> dom m \<subseteq> dom m')"
    if node: "d node \<noteq> None" and c: "card (unmarked d m) < Suc n" for node m s
  proof (cases "m node")
    case None
    let ?ns = "case d node of Some ns \<Rightarrow> ns | None \<Rightarrow> []"
    have "unmarked d (m(node \<mapsto> Open)) = unmarked d m - {node}" and "node \<in> unmarked d m"
      using node None by (auto simp: unmarked_def)
    moreover have "finite (unmarked d m)" using Suc.prems by (simp add: unmarked_def)
    ultimately have "card (unmarked d (m(node \<mapsto> Open))) < n"
      using c card_Diff1_less [of "unmarked d m" node] by simp
    from visit_needs_returns [OF Suc.prems Suc.IH [OF Suc.prems] this, of ?ns "s @ [node]"]
    show ?thesis
      using None by (auto split: option.splits result.splits)
  next
    case (Some mk)
    then show ?thesis by (cases mk) auto
  qed
  then show ?case unfolding visit_returns_def by blast
qed

lemma dom_deps_of: "dom (deps_of jobs) = fst ` set jobs"
proof -
  have "dom (deps_of jobs) = dom (map_of (rev jobs))" by (auto simp: deps_of_def dom_def)
  then show ?thesis by (simp add: dom_map_of_conv_image_fst)
qed

lemma deps_of_distinct:
  assumes "distinct (map fst jobs)" "(x, j) \<in> set jobs"
  shows "deps_of jobs x = Some (jb_needs j)"
proof -
  from assms have "map_of (rev jobs) x = Some j" by (intro map_of_is_SomeI) (auto simp: rev_map [symmetric])
  then show ?thesis by (simp add: deps_of_def)
qed

lemma find_cycle_fuel_cases:
  obtains (cycle) c where "find_cycle_fuel jobs = Some (Err c)" "is_cycle (deps_of jobs) c"
  | (no_cycle) st where "find_cycle_fuel jobs = Some (Ok st)" "\<forall>x\<in>fst ` set jobs. grounded (deps_of jobs) x"
proof -
  let ?d = "deps_of jobs" and ?n = "Suc (length jobs)"
  have fin: "finite (dom ?d)" by (simp add: dom_deps_of)
  have "card (unmarked ?d Map.empty) < ?n"
    using card_image_le [of "set jobs" fst] card_length [of jobs]
    by (simp add: unmarked_def dom_deps_of)
  from visit_needs_returns [OF fin visit_visit_returns [OF fin] this]
  have "find_cycle_fuel jobs \<noteq> None" unfolding find_cycle_fuel_def by blast
  then obtain r where r: "find_cycle_fuel jobs = Some r" by blast
  show ?thesis
  proof (cases r)
    case (Err c)
    have "path_inv ?d Map.empty []" by (simp add: path_inv_def)
    from visit_needs_path [OF visit_visit_path this, of "map fst jobs"] r Err
    show ?thesis by (intro cycle [of c]) (auto simp: find_cycle_fuel_def)
  next
    case (Ok st)
    obtain m s where st: "st = (m, s)" by (cases st)
    have "done_grounded ?d Map.empty" by (simp add: done_grounded_def)
    from visit_needs_sound [OF visit_visit_sound this r [unfolded find_cycle_fuel_def Ok st]]
    have "\<forall>x\<in>set (map fst jobs). grounded ?d x"
      using dom_deps_of [of jobs] by (auto simp: done_grounded_def dom_def)
    with r Ok show ?thesis by (intro no_cycle [of st]) auto
  qed
qed

lemma grounded_no_cycle:
  assumes "grounded d x"
  shows "\<not> (needs_edge d)\<^sup>+\<^sup>+ x x"
  using assms
proof (rule accp_induct)
  fix x
  assume IH: "\<forall>y. needs_edge d x y \<longrightarrow> \<not> (needs_edge d)\<^sup>+\<^sup>+ y y"
  show "\<not> (needs_edge d)\<^sup>+\<^sup>+ x x"
  proof
    assume "(needs_edge d)\<^sup>+\<^sup>+ x x"
    then obtain y where "needs_edge d x y" "(needs_edge d)\<^sup>*\<^sup>* y x"
      by (metis tranclpD)
    then have "(needs_edge d)\<^sup>+\<^sup>+ y y" by (metis rtranclp_into_tranclp1)
    with IH \<open>needs_edge d x y\<close> show False by blast
  qed
qed

lemma successively_rtranclp:
  "successively r xs \<Longrightarrow> xs \<noteq> [] \<Longrightarrow> r\<^sup>*\<^sup>* (hd xs) (last xs)"
proof (induction xs rule: induct_list012)
  case (3 x y zs)
  then show ?case by (auto intro: converse_rtranclp_into_rtranclp)
qed auto

lemma is_cycle_tranclp: "is_cycle d c \<Longrightarrow> (needs_edge d)\<^sup>+\<^sup>+ (hd c) (hd c)"
proof -
  assume A: "is_cycle d c"
  then obtain x y zs where c: "c = x # y # zs"
    by (cases c rule: list.exhaust; cases "tl c") (auto simp: is_cycle_def)
  with A have "needs_edge d x y" and "successively (needs_edge d) (y # zs)" and "last (y # zs) = x"
    by (auto simp: is_cycle_def)
  with successively_rtranclp [of "needs_edge d" "y # zs"]
  have "needs_edge d x y" "(needs_edge d)\<^sup>*\<^sup>* y x" by auto
  then show ?thesis by (simp add: c rtranclp_into_tranclp2)
qed

lemma find_cycle_Some: "find_cycle jobs = Some c \<Longrightarrow> is_cycle (deps_of jobs) c"
  by (cases rule: find_cycle_fuel_cases [of jobs]) (auto simp: find_cycle_def)

lemma find_cycle_None: "find_cycle jobs = None \<longleftrightarrow> (\<forall>x\<in>fst ` set jobs. grounded (deps_of jobs) x)"
proof (cases rule: find_cycle_fuel_cases [of jobs])
  case (cycle c)
  then have "(needs_edge (deps_of jobs))\<^sup>+\<^sup>+ (hd c) (hd c)" by (simp add: is_cycle_tranclp)
  moreover from this have "hd c \<in> fst ` set jobs"
    by (metis dom_deps_of domI needs_edge_def tranclpD)
  ultimately have "\<not> (\<forall>x\<in>fst ` set jobs. grounded (deps_of jobs) x)"
    by (metis grounded_no_cycle)
  with cycle(1) show ?thesis by (simp add: find_cycle_def)
qed (simp add: find_cycle_def)

section \<open>Properties\<close>

text \<open>A small job for concrete instances.\<close>

definition sample_step :: step where
  "sample_step = \<lparr>sp_name = None, sp_id = None, sp_condition = None, sp_uses = None, sp_with = [],
     sp_run = Some ''make'', sp_shell = None, sp_working_directory = None, sp_env = [],
     sp_timeout_minutes = None, sp_continue_on_error = False\<rparr>"

definition sample_job :: job where
  "sample_job = \<lparr>jb_name = None, jb_uses = None, jb_vm = sample_vm, jb_needs = [],
     jb_condition = None, jb_strategy = None, jb_env = [], jb_outputs = [],
     jb_continue_on_error = False, jb_timeout_minutes = None, jb_fallback = FallbackNone,
     jb_steps = [sample_step]\<rparr>"

text \<open>The search for a cycle among \<^verbatim>\<open>needs\<close> always ends; it reports nothing exactly when no job
  depends on itself through any chain of needs, and what it reports is such a chain, closed.\<close>

theorem find_cycle_correct:
  "(\<exists>r. find_cycle_fuel jobs = Some r)
   \<and> (find_cycle jobs = None \<longleftrightarrow> \<not> (\<exists>x. (needs_edge (deps_of jobs))\<^sup>+\<^sup>+ x x))
   \<and> (\<forall>c. find_cycle jobs = Some c \<longrightarrow> is_cycle (deps_of jobs) c)"
proof (intro conjI)
  let ?e = "needs_edge (deps_of jobs)"
  show "\<exists>r. find_cycle_fuel jobs = Some r"
    by (cases rule: find_cycle_fuel_cases [of jobs]) auto
  show "find_cycle jobs = None \<longleftrightarrow> \<not> (\<exists>x. ?e\<^sup>+\<^sup>+ x x)"
  proof
    assume "find_cycle jobs = None"
    then have all: "\<forall>x\<in>fst ` set jobs. \<not> ?e\<^sup>+\<^sup>+ x x"
      by (simp add: find_cycle_None grounded_no_cycle)
    have "x \<in> fst ` set jobs" if "?e\<^sup>+\<^sup>+ x x" for x
      using that by (metis dom_deps_of domI needs_edge_def tranclpD)
    with all show "\<not> (\<exists>x. ?e\<^sup>+\<^sup>+ x x)" by blast
  next
    assume "\<not> (\<exists>x. ?e\<^sup>+\<^sup>+ x x)"
    then show "find_cycle jobs = None"
      using find_cycle_Some is_cycle_tranclp by (metis option.exhaust)
  qed
qed (simp add: find_cycle_Some)

theorem find_cycle_correct_witness:
  "\<exists>c. find_cycle [(''a'', sample_job\<lparr>jb_needs := [''b'']\<rparr>), (''b'', sample_job\<lparr>jb_needs := [''a'']\<rparr>)] = Some c
     \<and> is_cycle (deps_of [(''a'', sample_job\<lparr>jb_needs := [''b'']\<rparr>), (''b'', sample_job\<lparr>jb_needs := [''a'']\<rparr>)]) c"
proof -
  let ?jobs = "[(''a'', sample_job\<lparr>jb_needs := [''b'']\<rparr>), (''b'', sample_job\<lparr>jb_needs := [''a'']\<rparr>)]"
  have "find_cycle ?jobs = Some [''a'', ''b'', ''a'']"
    by (simp add: find_cycle_def find_cycle_fuel_def deps_of_def position_or_0_def)
  with find_cycle_correct [of ?jobs] show ?thesis by blast
qed

lemma validate_need_all:
  "(\<forall>n\<in>set ns. validate_need ids jid n = Ok ()) \<longleftrightarrow> set ns \<subseteq> set ids \<and> jid \<notin> set ns"
  by (auto simp: validate_need_def split: if_splits)

lemma validate_step_Ok: "validate_step jid (i, s) = Ok () \<longleftrightarrow> (sp_run s = None) \<noteq> (sp_uses s = None)"
  by (auto simp: validate_step_def split: option.splits)

lemma validate_workflow_Ok:
  "validate_workflow w = Ok () \<longleftrightarrow>
     distinct (map fst (wf_jobs w))
     \<and> (\<forall>(jid, j)\<in>set (wf_jobs w).
          is_job_id jid \<and> validate_vm (jb_vm j) = Ok () \<and> is_ok (job_target j)
          \<and> set (jb_needs j) \<subseteq> fst ` set (wf_jobs w) \<and> jid \<notin> set (jb_needs j)
          \<and> jb_steps j \<noteq> []
          \<and> (\<forall>s\<in>set (jb_steps j). (sp_run s = None) \<noteq> (sp_uses s = None)))
     \<and> find_cycle (wf_jobs w) = None"
proof -
  have steps: "(\<forall>x\<in>set (enumerate 0 ss). validate_step jid x = Ok ()) \<longleftrightarrow>
      (\<forall>s\<in>set ss. (sp_run s = None) \<noteq> (sp_uses s = None))" for jid ss
  proof -
    have "(\<forall>x\<in>set (enumerate 0 ss). validate_step jid x = Ok ()) \<longleftrightarrow>
        (\<forall>s\<in>set (map snd (enumerate 0 ss)). (sp_run s = None) \<noteq> (sp_uses s = None))"
      using validate_step_Ok by (force simp del: map_snd_enumerate)
    then show ?thesis by simp
  qed
  have job: "validate_job ids (jid, j) = Ok () \<longleftrightarrow>
      is_job_id jid \<and> validate_vm (jb_vm j) = Ok () \<and> is_ok (job_target j)
      \<and> set (jb_needs j) \<subseteq> set ids \<and> jid \<notin> set (jb_needs j) \<and> jb_steps j \<noteq> []
      \<and> (\<forall>s\<in>set (jb_steps j). (sp_run s = None) \<noteq> (sp_uses s = None))" for ids jid j
    by (simp add: validate_job_def validate_need_all steps is_ok_iff)
  have jobs: "(\<forall>x\<in>set xs. validate_job ids x = Ok ()) \<longleftrightarrow>
      (\<forall>(jid, j)\<in>set xs. is_job_id jid \<and> validate_vm (jb_vm j) = Ok () \<and> is_ok (job_target j)
      \<and> set (jb_needs j) \<subseteq> set ids \<and> jid \<notin> set (jb_needs j) \<and> jb_steps j \<noteq> []
      \<and> (\<forall>s\<in>set (jb_steps j). (sp_run s = None) \<noteq> (sp_uses s = None)))" for ids xs
    by (intro ball_cong refl) (simp add: job split: prod.split)
  show ?thesis
    by (simp add: validate_workflow_def Let_def jobs split: option.split)
qed



text \<open>Filters fail open. A submit whose changed paths are unknown is decided by its branch
  alone; a submit with known paths must in addition touch some \<^verbatim>\<open>paths\<close> pattern when there are
  any, and must touch something outside \<^verbatim>\<open>paths-ignore\<close> unless it changed nothing.\<close>

theorem admits_iff:
  "admits f branch ch = Ok () \<longleftrightarrow>
     (sf_branches f = [] \<or> list_ex (\<lambda>p. path_matches p branch) (sf_branches f))
     \<and> \<not> list_ex (\<lambda>p. path_matches p branch) (sf_branches_ignore f)
     \<and> (case ch of
          Unknown _ \<Rightarrow> True
        | Known ps \<Rightarrow>
            (sf_paths f = [] \<or> list_ex (\<lambda>pat. list_ex (path_matches pat) ps) (sf_paths f))
            \<and> (ps = [] \<or> sf_paths_ignore f = []
               \<or> list_ex (\<lambda>p. \<not> list_ex (\<lambda>pat. path_matches pat p) (sf_paths_ignore f)) ps))"
proof -
  let ?hit = "find (\<lambda>p. path_matches p branch) (sf_branches_ignore f)"
  have hit: "?hit = None \<longleftrightarrow> \<not> list_ex (\<lambda>p. path_matches p branch) (sf_branches_ignore f)"
    by (auto simp: find_None_iff list_ex_iff)
  have ign: "list_all P ps \<longleftrightarrow> \<not> list_ex (\<lambda>p. \<not> P p) ps" for P and ps :: "string list"
    by (auto simp: list_all_iff list_ex_iff)
  show ?thesis
    using hit by (cases ?hit; cases ch) (auto simp: admits_def ign)
qed

lemma target_parse_Ok:
  assumes "target_parse raw = Ok t" "\<not> tg_local t"
  obtains net where "tg_network t = Some net" "net \<noteq> []" "trim net = net" "CHR ''/'' \<notin> set net"
    "\<forall>n. tg_node t = Some n \<longrightarrow> n \<noteq> [] \<and> n \<noteq> ''*'' \<and> trim n = n \<and> CHR ''/'' \<notin> set n"
    "\<forall>v. tg_vm t = Some v \<longrightarrow> tg_node t \<noteq> None \<and> v \<noteq> [] \<and> v \<noteq> ''*'' \<and> trim v = v \<and> CHR ''/'' \<notin> set v"
proof -
  define parts where "parts = map trim (split_on (CHR ''/'') (trim raw))"
  have seg: "trim x = x \<and> CHR ''/'' \<notin> set x" if "x \<in> set parts" for x
  proof -
    from that obtain y where "x = trim y" "y \<in> set (split_on (CHR ''/'') (trim raw))"
      by (auto simp: parts_def)
    then show ?thesis using split_on_no_delim set_trim by (metis subsetD trim_trim)
  qed
  have at: "part_at i parts = Some x \<Longrightarrow> x \<in> set parts" for i x
    by (auto simp: part_at_def split: if_splits)
  have "0 < length parts" by (simp add: parts_def)
  then have p0: "parts ! 0 \<in> set parts" by (rule nth_mem)
  from assms obtain node vm where
      node: "node_of_part (trim raw) (part_at 1 parts) = Ok node"
    and vm: "vm_of_part (trim raw) (part_at 2 parts) = Ok vm"
    and t: "t = \<lparr>tg_network = Some (parts ! 0), tg_node = node, tg_vm = vm, tg_local = False\<rparr>"
    and ne: "parts ! 0 \<noteq> []" and nv: "vm = None \<or> node \<noteq> None"
    unfolding target_parse_def Let_def parts_def [symmetric]
    by (auto split: if_splits)
  show thesis
  proof (rule that [of "parts ! 0"])
    show "\<forall>n. tg_node t = Some n \<longrightarrow> n \<noteq> [] \<and> n \<noteq> ''*'' \<and> trim n = n \<and> CHR ''/'' \<notin> set n"
      using node at seg by (auto simp: t node_of_part_def split: option.splits if_splits)
    show "\<forall>v. tg_vm t = Some v \<longrightarrow> tg_node t \<noteq> None \<and> v \<noteq> [] \<and> v \<noteq> ''*'' \<and> trim v = v \<and> CHR ''/'' \<notin> set v"
      using vm nv at seg by (auto simp: t vm_of_part_def split: option.splits if_splits)
  qed (use t ne seg [OF p0] in auto)
qed

lemma trimmed_ends: "trim w = w \<Longrightarrow> w \<noteq> [] \<Longrightarrow> \<not> is_whitespace (hd w) \<and> \<not> is_whitespace (last w)"
  using trim_ends [of w] by auto

lemma slash_not_default: "CHR ''/'' \<in> set s \<Longrightarrow> \<not> eq_ignore_ascii_case s DEFAULT_NODE"
proof
  assume "CHR ''/'' \<in> set s" and "eq_ignore_ascii_case s DEFAULT_NODE"
  moreover have "to_ascii_lower (CHR ''/'') = CHR ''/''" by code_simp
  ultimately have "CHR ''/'' \<in> set (to_ascii_lowercase DEFAULT_NODE)"
    unfolding eq_ignore_ascii_case_def by (metis image_eqI set_map)
  moreover have "CHR ''/'' \<notin> set (to_ascii_lowercase DEFAULT_NODE)" by code_simp
  ultimately show False by blast
qed

lemma target_parse_join:
  assumes ws: "ws = [net, x] \<or> ws = [net, x, y]"
    and ok: "\<forall>w\<in>set ws. w \<noteq> [] \<and> trim w = w \<and> CHR ''/'' \<notin> set w"
  shows "target_parse (join ''/'' ws) =
     and_then (node_of_part (join ''/'' ws) (part_at 1 ws))
       (\<lambda>node. and_then (vm_of_part (join ''/'' ws) (part_at 2 ws))
          (\<lambda>vm. if vm \<noteq> None \<and> node = None then Err (VmWithoutNode (join ''/'' ws))
                else Ok \<lparr>tg_network = Some net, tg_node = node, tg_vm = vm, tg_local = False\<rparr>))"
proof -
  let ?raw = "join ''/'' ws"
  have mem: "net \<in> set ws" "last ws \<in> set ws" using ws by (elim disjE; simp)+
  then have net: "net \<noteq> []" "trim net = net" and lw: "last ws \<noteq> []" "trim (last ws) = last ws"
    using ok by blast+
  have hd: "hd ?raw = hd net" using ws net(1) by (elim disjE) simp_all
  have la: "last ?raw = last (last ws)" using ws lw(1) by (elim disjE) simp_all
  have sl: "CHR ''/'' \<in> set ?raw" using ws by (elim disjE) simp_all
  have "\<not> is_whitespace (hd net)" "\<not> is_whitespace (last (last ws))"
    using trimmed_ends [OF net(2,1)] trimmed_ends [OF lw(2,1)] by blast+
  then have tr: "trim ?raw = ?raw" using hd la by (intro trim_id) simp
  have sp: "split_on (CHR ''/'') ?raw = ws"
  proof (rule split_on_join)
    show "ws \<noteq> []" using mem(1) by (metis empty_iff empty_set)
  qed (use ok in blast)
  have mp: "map trim ws = ws" by (rule map_idI) (use ok in blast)
  have n0: "ws ! 0 = net" and len: "\<not> 3 < length ws" using ws by auto
  from sl have "?raw \<noteq> []" by auto
  with slash_not_default [OF sl] net(1) len show ?thesis
    by (simp add: target_parse_def Let_def tr sp mp n0 net(2) cong: if_cong)
qed

text \<open>The \<^verbatim>\<open>uses:\<close> grammar round-trips: printing a parsed target and parsing it again gives the
  same target, for every spelling that parses.\<close>

theorem target_roundtrip:
  assumes "target_parse raw = Ok t"
  shows "target_parse (display_target t) = Ok t"
proof (cases "tg_local t")
  case True
  with assms have "t = \<lparr>tg_network = None, tg_node = None, tg_vm = None, tg_local = True\<rparr>"
    by (auto simp: target_parse_def Let_def split: if_splits)
  moreover have "target_parse DEFAULT_NODE =
      Ok \<lparr>tg_network = None, tg_node = None, tg_vm = None, tg_local = True\<rparr>" by code_simp
  ultimately show ?thesis by (simp add: display_target_def)
next
  case False
  note [simp] = node_of_part_def vm_of_part_def part_at_def
  have star: "trim ''*'' = ''*''" by code_simp
  obtain net where t: "tg_network t = Some net" "net \<noteq> []" "trim net = net" "CHR ''/'' \<notin> set net"
    and n: "\<forall>n. tg_node t = Some n \<longrightarrow> n \<noteq> [] \<and> n \<noteq> ''*'' \<and> trim n = n \<and> CHR ''/'' \<notin> set n"
    and v: "\<forall>v. tg_vm t = Some v \<longrightarrow> tg_node t \<noteq> None \<and> v \<noteq> [] \<and> v \<noteq> ''*'' \<and> trim v = v \<and> CHR ''/'' \<notin> set v"
    using target_parse_Ok [OF assms False] .
  show ?thesis
  proof (cases "tg_node t")
    case None
    with v have "tg_vm t = None" by (metis option.exhaust)
    with None t False star target_parse_join [of "[net, ''*'']" net "''*''"] show ?thesis
      by (cases t) (simp add: display_target_def)
  next
    case (Some m)
    show ?thesis
    proof (cases "tg_vm t")
      case None
      with Some t n False target_parse_join [of "[net, m]" net m] show ?thesis
        by (cases t) (simp add: display_target_def)
    next
      case (Some u)
      with \<open>tg_node t = Some m\<close> t n v False target_parse_join [of "[net, m, u]" net m u] show ?thesis
        by (cases t) (simp add: display_target_def)
    qed
  qed
qed

theorem target_roundtrip_witness:
  "target_parse '' prod / node-1/vm '' = target_parse (display_target
     \<lparr>tg_network = Some ''prod'', tg_node = Some ''node-1'', tg_vm = Some ''vm'', tg_local = False\<rparr>)"
proof -
  have "target_parse '' prod / node-1/vm '' = Ok
      \<lparr>tg_network = Some ''prod'', tg_node = Some ''node-1'', tg_vm = Some ''vm'', tg_local = False\<rparr>"
    by code_simp
  from this target_roundtrip [OF this] show ?thesis by simp
qed

end
