(* ===== verification/Plan.thy ===== *)
theory Plan
  imports Workflow "HOL-Library.Multiset"
begin

text \<open>
  \<^verbatim>\<open>src/src/plan.rs\<close>: from a workflow to the jobs to dispatch. The matrix of a job becomes one
  cell per combination, every cell gets a key that is a subject token, and the cells are put in
  an order in which everything a job needs comes before it.

  \<open>yaml_json\<close> is \<^verbatim>\<open>serde_json::to_value\<close> on a YAML value; it and the JSON printer are parameters.
\<close>

section \<open>Data\<close>

definition DEFAULT_JOB_TIMEOUT_MINUTES :: nat where
  "DEFAULT_JOB_TIMEOUT_MINUTES = 60"

record job_plan =
  jp_key :: string
  jp_base_id :: string
  jp_display :: string
  jp_target :: target
  jp_fallback :: fallback
  jp_vm :: vm_spec
  jp_needs :: "string list"
  jp_condition :: "string option"
  jp_matrix :: "json bmap"
  jp_env :: "string bmap"
  jp_outputs :: "string bmap"
  jp_continue_on_error :: bool
  jp_timeout :: nat
  jp_steps :: "step list"
  jp_max_parallel :: "nat option"
  jp_fail_fast :: bool

record plan =
  pl_workflow_path :: string
  pl_workflow_name :: "string option"
  pl_env :: "string bmap"
  pl_jobs :: "job_plan list"

datatype matrix_error =
    NotAMapping
  | AxisNameNotString
  | NotAListOfMappings string
  | AxisNotAList string
  | AxisEmpty string

datatype plan_error =
    PlanWorkflow workflow_error
  | BadMatrix string matrix_error
  | EmptyMatrix string
  | Unsatisfiable "string list"

definition base_context :: "job_plan \<Rightarrow> expr_ctx" where
  "base_context j =
     set_scope
       (set_scope
          (set_scope [] ''matrix'' (JObj (jp_matrix j)))
          ''env'' (JObj (map (\<lambda>(k, v). (k, JStr v)) (jp_env j))))
       ''job'' (JObj [(''id'', JStr (jp_base_id j)), (''key'', JStr (jp_key j))])"

definition substitute_matrix :: "json_lib \<Rightarrow> job_plan \<Rightarrow> job_plan" where
  "substitute_matrix L j =
     (let s = substitute L (base_context j); t = jp_target j; v = jp_vm j in
      j\<lparr>jp_target := t\<lparr>tg_network := map_option s (tg_network t),
                       tg_node := map_option s (tg_node t)\<rparr>,
        jp_env := map (\<lambda>(k, x). (k, s x)) (jp_env j),
        jp_vm := v\<lparr>vm_image := map_option s (vm_image v),
                   env_vars := map (\<lambda>(k, x). (k, s x)) (env_vars v),
                   setup_hooks := map s (setup_hooks v)\<rparr>\<rparr>)"

section \<open>Matrix expansion\<close>

text \<open>Equality of JSON values as the crate has it: numbers of the same kind by value.\<close>

fun jnum_eq :: "jnum \<Rightarrow> jnum \<Rightarrow> bool" where
  "jnum_eq (NInt a) (NInt b) = (a = b)"
| "jnum_eq (NFloat a) (NFloat b) = f64_eq a b"
| "jnum_eq _ _ = False"

function (sequential) json_eq :: "json \<Rightarrow> json \<Rightarrow> bool" where
  "json_eq JNull JNull = True"
| "json_eq (JBool a) (JBool b) = (a = b)"
| "json_eq (JNum a) (JNum b) = jnum_eq a b"
| "json_eq (JStr a) (JStr b) = (a = b)"
| "json_eq (JArr xs) (JArr ys) =
     (length xs = length ys \<and> list_all (\<lambda>(a, b). json_eq a b) (zip xs ys))"
| "json_eq (JObj xs) (JObj ys) =
     (map fst xs = map fst ys
      \<and> list_all (\<lambda>(a, b). json_eq a b) (zip (map snd xs) (map snd ys)))"
| "json_eq _ _ = False"
  by pat_completeness auto
termination
proof (relation "measure (\<lambda>(a, b). size a)", goal_cases)
  case (2 xs ys p a b)
  then have "a \<in> set xs" by (auto dest: set_zip_leftD)
  then have "size a < Suc (size_list size xs)" by (simp add: size_list_estimation' less_Suc_eq_le)
  then show ?case by simp
next
  case (3 xs ys p a b)
  then have "a \<in> set (map snd xs)" by (auto dest: set_zip_leftD)
  then obtain k where "(k, a) \<in> set xs" by auto
  then have "size a < Suc (size_list (size_prod (\<lambda>x. 0) size) xs)"
    by (auto simp: less_Suc_eq_le intro!: size_list_estimation')
  then show ?case by simp
qed simp

definition matches_subset :: "json bmap \<Rightarrow> json bmap \<Rightarrow> bool" where
  "matches_subset combo entry =
     list_all (\<lambda>(k, v). case bm_get combo k of None \<Rightarrow> True | Some w \<Rightarrow> json_eq w v) entry"

definition yaml_to_json :: "(yaml \<Rightarrow> json option) \<Rightarrow> yaml \<Rightarrow> json" where
  "yaml_to_json yaml_json v = (case yaml_json v of Some j \<Rightarrow> j | None \<Rightarrow> JNull)"

definition yaml_map_to_json :: "(yaml \<Rightarrow> json option) \<Rightarrow> yaml \<Rightarrow> json bmap option" where
  "yaml_map_to_json yj v =
     (case v of
        YMap m \<Rightarrow>
          Some (bm_of (List.map_filter
            (\<lambda>(k, x). map_option (\<lambda>s. (s, yaml_to_json yj x)) (yaml_str k)) m))
      | _ \<Rightarrow> None)"

record matrix_parts =
  mp_axes :: "(string \<times> json list) list"
  mp_include :: "json bmap list"
  mp_exclude :: "json bmap list"

definition read_axis ::
    "(yaml \<Rightarrow> json option) \<Rightarrow> yaml \<times> yaml \<Rightarrow> matrix_parts \<Rightarrow> (matrix_error, matrix_parts) result" where
  "read_axis yj = (\<lambda>(k, v) parts.
     case yaml_str k of
       None \<Rightarrow> Err AxisNameNotString
     | Some name \<Rightarrow>
         if name = ''include'' \<or> name = ''exclude'' then
           (case v of
              YSeq xs \<Rightarrow>
                (let entries = List.map_filter (yaml_map_to_json yj) xs
                 in Ok (if name = ''include'' then parts\<lparr>mp_include := entries\<rparr>
                        else parts\<lparr>mp_exclude := entries\<rparr>))
            | _ \<Rightarrow> Err (NotAListOfMappings name))
         else
           (case v of
              YSeq items \<Rightarrow>
                Ok (parts\<lparr>mp_axes := mp_axes parts @ [(name, map (yaml_to_json yj) items)]\<rparr>)
            | _ \<Rightarrow> Err (AxisNotAList name)))"

fun read_axes ::
    "(yaml \<Rightarrow> json option) \<Rightarrow> (yaml \<times> yaml) list \<Rightarrow> matrix_parts \<Rightarrow> (matrix_error, matrix_parts) result" where
  "read_axes yj [] parts = Ok parts"
| "read_axes yj (kv # kvs) parts = and_then (read_axis yj kv parts) (read_axes yj kvs)"

fun cartesian :: "(string \<times> json list) list \<Rightarrow> json bmap list \<Rightarrow> (matrix_error, json bmap list) result" where
  "cartesian [] combos = Ok combos"
| "cartesian ((name, values) # axes) combos =
     (if values = [] then Err (AxisEmpty name)
      else cartesian axes
        (concat (map (\<lambda>base. map (\<lambda>v. bm_insert name v base) values) combos)))"

definition merge_entry :: "json bmap \<Rightarrow> json bmap \<Rightarrow> json bmap" where
  "merge_entry entry c = foldl (\<lambda>m (k, v). bm_insert k v m) c entry"

definition include_entry :: "json bmap list \<Rightarrow> json bmap \<Rightarrow> json bmap list" where
  "include_entry combos entry =
     (let merged = map (\<lambda>c. if matches_subset c entry then merge_entry entry c else c) combos
      in if list_ex (\<lambda>c. matches_subset c entry) combos then merged else combos @ [entry])"

definition expand_matrix ::
    "(yaml \<Rightarrow> json option) \<Rightarrow> string \<Rightarrow> job \<Rightarrow> (plan_error, json bmap list) result" where
  "expand_matrix yj jid j =
     (case Option.bind (jb_strategy j) sg_matrix of
        None \<Rightarrow> Ok [[]]
      | Some (YMap mapping) \<Rightarrow>
          and_then
            (map_err (BadMatrix jid)
              (and_then
                (read_axes yj mapping \<lparr>mp_axes = [], mp_include = [], mp_exclude = []\<rparr>)
                (\<lambda>parts. and_then (cartesian (sort_key fst (mp_axes parts)) [[]])
                   (\<lambda>combos. Ok (parts, combos)))))
            (\<lambda>(parts, combos).
               let kept = filter (\<lambda>c. \<not> list_ex (matches_subset c) (mp_exclude parts)) combos;
                   final = foldl include_entry kept (mp_include parts)
               in if final = [] then Err (EmptyMatrix jid) else Ok final)
      | Some _ \<Rightarrow> Err (BadMatrix jid NotAMapping))"

section \<open>Keys and labels\<close>

definition sanitize :: "string \<Rightarrow> string" where
  "sanitize s =
     trim_end_char (CHR ''-'')
       (trim_start_char (CHR ''-'') (map (\<lambda>c. if is_token_char c then c else CHR ''-'') s))"

definition display_value :: "json_lib \<Rightarrow> json \<Rightarrow> string" where
  "display_value L v = (case v of JStr s \<Rightarrow> s | _ \<Rightarrow> json_to_string L v)"

text \<open>The loop that extends a key until it is free, with the number of tries as fuel.\<close>

fun free_key :: "string \<Rightarrow> string list \<Rightarrow> nat \<Rightarrow> nat \<Rightarrow> string \<Rightarrow> string option" where
  "free_key base used 0 n key = None"
| "free_key base used (Suc fuel) n key =
     (if key \<in> set used then free_key base used fuel (n + 1) (base @ ''-'' @ nat_str (n + 1))
      else Some key)"

definition key_candidate :: "json_lib \<Rightarrow> string \<Rightarrow> json bmap \<Rightarrow> nat \<Rightarrow> string list \<Rightarrow> string" where
  "key_candidate L base m index used =
     (let parts = filter (\<lambda>s. s \<noteq> []) (map (\<lambda>(_, v). sanitize (display_value L v)) m);
          cand = (if m \<noteq> [] \<and> parts \<noteq> [] then base @ ''-'' @ join ''-'' parts else base)
      in if 64 < length cand \<or> cand \<in> set used then base @ ''-'' @ nat_str index else cand)"

definition unique_key :: "json_lib \<Rightarrow> string \<Rightarrow> json bmap \<Rightarrow> nat \<Rightarrow> string list \<Rightarrow> string" where
  "unique_key L base m index used =
     the (free_key base used (length used + 2) index (key_candidate L base m index used))"

definition display_label :: "json_lib \<Rightarrow> job \<Rightarrow> string \<Rightarrow> json bmap \<Rightarrow> string" where
  "display_label L j jid m =
     (let base = (case jb_name j of Some n \<Rightarrow> n | None \<Rightarrow> jid)
      in if m = [] then base
         else base @ '' ('' @ join '', '' (map (\<lambda>(_, v). display_value L v) m) @ '')'')"

section \<open>Ordering\<close>

definition is_ready :: "string list \<Rightarrow> job_plan \<Rightarrow> bool" where
  "is_ready done j \<longleftrightarrow> list_all (\<lambda>n. n \<in> set done) (jp_needs j)"

function topo_loop ::
    "string list \<Rightarrow> string list \<Rightarrow> job_plan list \<Rightarrow> job_plan list \<Rightarrow> (plan_error, job_plan list) result" where
  "topo_loop all_bases done ordered remaining =
     (if remaining = [] then Ok ordered
      else
        (let wave = filter (is_ready done) remaining in
         if wave = [] then
           (let stuck = concat (map (\<lambda>j. filter (\<lambda>n. n \<notin> set all_bases) (jp_needs j)) remaining)
            in Err (Unsatisfiable (if stuck = [] then map jp_key remaining else stuck)))
         else
           topo_loop all_bases (map jp_base_id wave @ done) (ordered @ wave)
             (filter (\<lambda>j. \<not> is_ready done j) remaining)))"
  by pat_completeness auto
termination
proof (relation "measure (\<lambda>(all_bases, done, ordered, remaining). length remaining)", goal_cases)
  case (2 all_bases done' ordered remaining wave)
  then obtain j where "j \<in> set remaining" "is_ready done' j"
    by (auto simp: filter_empty_conv)
  then have "length (filter (\<lambda>j. \<not> is_ready done' j) remaining) < length remaining"
    by (intro length_filter_less [of j]) auto
  then show ?case by simp
qed simp

declare topo_loop.simps [simp del]

definition topological_order :: "job_plan list \<Rightarrow> (plan_error, job_plan list) result" where
  "topological_order jobs = topo_loop (map jp_base_id jobs) [] [] jobs"

section \<open>Building the plan\<close>

text \<open>\<^verbatim>\<open>Duration::from_secs(minutes * 60)\<close> on \<^verbatim>\<open>u64\<close>.\<close>

definition timeout_secs :: "nat option \<Rightarrow> nat" where
  "timeout_secs minutes =
     (case minutes of Some m \<Rightarrow> m | None \<Rightarrow> DEFAULT_JOB_TIMEOUT_MINUTES) * 60 mod 2 ^ 64"

definition plan_cell :: "json_lib \<Rightarrow> string \<Rightarrow> job \<Rightarrow> target \<Rightarrow> string \<Rightarrow> json bmap \<Rightarrow> job_plan" where
  "plan_cell L jid j t key m =
     substitute_matrix L
       \<lparr>jp_key = key, jp_base_id = jid, jp_display = display_label L j jid m, jp_target = t,
        jp_fallback = jb_fallback j, jp_vm = jb_vm j, jp_needs = jb_needs j,
        jp_condition = jb_condition j, jp_matrix = m, jp_env = jb_env j,
        jp_outputs = jb_outputs j, jp_continue_on_error = jb_continue_on_error j,
        jp_timeout = timeout_secs (jb_timeout_minutes j), jp_steps = jb_steps j,
        jp_max_parallel = Option.bind (jb_strategy j) sg_max_parallel,
        jp_fail_fast = (case jb_strategy j of Some s \<Rightarrow> sg_fail_fast s | None \<Rightarrow> True)\<rparr>"

fun plan_cells ::
    "json_lib \<Rightarrow> string \<Rightarrow> job \<Rightarrow> nat \<Rightarrow> json bmap list \<Rightarrow> string list
     \<Rightarrow> (plan_error, string list \<times> job_plan list) result" where
  "plan_cells L jid j index [] used = Ok (used, [])"
| "plan_cells L jid j index (m # ms) used =
     (let key = unique_key L jid m index used in
      and_then (map_err PlanWorkflow (job_target j))
        (\<lambda>t. and_then (plan_cells L jid j (Suc index) ms (key # used))
           (\<lambda>(used', cells). Ok (used', plan_cell L jid j t key m # cells))))"

fun plan_jobs ::
    "json_lib \<Rightarrow> (yaml \<Rightarrow> json option) \<Rightarrow> (string \<times> job) list \<Rightarrow> string list
     \<Rightarrow> (plan_error, job_plan list) result" where
  "plan_jobs L yj [] used = Ok []"
| "plan_jobs L yj ((jid, j) # jobs) used =
     and_then (expand_matrix yj jid j)
       (\<lambda>combos. and_then (plan_cells L jid j 0 combos used)
          (\<lambda>(used', cells). and_then (plan_jobs L yj jobs used')
             (\<lambda>rest. Ok (cells @ rest))))"

definition build_plan ::
    "json_lib \<Rightarrow> (yaml \<Rightarrow> json option) \<Rightarrow> workflow \<Rightarrow> (plan_error, plan) result" where
  "build_plan L yj w =
     and_then (plan_jobs L yj (wf_jobs w) [])
       (\<lambda>jobs. and_then (topological_order jobs)
          (\<lambda>ordered. Ok \<lparr>pl_workflow_path = wf_path w, pl_workflow_name = wf_name w,
                         pl_env = wf_env w, pl_jobs = ordered\<rparr>))"

definition cells_of :: "plan \<Rightarrow> string \<Rightarrow> job_plan list" where
  "cells_of p base = filter (\<lambda>j. jp_base_id j = base) (pl_jobs p)"

section \<open>Keys are distinct subject tokens\<close>

lemma free_key_fresh: "free_key base used fuel n key = Some k \<Longrightarrow> k \<notin> set used"
  by (induction base used fuel n key rule: free_key.induct) (auto split: if_splits)

lemma free_key_shape:
  "free_key base used fuel n key = Some k \<Longrightarrow> k = key \<or> (\<exists>i. k = base @ ''-'' @ nat_str i)"
  by (induction base used fuel n key rule: free_key.induct) (auto split: if_splits)

lemma free_key_None:
  "free_key base used fuel n key = None \<Longrightarrow> 0 < i \<Longrightarrow> i < fuel \<Longrightarrow>
   base @ ''-'' @ nat_str (n + i) \<in> set used"
proof (induction base used fuel n key arbitrary: i rule: free_key.induct)
  case (2 base used fuel n key)
  then have used: "key \<in> set used" and rec:
    "free_key base used fuel (n + 1) (base @ ''-'' @ nat_str (n + 1)) = None"
    by (auto split: if_splits)
  show ?case
  proof (cases "i = 1")
    case True
    with "2.prems" rec show ?thesis by (cases fuel) (auto split: if_splits)
  next
    case False
    with 2 rec used show ?thesis by (cases i) (auto simp: add.commute)
  qed
qed simp

lemma free_key_returns: "free_key base used (length used + 2) n key \<noteq> None"
proof
  assume N: "free_key base used (length used + 2) n key = None"
  let ?f = "\<lambda>i. base @ ''-'' @ nat_str (n + i)"
  have "?f ` {1..length used + 1} \<subseteq> set used"
    using free_key_None [OF N] by auto
  then have "card (?f ` {1..length used + 1}) \<le> length used"
    by (meson List.finite_set card_length card_mono le_trans)
  moreover have "card (?f ` {1..length used + 1}) = length used + 1"
    by (subst card_image) (auto simp: inj_on_def)
  ultimately show False by simp
qed

lemma unique_key_fresh: "unique_key L base m index used \<notin> set used"
  unfolding unique_key_def
  using free_key_returns free_key_fresh by (metis option.collapse)

lemma set_trim_chars: "set (trim_end_char c (trim_start_char d s)) \<subseteq> set s"
proof -
  have dw: "set (dropWhile P xs) \<subseteq> set xs" for P and xs :: string
    by (metis Un_upper2 set_append takeWhile_dropWhile_id)
  show ?thesis
    using dw [of "\<lambda>x. x = c" "rev (trim_start_char d s)"] dw [of "\<lambda>x. x = d" s]
    by (auto simp: trim_end_char_def trim_start_char_def)
qed

lemma dash_token [simp]: "is_token_char (CHR ''-'')"
  by (simp add: is_token_char_def)

lemma sanitize_tokens: "list_all is_token_char (sanitize s)"
  unfolding sanitize_def list_all_iff
  using set_trim_chars [of "CHR ''-''" "CHR ''-''"
      "map (\<lambda>c. if is_token_char c then c else CHR ''-'') s"] by auto

lemma join_tokens:
  "list_all is_token_char sep \<Longrightarrow> list_all (list_all is_token_char) ws \<Longrightarrow> list_all is_token_char (join sep ws)"
  by (induction sep ws rule: join.induct) auto

lemma key_candidate_tokens:
  "list_all is_token_char base \<Longrightarrow> list_all is_token_char (key_candidate L base m index used)"
  unfolding key_candidate_def Let_def
  by (auto simp: nat_str_tokens intro!: join_tokens)
     (auto simp: list_all_iff sanitize_tokens [unfolded list_all_iff])

lemma unique_key_shape:
  "unique_key L base m index used = key_candidate L base m index used
   \<or> (\<exists>i. unique_key L base m index used = base @ ''-'' @ nat_str i)"
proof -
  obtain k where k: "free_key base used (length used + 2) index (key_candidate L base m index used) = Some k"
    using free_key_returns by blast
  then have "unique_key L base m index used = k" by (simp only: unique_key_def option.sel)
  with free_key_shape [OF k] show ?thesis by simp
qed

lemma unique_key_tokens:
  "list_all is_token_char base \<Longrightarrow> list_all is_token_char (unique_key L base m index used)"
  using unique_key_shape [of L base m index used] key_candidate_tokens [of base L m index used]
  by (auto simp: nat_str_tokens)

lemma unique_key_not_Nil: "base \<noteq> [] \<Longrightarrow> unique_key L base m index used \<noteq> []"
  using unique_key_shape [of L base m index used]
  by (auto simp: key_candidate_def Let_def split: if_splits)

lemma substitute_matrix_keeps [simp]:
  "jp_key (substitute_matrix L j) = jp_key j"
  "jp_base_id (substitute_matrix L j) = jp_base_id j"
  "jp_needs (substitute_matrix L j) = jp_needs j"
  "jp_steps (substitute_matrix L j) = jp_steps j"
  by (simp_all add: substitute_matrix_def Let_def)

lemma plan_cell_simps [simp]:
  "jp_key (plan_cell L jid j t key m) = key"
  "jp_base_id (plan_cell L jid j t key m) = jid"
  "jp_needs (plan_cell L jid j t key m) = jb_needs j"
  "jp_steps (plan_cell L jid j t key m) = jb_steps j"
  by (simp_all add: plan_cell_def)

lemma plan_cells_keys:
  "plan_cells L jid j index ms used = Ok (used', cells) \<Longrightarrow> list_all is_token_char jid \<Longrightarrow> jid \<noteq> [] \<Longrightarrow>
   set used' = set used \<union> jp_key ` set cells \<and> distinct (map jp_key cells)
   \<and> jp_key ` set cells \<inter> set used = {}
   \<and> (\<forall>c\<in>set cells. jp_key c \<noteq> [] \<and> list_all is_token_char (jp_key c))"
proof (induction ms arbitrary: index used cells)
  case (Cons m ms)
  let ?key = "unique_key L jid m index used"
  from Cons.prems obtain t cs where
      rec: "plan_cells L jid j (Suc index) ms (?key # used) = Ok (used', cs)"
    and cells: "cells = plan_cell L jid j t ?key m # cs"
    by (auto simp: Let_def)
  from Cons.IH [OF rec Cons.prems(2,3)]
  have IH: "set used' = set (?key # used) \<union> jp_key ` set cs" "distinct (map jp_key cs)"
    "jp_key ` set cs \<inter> set (?key # used) = {}"
    "\<forall>c\<in>set cs. jp_key c \<noteq> [] \<and> list_all is_token_char (jp_key c)" by auto
  with unique_key_fresh unique_key_tokens [OF Cons.prems(2)] unique_key_not_Nil [OF Cons.prems(3)]
  show ?case by (auto simp: cells)
qed simp

lemma plan_cells_jobs:
  "plan_cells L jid j index ms used = Ok (used', cells) \<Longrightarrow>
   length cells = length ms \<and> (\<forall>c\<in>set cells. jp_base_id c = jid \<and> jp_needs c = jb_needs j)"
  by (induction ms arbitrary: index used cells) (fastforce simp: Let_def)+

lemma plan_jobs_keys:
  "plan_jobs L yj jobs used = Ok cells \<Longrightarrow> \<forall>(jid, j)\<in>set jobs. is_job_id jid \<Longrightarrow>
   distinct (map jp_key cells) \<and> jp_key ` set cells \<inter> set used = {}
   \<and> (\<forall>c\<in>set cells. jp_key c \<noteq> [] \<and> list_all is_token_char (jp_key c))"
proof (induction L yj jobs used arbitrary: cells rule: plan_jobs.induct)
  case (2 L yj jid j jobs used)
  from "2.prems" obtain combos used' cs rest where
      ex: "expand_matrix yj jid j = Ok combos"
    and cs: "plan_cells L jid j 0 combos used = Ok (used', cs)"
    and rest: "plan_jobs L yj jobs used' = Ok rest" and cells: "cells = cs @ rest"
    by auto
  from "2.prems"(2) have jid: "list_all is_token_char jid" "jid \<noteq> []" by (auto simp: is_job_id_def)
  from "2.prems"(2) have ids: "\<forall>(jid, j)\<in>set jobs. is_job_id jid" by simp
  from plan_cells_keys [OF cs jid] "2.IH" [OF ex cs [unfolded prod.sel] refl rest ids]
  show ?case by (auto simp: cells)
qed simp

section \<open>The order respects needs\<close>

text \<open>Cells of one base job share its needs.\<close>

definition same_needs :: "job_plan list \<Rightarrow> bool" where
  "same_needs js \<longleftrightarrow> (\<forall>a\<in>set js. \<forall>b\<in>set js. jp_base_id a = jp_base_id b \<longrightarrow> jp_needs a = jp_needs b)"

text \<open>Everything a job needs has cells before it, and none at or after it.\<close>

definition needs_before :: "job_plan list \<Rightarrow> bool" where
  "needs_before js \<longleftrightarrow> (\<forall>pre j post. js = pre @ j # post \<longrightarrow>
     (\<forall>n\<in>set (jp_needs j). n \<in> jp_base_id ` set pre \<and> n \<notin> jp_base_id ` set (j # post)))"

definition topo_inv :: "string list \<Rightarrow> job_plan list \<Rightarrow> job_plan list \<Rightarrow> bool" where
  "topo_inv done ordered remaining \<longleftrightarrow>
     set done = jp_base_id ` set ordered
     \<and> jp_base_id ` set remaining \<inter> set done = {}
     \<and> same_needs remaining
     \<and> (\<forall>pre j post. ordered = pre @ j # post \<longrightarrow>
          (\<forall>n\<in>set (jp_needs j). n \<in> jp_base_id ` set pre
             \<and> n \<notin> jp_base_id ` set (j # post @ remaining)))"

lemma append_eq_split:
  assumes "xs @ ys = pre @ j # post"
  obtains (left) us where "xs = pre @ j # us" "post = us @ ys"
  | (right) vs where "pre = xs @ vs" "ys = vs @ j # post"
proof -
  from assms obtain us where "xs = pre @ us \<and> us @ ys = j # post \<or> xs @ us = pre \<and> ys = us @ j # post"
    by (auto simp: append_eq_append_conv2)
  then show thesis
    by (cases us) (auto intro: left right)
qed

lemma topo_inv_wave:
  assumes inv: "topo_inv done ordered remaining"
  shows "topo_inv (map jp_base_id (filter (is_ready done) remaining) @ done)
    (ordered @ filter (is_ready done) remaining) (filter (\<lambda>j. \<not> is_ready done j) remaining)"
proof -
  let ?wave = "filter (is_ready done) remaining"
  let ?rest = "filter (\<lambda>j. \<not> is_ready done j) remaining"
  have d: "set done = jp_base_id ` set ordered"
    and dis: "jp_base_id ` set remaining \<inter> set done = {}" and sn: "same_needs remaining"
    and ord: "\<And>pre j post n. ordered = pre @ j # post \<Longrightarrow> n \<in> set (jp_needs j) \<Longrightarrow>
        n \<in> jp_base_id ` set pre \<and> n \<notin> jp_base_id ` set (j # post @ remaining)"
    using inv unfolding topo_inv_def by blast+
  have split: "jp_base_id ` set ?rest \<inter> jp_base_id ` set ?wave = {}"
  proof -
    have "jp_base_id a \<noteq> jp_base_id b" if "a \<in> set ?rest" "b \<in> set ?wave" for a b
    proof
      assume "jp_base_id a = jp_base_id b"
      with sn that have "jp_needs a = jp_needs b" unfolding same_needs_def by simp
      with that show False by (simp add: is_ready_def)
    qed
    then show ?thesis by blast
  qed
  have part: "set ?wave \<union> set ?rest = set remaining" by auto
  have new: "n \<in> jp_base_id ` set pre \<and> n \<notin> jp_base_id ` set (j # post @ ?rest)"
    if js: "ordered @ ?wave = pre @ j # post" and n: "n \<in> set (jp_needs j)" for pre j post n
    using js
  proof (cases rule: append_eq_split)
    case (left us)
    have "set (j # post @ ?rest) = set (j # us @ remaining)" using part by (auto simp: left)
    with ord [OF left(1) n] show ?thesis by simp
  next
    case (right vs)
    have "j \<in> set ?wave" using right(2) by simp
    then have "n \<in> set done" using n by (auto simp: is_ready_def list_all_iff)
    moreover have "set (j # post @ ?rest) \<subseteq> set remaining"
      using right(2) part by (metis Un_iff append_Cons set_append subsetI)
    ultimately show ?thesis using d dis right(1) by auto
  qed
  have "same_needs ?rest" using sn by (simp add: same_needs_def)
  with d dis split new show ?thesis
    unfolding topo_inv_def by auto
qed

lemma mset_filter_split: "mset xs = mset (filter P xs) + mset (filter (\<lambda>x. \<not> P x) xs)"
  by (induction xs) auto

lemma topo_loop_Ok:
  "topo_inv done ordered remaining \<Longrightarrow> topo_loop bases done ordered remaining = Ok res \<Longrightarrow>
   needs_before res \<and> mset res = mset ordered + mset remaining"
proof (induction bases "done" ordered remaining rule: topo_loop.induct)
  case (1 bases d ordered remaining)
  show ?case
  proof (cases "remaining = []")
    case True
    with "1.prems" show ?thesis
      by (subst (asm) topo_loop.simps) (auto simp: topo_inv_def needs_before_def)
  next
    case False
    let ?wave = "filter (is_ready d) remaining"
    from False "1.prems"(2) have ne: "?wave \<noteq> []"
      by (subst (asm) topo_loop.simps) (auto simp: Let_def)
    with False "1.prems"(2)
    have "topo_loop bases (map jp_base_id ?wave @ d) (ordered @ ?wave)
        (filter (\<lambda>j. \<not> is_ready d j) remaining) = Ok res"
      by (subst (asm) topo_loop.simps) (simp add: Let_def)
    from "1.IH" [OF False refl ne topo_inv_wave [OF "1.prems"(1)] this]
    have "needs_before res"
      and ms: "mset res = mset (ordered @ ?wave) + mset (filter (\<lambda>j. \<not> is_ready d j) remaining)"
      by blast+
    moreover have "mset res = mset ordered + mset remaining"
      unfolding ms mset_append add.assoc mset_filter_split [of remaining "is_ready d", symmetric] ..
    ultimately show ?thesis by blast
  qed
qed

text \<open>A wave is never empty while every base job is grounded in the needs relation.\<close>

definition cells_cover :: "deps \<Rightarrow> job_plan list \<Rightarrow> bool" where
  "cells_cover d cells \<longleftrightarrow>
     (\<forall>c\<in>set cells. d (jp_base_id c) = Some (jp_needs c))
     \<and> (\<forall>c\<in>set cells. set (jp_needs c) \<subseteq> jp_base_id ` set cells)"

lemma wave_not_empty:
  assumes cov: "cells_cover d cells" and gr: "\<forall>c\<in>set cells. grounded d (jp_base_id c)"
    and part: "set ordered \<union> set remaining = set cells"
    and dn: "set done = jp_base_id ` set ordered" and ne: "remaining \<noteq> []"
  shows "filter (is_ready done) remaining \<noteq> []"
proof
  assume emp: "filter (is_ready done) remaining = []"
  have "x \<notin> jp_base_id ` set remaining" if "grounded d x" for x
    using that
  proof (rule accp_induct)
    fix x
    assume IH: "\<forall>y. needs_edge d x y \<longrightarrow> y \<notin> jp_base_id ` set remaining"
    show "x \<notin> jp_base_id ` set remaining"
    proof
      assume "x \<in> jp_base_id ` set remaining"
      then obtain c where c: "c \<in> set remaining" "x = jp_base_id c" by blast
      with emp have "\<not> is_ready done c" by (metis filter_empty_conv)
      then obtain n where n: "n \<in> set (jp_needs c)" "n \<notin> set done"
        by (auto simp: is_ready_def list_all_iff)
      from c part cov n(1) have d: "d x = Some (jp_needs c)" and "n \<in> jp_base_id ` set cells"
        unfolding cells_cover_def by blast+
      then obtain c' where c': "c' \<in> set cells" "n = jp_base_id c'" by blast
      with cov have "d n \<noteq> None" unfolding cells_cover_def by auto
      with d n(1) have "needs_edge d x n" by (simp add: needs_edge_def)
      moreover have "n \<in> jp_base_id ` set remaining" using c' part dn n(2) by blast
      ultimately show False using IH by blast
    qed
  qed
  moreover obtain c where "c \<in> set remaining" using ne by (cases remaining) auto
  ultimately show False using gr part by blast
qed

lemma topo_loop_succeeds:
  "topo_inv done ordered remaining \<Longrightarrow> cells_cover d cells \<Longrightarrow>
   \<forall>c\<in>set cells. grounded d (jp_base_id c) \<Longrightarrow> set ordered \<union> set remaining = set cells \<Longrightarrow>
   \<exists>res. topo_loop bases done ordered remaining = Ok res"
proof (induction bases "done" ordered remaining rule: topo_loop.induct)
  case (1 bases dn ordered remaining)
  show ?case
  proof (cases "remaining = []")
    case True
    then show ?thesis by (subst topo_loop.simps) simp
  next
    case False
    let ?wave = "filter (is_ready dn) remaining"
    have "set dn = jp_base_id ` set ordered" using "1.prems"(1) by (simp add: topo_inv_def)
    then have ne: "?wave \<noteq> []" by (rule wave_not_empty [OF "1.prems"(2-4) _ False])
    have "set (ordered @ ?wave) \<union> set (filter (\<lambda>j. \<not> is_ready dn j) remaining) = set cells"
      using "1.prems"(4) by auto
    from "1.IH" [OF False refl ne topo_inv_wave [OF "1.prems"(1)] "1.prems"(2,3) this]
    show ?thesis using False ne by (subst topo_loop.simps) (simp add: Let_def)
  qed
qed

lemma topo_inv_start: "same_needs jobs \<Longrightarrow> topo_inv [] [] jobs"
  by (simp add: topo_inv_def)

lemma include_entry_not_Nil: "c \<noteq> [] \<Longrightarrow> include_entry c e \<noteq> []"
  by (simp add: include_entry_def Let_def)

lemma expand_matrix_not_Nil: "expand_matrix yj jid j = Ok combos \<Longrightarrow> combos \<noteq> []"
  by (auto simp: expand_matrix_def Let_def split: option.splits yaml.splits if_splits)

lemma plan_jobs_cells:
  "plan_jobs L yj jobs used = Ok cells \<Longrightarrow>
   jp_base_id ` set cells = fst ` set jobs
   \<and> (\<forall>c\<in>set cells. \<exists>j. (jp_base_id c, j) \<in> set jobs \<and> jp_needs c = jb_needs j)"
proof (induction L yj jobs used arbitrary: cells rule: plan_jobs.induct)
  case (2 L yj jid j jobs used)
  from "2.prems" obtain combos used' cs rest where
      ex: "expand_matrix yj jid j = Ok combos"
    and cs: "plan_cells L jid j 0 combos used = Ok (used', cs)"
    and rest: "plan_jobs L yj jobs used' = Ok rest" and cells: "cells = cs @ rest"
    by auto
  have "cs \<noteq> []" using plan_cells_jobs [OF cs] expand_matrix_not_Nil [OF ex] by auto
  then have base: "jp_base_id ` set cs = {jid}" using plan_cells_jobs [OF cs] by (cases cs) auto
  note IH = "2.IH" [OF ex cs [unfolded prod.sel] refl rest]
  have "jp_base_id ` set cells = fst ` set ((jid, j) # jobs)"
    using IH unfolding cells set_append image_Un base by simp
  moreover have "\<forall>c\<in>set cells. \<exists>k. (jp_base_id c, k) \<in> set ((jid, j) # jobs) \<and> jp_needs c = jb_needs k"
    using IH plan_cells_jobs [OF cs] by (auto simp: cells)
  ultimately show ?case by blast
qed simp

lemma plan_jobs_same_needs:
  assumes "plan_jobs L yj jobs used = Ok cells" "distinct (map fst jobs)"
  shows "same_needs cells"
  unfolding same_needs_def
proof (intro ballI impI)
  fix a b assume "a \<in> set cells" "b \<in> set cells" and eq: "jp_base_id a = jp_base_id b"
  with plan_jobs_cells [OF assms(1)] obtain j k where
    "(jp_base_id a, j) \<in> set jobs" "jp_needs a = jb_needs j"
    "(jp_base_id a, k) \<in> set jobs" "jp_needs b = jb_needs k" by metis
  with assms(2) show "jp_needs a = jp_needs b" by (metis eq_key_imp_eq_value)
qed

lemma plan_cells_succeeds: "is_ok (job_target j) \<Longrightarrow> \<exists>r. plan_cells L jid j index ms used = Ok r"
  by (induction ms arbitrary: index used) (fastforce simp: Let_def is_ok_iff)+

lemma plan_jobs_succeeds:
  "\<forall>(jid, j)\<in>set jobs. is_ok (expand_matrix yj jid j) \<Longrightarrow> \<forall>(jid, j)\<in>set jobs. is_ok (job_target j) \<Longrightarrow>
   \<exists>cells. plan_jobs L yj jobs used = Ok cells"
proof (induction jobs arbitrary: used)
  case (Cons x jobs)
  obtain jid j where x: "x = (jid, j)" by (cases x)
  with Cons.prems obtain combos where c: "expand_matrix yj jid j = Ok combos" by (auto simp: is_ok_iff)
  from Cons.prems x obtain used' cs where "plan_cells L jid j 0 combos used = Ok (used', cs)"
    using plan_cells_succeeds [of j L jid 0 combos used] by auto
  with Cons c x show ?case by (simp add: Ball_def)
qed simp

lemma build_plan_total:
  assumes "validate_workflow w = Ok ()"
    and "\<forall>(jid, j)\<in>set (wf_jobs w). is_ok (expand_matrix yj jid j)"
  shows "\<exists>p. build_plan L yj w = Ok p"
proof -
  from assms(1) have tg: "\<forall>(jid, j)\<in>set (wf_jobs w). is_ok (job_target j)"
    and d: "distinct (map fst (wf_jobs w))"
    and nd: "\<forall>(jid, j)\<in>set (wf_jobs w). set (jb_needs j) \<subseteq> fst ` set (wf_jobs w)"
    and cyc: "\<forall>x\<in>fst ` set (wf_jobs w). grounded (deps_of (wf_jobs w)) x"
    by (auto simp: validate_workflow_Ok find_cycle_None)
  obtain cells where cells: "plan_jobs L yj (wf_jobs w) [] = Ok cells"
    using plan_jobs_succeeds [OF assms(2) tg] by blast
  note pc = plan_jobs_cells [OF cells]
  have "cells_cover (deps_of (wf_jobs w)) cells"
    unfolding cells_cover_def using pc deps_of_distinct [OF d] nd by (fastforce simp: image_iff)
  moreover have "\<forall>c\<in>set cells. grounded (deps_of (wf_jobs w)) (jp_base_id c)"
    using pc cyc by blast
  ultimately have "\<exists>res. topological_order cells = Ok res"
    unfolding topological_order_def
    by (intro topo_loop_succeeds [OF topo_inv_start [OF plan_jobs_same_needs [OF cells d]]]) auto
  then show ?thesis by (auto simp: build_plan_def cells)
qed

text \<open>A workflow of two jobs, for concrete instances.\<close>

definition sample_workflow :: workflow where
  "sample_workflow = \<lparr>wf_path = ''ci.yml'', wf_name = None, wf_on = [''submit''],
     wf_on_submit = default_filter, wf_env = [],
     wf_jobs = [(''test'', sample_job\<lparr>jb_needs := [''build'']\<rparr>), (''build'', sample_job)]\<rparr>"

lemma sample_workflow_valid: "validate_workflow sample_workflow = Ok ()"
  by code_simp

lemma sample_workflow_expands:
  "\<forall>(jid, j)\<in>set (wf_jobs sample_workflow). is_ok (expand_matrix yj jid j)"
  by (simp add: sample_workflow_def sample_job_def expand_matrix_def)

lemmas sample_plan = build_plan_total [OF sample_workflow_valid sample_workflow_expands]

section \<open>Properties\<close>

text \<open>Every cell of a plan has its own key, and every key is a non-empty subject token, so that
  no two jobs of a run share a subject or a VM name prefix.\<close>

theorem build_plan_keys:
  assumes "build_plan L yj w = Ok p" and "validate_workflow w = Ok ()"
  shows "distinct (map jp_key (pl_jobs p))
    \<and> (\<forall>c\<in>set (pl_jobs p). jp_key c \<noteq> [] \<and> list_all is_token_char (jp_key c))"
proof -
  from assms(1) obtain cells where cells: "plan_jobs L yj (wf_jobs w) [] = Ok cells"
    and topo: "topological_order cells = Ok (pl_jobs p)"
    by (auto simp: build_plan_def)
  from assms(2) have ids: "\<forall>(jid, j)\<in>set (wf_jobs w). is_job_id jid" and d: "distinct (map fst (wf_jobs w))"
    by (auto simp: validate_workflow_Ok)
  have "topo_inv [] [] cells" by (intro topo_inv_start plan_jobs_same_needs [OF cells d])
  then have ms: "mset (pl_jobs p) = mset cells"
    using topo_loop_Ok topo by (fastforce simp: topological_order_def)
  have "mset (map jp_key (pl_jobs p)) = mset (map jp_key cells)" using ms by simp
  with ms plan_jobs_keys [OF cells ids] show ?thesis
    by (metis mset_eq_imp_distinct_iff mset_eq_setD)
qed

theorem build_plan_keys_witness:
  "\<exists>p. build_plan no_json (\<lambda>_. None) sample_workflow = Ok p \<and> distinct (map jp_key (pl_jobs p))"
  using sample_plan [of no_json "\<lambda>_. None"] build_plan_keys [OF _ sample_workflow_valid] by blast

text \<open>The plan is in dependency order: before a job come cells of everything it needs, and no
  cell of anything it needs comes after it, so a dependent never precedes part of a matrix. The
  plan holds exactly the cells of the workflow's jobs, at least one each.\<close>

theorem build_plan_order:
  assumes "build_plan L yj w = Ok p" and "validate_workflow w = Ok ()"
  shows "needs_before (pl_jobs p) \<and> jp_base_id ` set (pl_jobs p) = fst ` set (wf_jobs w)"
proof -
  from assms(1) obtain cells where cells: "plan_jobs L yj (wf_jobs w) [] = Ok cells"
    and topo: "topological_order cells = Ok (pl_jobs p)"
    by (auto simp: build_plan_def)
  from assms(2) have d: "distinct (map fst (wf_jobs w))" by (auto simp: validate_workflow_Ok)
  have "topo_inv [] [] cells" by (intro topo_inv_start plan_jobs_same_needs [OF cells d])
  then have "needs_before (pl_jobs p)" and ms: "mset (pl_jobs p) = mset cells"
    using topo_loop_Ok topo by (fastforce simp: topological_order_def)+
  moreover have "set (pl_jobs p) = set cells" using ms by (rule mset_eq_setD)
  ultimately show ?thesis using plan_jobs_cells [OF cells] by simp
qed

theorem build_plan_order_witness:
  "\<exists>p. build_plan no_json (\<lambda>_. None) sample_workflow = Ok p \<and> needs_before (pl_jobs p)"
  using sample_plan [of no_json "\<lambda>_. None"] build_plan_order [OF _ sample_workflow_valid] by blast

text \<open>C36. Planning a validated workflow fails only because of a matrix: when every job's matrix
  expands, the plan is built. The check for jobs that can never start is never hit, because
  validation excluded cycles and unknown needs.\<close>

theorem build_plan_succeeds:
  assumes "validate_workflow w = Ok ()"
    and "\<forall>(jid, j)\<in>set (wf_jobs w). is_ok (expand_matrix yj jid j)"
  shows "\<exists>p. build_plan L yj w = Ok p"
  using assms by (rule build_plan_total)

theorem build_plan_succeeds_witness: "\<exists>p. build_plan no_json (\<lambda>_. None) sample_workflow = Ok p"
  by (rule build_plan_succeeds [OF sample_workflow_valid sample_workflow_expands])

text \<open>An exclude entry that names no axis of the matrix removes every combination: only the keys a
  combination has are compared.\<close>

lemma exclude_without_axis: "\<forall>k\<in>fst ` set entry. bm_get combo k = None \<Longrightarrow> matches_subset combo entry"
  by (auto simp: matches_subset_def list_all_iff)

end
