(* ===== verification/Repos.thy ===== *)
theory Repos
  imports Prelude
begin

text \<open>
  \<^verbatim>\<open>src/src/repos.rs\<close>: submit tokens and the comparison of clone URLs. SHA-256 is the parameter
  \<open>sha\<close> (the hex digest of a string); the random secret of a new token is an argument. The
  constant-time comparison is equality.
\<close>

section \<open>Tokens\<close>

definition TOKEN_PREFIX :: string where
  "TOKEN_PREFIX = ''cis_''"

record minted =
  mt_key_id :: string
  mt_secret_hash :: string
  mt_plaintext :: string

definition mint :: "(string \<Rightarrow> string) \<Rightarrow> string \<Rightarrow> string \<Rightarrow> minted" where
  "mint sha secret key_id =
     \<lparr>mt_key_id = key_id, mt_secret_hash = sha secret,
      mt_plaintext = TOKEN_PREFIX @ key_id @ ''.'' @ secret\<rparr>"

definition is_key_char :: "char \<Rightarrow> bool" where
  "is_key_char b \<longleftrightarrow> is_ascii_alphanumeric b \<or> b = CHR ''-''"

definition parse_token :: "string \<Rightarrow> (string \<times> string) option" where
  "parse_token token =
     Option.bind (strip_prefix TOKEN_PREFIX (trim token))
       (\<lambda>rest. Option.bind (split_once (CHR ''.'') rest)
          (\<lambda>(key_id, secret).
             if key_id = [] \<or> secret = [] then None
             else if \<not> list_all is_key_char key_id then None
             else Some (key_id, secret)))"

definition secret_matches :: "(string \<Rightarrow> string) \<Rightarrow> string \<Rightarrow> string \<Rightarrow> bool" where
  "secret_matches sha secret stored \<longleftrightarrow> length (sha secret) = length stored \<and> sha secret = stored"

section \<open>Clone URLs\<close>

definition after_scheme :: "string \<Rightarrow> string" where
  "after_scheme s = (case find_sub ''://'' s of Some i \<Rightarrow> drop (i + 3) s | None \<Rightarrow> s)"

definition after_user :: "string \<Rightarrow> string" where
  "after_user s = (case rsplit_once (CHR ''@'') s of Some (_, r) \<Rightarrow> r | None \<Rightarrow> s)"

definition normalize :: "string \<Rightarrow> string" where
  "normalize url =
     (let s = trim_end_char (CHR ''/'') (trim url);
          s' = replace_first_char (CHR '':'') ''/'' (after_user (after_scheme s))
      in to_ascii_lowercase (trim_end_matches ''.git'' s'))"

definition same_repo :: "string \<Rightarrow> string \<Rightarrow> bool" where
  "same_repo a b \<longleftrightarrow> trim a \<noteq> [] \<and> normalize a = normalize b"

definition name_from_url :: "string \<Rightarrow> string" where
  "name_from_url url =
     (let segments = filter (\<lambda>s. s \<noteq> []) (split_on (CHR ''/'') (normalize url));
          kept = (if 2 < length segments then drop (length segments - 2) segments
                  else if length segments = 2 \<and> CHR ''.'' \<in> set (segments ! 0) then tl segments
                  else segments);
          name = join ''/'' kept
      in if name = [] then normalize url else name)"

section \<open>Tokens are read back\<close>

text \<open>The alphabet of the base64url encoding of a secret.\<close>

abbreviation is_secret :: "string \<Rightarrow> bool" where
  "is_secret s \<equiv> s \<noteq> [] \<and> list_all is_token_char s"

abbreviation is_key_id :: "string \<Rightarrow> bool" where
  "is_key_id s \<equiv> s \<noteq> [] \<and> list_all is_key_char s"

lemma key_char_no_dot: "list_all is_key_char s \<Longrightarrow> CHR ''.'' \<notin> set s"
  by (induction s) (auto simp: is_key_char_def is_ascii_alphanumeric_def is_ascii_digit_def
      is_ascii_lower_def is_ascii_upper_def less_eq_char_def)

lemma parse_token_render:
  assumes "is_key_id k" "is_secret s"
  shows "parse_token (TOKEN_PREFIX @ k @ ''.'' @ s) = Some (k, s)"
proof -
  let ?t = "TOKEN_PREFIX @ k @ ''.'' @ s"
  have "\<not> is_whitespace (hd ?t)" by (simp add: TOKEN_PREFIX_def is_whitespace_def)
  moreover have "last ?t = last s" using assms(2) by simp
  moreover have "is_token_char (last s)" using assms(2) by (auto simp: list_all_iff)
  ultimately have "trim ?t = ?t" by (intro trim_id) (auto dest: is_token_char_not_whitespace)
  then show ?thesis
    using assms key_char_no_dot [of k]
    by (simp add: parse_token_def split_once_append)
qed

text \<open>A token scheme: what is handed out is read back as the key and the secret it was made of,
  and the stored digest accepts that secret.\<close>

locale token_scheme =
  fixes render :: "string \<Rightarrow> string \<Rightarrow> string"
    and read :: "string \<Rightarrow> (string \<times> string) option"
    and digest :: "string \<Rightarrow> string"
    and accepts :: "string \<Rightarrow> string \<Rightarrow> bool"
    and good_key :: "string \<Rightarrow> bool"
    and good_secret :: "string \<Rightarrow> bool"
  assumes read_render: "good_key k \<Longrightarrow> good_secret s \<Longrightarrow> read (render k s) = Some (k, s)"
    and accepts_digest: "accepts s h \<longleftrightarrow> digest s = h"
begin

lemma render_inject:
  "good_key k \<Longrightarrow> good_secret s \<Longrightarrow> good_key k' \<Longrightarrow> good_secret s' \<Longrightarrow>
   render k s = render k' s' \<Longrightarrow> k = k' \<and> s = s'"
  by (metis option.inject prod.inject read_render)

lemma read_accepts:
  "good_key k \<Longrightarrow> good_secret s \<Longrightarrow>
   \<exists>k' s'. read (render k s) = Some (k', s') \<and> k' = k \<and> accepts s' (digest s)"
  by (simp add: read_render accepts_digest)

end

interpretation submit_token: token_scheme
  "\<lambda>k s. mt_plaintext (mint sha s k)" parse_token sha "secret_matches sha" is_key_id is_secret
  for sha
  using parse_token_render by unfold_locales (auto simp: mint_def secret_matches_def)

section \<open>Two spellings of one repository\<close>

text \<open>The characters of a host or a repository path.\<close>

definition is_url_char :: "char \<Rightarrow> bool" where
  "is_url_char c \<longleftrightarrow> is_token_char c \<or> c = CHR ''.'' \<or> c = CHR ''/''"

lemma url_chars_not:
  assumes "list_all is_url_char s"
  shows "CHR '':'' \<notin> set s" "CHR ''@'' \<notin> set s" "\<forall>c\<in>set s. \<not> is_whitespace c"
proof -
  have "\<not> is_url_char (CHR '':'')" "\<not> is_url_char (CHR ''@'')" by code_simp+
  with assms show "CHR '':'' \<notin> set s" "CHR ''@'' \<notin> set s" by (auto simp: list_all_iff)
  have "is_url_char c \<Longrightarrow> \<not> is_whitespace c" for c
    using is_token_char_not_whitespace by (auto simp: is_url_char_def is_whitespace_def)
  with assms show "\<forall>c\<in>set s. \<not> is_whitespace c" by (simp add: list_all_iff)
qed

lemma trim_end_matches_append: "p \<noteq> [] \<Longrightarrow> trim_end_matches p (s @ p) = trim_end_matches p s"
  by (simp add: trim_end_matches_def trim_start_matches.simps [of "rev p" "rev p @ rev s"])

lemma trim_end_char_id: "s = [] \<or> last s \<noteq> c \<Longrightarrow> trim_end_char c s = s"
  unfolding trim_end_char_def by (cases s rule: rev_cases) auto

lemma after_user_skip: "CHR ''@'' \<notin> set r \<Longrightarrow> after_user (u @ CHR ''@'' # r) = r"
  by (simp add: after_user_def rsplit_once_def split_once_append)

lemma after_user_none: "CHR ''@'' \<notin> set r \<Longrightarrow> after_user r = r"
  by (simp add: after_user_def rsplit_once_def split_once_def)

lemma normalize_ssh:
  assumes host: "list_all is_url_char host" "CHR ''/'' \<notin> set host"
    and path: "list_all is_url_char path" "path \<noteq> []" "hd path \<noteq> CHR ''/''"
  shows "normalize (''git@'' @ host @ '':'' @ path @ ''.git'') =
    to_ascii_lowercase (trim_end_matches ''.git'' (host @ ''/'' @ path))"
proof -
  let ?u = "''git@'' @ host @ '':'' @ path @ ''.git''"
  note h = url_chars_not [OF host(1)] and p = url_chars_not [OF path(1)]
  have ws: "\<forall>c\<in>set ?u. \<not> is_whitespace c" using h(3) p(3) by (auto simp: is_whitespace_def)
  have "find_sub ''://'' ?u = None"
  proof (rule ccontr)
    assume "find_sub ''://'' ?u \<noteq> None"
    then obtain i where "find_sub ''://'' ?u = Some i" by blast
    from find_sub_Some [OF this] obtain a b where "?u = a @ CHR '':'' # CHR ''/'' # CHR ''/'' # b" by auto
    moreover have "?u = (''git@'' @ host) @ CHR '':'' # (path @ ''.git'')" by simp
    moreover have "CHR '':'' \<notin> set (''git@'' @ host)" "CHR '':'' \<notin> set (path @ ''.git'')"
      using h(1) p(1) by auto
    ultimately have "path @ ''.git'' = CHR ''/'' # CHR ''/'' # b"
      by (metis append_Cons_eq_iff)
    with path(2,3) show False by (cases path) auto
  qed
  moreover have "after_user ?u = host @ '':'' @ path @ ''.git''"
    using after_user_skip [of "host @ '':'' @ path @ ''.git''" "''git''"] h(2) p(2) by simp
  moreover have "replace_first_char (CHR '':'') ''/'' (host @ '':'' @ path @ ''.git'') =
      (host @ ''/'' @ path) @ ''.git''"
    using h(1) by (simp add: replace_first_char_def split_once_append)
  moreover have "trim_end_matches ''.git'' ((host @ ''/'' @ path) @ ''.git'') =
      trim_end_matches ''.git'' (host @ ''/'' @ path)"
    by (rule trim_end_matches_append) simp
  ultimately show ?thesis
    using trim_no_ws [OF ws] trim_end_char_id [of ?u "CHR ''/''"]
    by (simp add: normalize_def Let_def after_scheme_def)
qed

lemma normalize_https:
  assumes host: "list_all is_url_char host"
    and path: "list_all is_url_char path" "path \<noteq> []" "last path \<noteq> CHR ''/''"
  shows "normalize (''https://'' @ host @ ''/'' @ path) =
    to_ascii_lowercase (trim_end_matches ''.git'' (host @ ''/'' @ path))"
proof -
  let ?u = "''https://'' @ host @ ''/'' @ path"
  note h = url_chars_not [OF host] and p = url_chars_not [OF path(1)]
  have ws: "\<forall>c\<in>set ?u. \<not> is_whitespace c" using h(3) p(3) by (auto simp: is_whitespace_def)
  have "find_sub ''://'' (''https'' @ ''://'' @ host @ ''/'' @ path) = Some (length ''https'')"
    by (rule find_sub_first) (unfold contains_sub_iff [symmetric], code_simp)
  then have "after_scheme ?u = host @ ''/'' @ path" by (simp add: after_scheme_def)
  moreover have "after_user (host @ ''/'' @ path) = host @ ''/'' @ path"
    using h(2) p(2) by (intro after_user_none) auto
  moreover have "replace_first_char (CHR '':'') ''/'' (host @ ''/'' @ path) = host @ ''/'' @ path"
    using h(1) p(1) by (simp add: replace_first_char_def split_once_def)
  moreover have "trim_end_char (CHR ''/'') ?u = ?u"
    using path(2,3) by (intro trim_end_char_id) simp
  ultimately show ?thesis
    using trim_no_ws [OF ws] by (simp add: normalize_def Let_def)
qed

section \<open>Properties\<close>

text \<open>The SSH and HTTPS spellings of a clone URL name the same repository: for any host and path
  made of name characters, dots and slashes, both normalise to the same key.\<close>

theorem same_repo_spellings:
  assumes "list_all is_url_char host" "CHR ''/'' \<notin> set host"
    and "list_all is_url_char path" "path \<noteq> []" "hd path \<noteq> CHR ''/''" "last path \<noteq> CHR ''/''"
  shows "same_repo (''git@'' @ host @ '':'' @ path @ ''.git'') (''https://'' @ host @ ''/'' @ path)"
proof -
  have "\<forall>c\<in>set (''git@'' @ host @ '':'' @ path @ ''.git''). \<not> is_whitespace c"
    using url_chars_not(3) [OF assms(1)] url_chars_not(3) [OF assms(3)]
    by (auto simp: is_whitespace_def)
  then have "trim (''git@'' @ host @ '':'' @ path @ ''.git'') \<noteq> []"
    by (subst trim_no_ws) auto
  then show ?thesis
    unfolding same_repo_def
    using normalize_ssh [OF assms(1-5)] normalize_https [OF assms(1,3,4,6)] by simp
qed

theorem same_repo_spellings_witness:
  "same_repo ''git@github.com:me/app.git'' ''https://github.com/me/app''"
proof -
  have "list_all is_url_char ''github.com''" "CHR ''/'' \<notin> set ''github.com''"
    "list_all is_url_char ''me/app''" "''me/app'' \<noteq> []" "hd ''me/app'' \<noteq> CHR ''/''"
    "last ''me/app'' \<noteq> CHR ''/''" by code_simp+
  from same_repo_spellings [OF this] show ?thesis by simp
qed

end
