(* ===== verification/Store.thy ===== *)
theory Store
  imports Plan Repos
begin

text \<open>
  \<^verbatim>\<open>src/src/store.rs\<close>: the database. A table is the list of its rows, a statement a function on it,
  \<^verbatim>\<open>now()\<close> an argument. Each \<^verbatim>\<open>UPDATE \<dots> WHERE\<close> is \<open>update_rows\<close> with the guard and the assignments
  of the statement, its \<^verbatim>\<open>rows_affected\<close> the number of rows the guard selects. Constraints of the
  schema that an insert can violate are errors.

  Columns holding JSON hold the value itself (the serde encoding is not modelled). Step logs are
  files outside the database; of them only the row's path and size are kept. Connecting and
  migrating are I/O and left out.
\<close>

section \<open>Statuses\<close>

datatype run_status = RQueued | RRunning | RSuccess | RFailure | RCancelled

fun run_status_str :: "run_status \<Rightarrow> string" where
  "run_status_str RQueued = ''queued''"
| "run_status_str RRunning = ''running''"
| "run_status_str RSuccess = ''success''"
| "run_status_str RFailure = ''failure''"
| "run_status_str RCancelled = ''cancelled''"

definition run_terminal :: "run_status \<Rightarrow> bool" where
  "run_terminal s \<longleftrightarrow> s \<in> {RSuccess, RFailure, RCancelled}"

datatype job_status = JPending | JQueued | JRunning | JSuccess | JFailure | JSkipped | JCancelled

fun job_status_str :: "job_status \<Rightarrow> string" where
  "job_status_str JPending = ''pending''"
| "job_status_str JQueued = ''queued''"
| "job_status_str JRunning = ''running''"
| "job_status_str JSuccess = ''success''"
| "job_status_str JFailure = ''failure''"
| "job_status_str JSkipped = ''skipped''"
| "job_status_str JCancelled = ''cancelled''"

definition job_terminal :: "job_status \<Rightarrow> bool" where
  "job_terminal s \<longleftrightarrow> s \<in> {JSuccess, JFailure, JSkipped, JCancelled}"

fun result_name :: "job_status \<Rightarrow> string" where
  "result_name JSuccess = ''success''"
| "result_name JFailure = ''failure''"
| "result_name JSkipped = ''skipped''"
| "result_name JCancelled = ''cancelled''"
| "result_name _ = ''pending''"

datatype step_status = SPending | SRunning | SSuccess | SFailure | SSkipped

section \<open>Rows\<close>

record run_row =
  rn_id :: string
  rn_workflow_id :: string
  rn_workflow_path :: string
  rn_workflow_name :: "string option"
  rn_repo_url :: string
  rn_repo_id :: "string option"
  rn_git_ref :: string
  rn_sha :: string
  rn_before_sha :: string
  rn_changes :: changes
  rn_actor_subject :: "string option"
  rn_actor_email :: "string option"
  rn_source :: string
  rn_status :: run_status
  rn_error :: "string option"
  rn_created_at :: nat
  rn_started_at :: "nat option"
  rn_finished_at :: "nat option"

record job_row =
  jr_id :: string
  jr_run_id :: string
  jr_job_key :: string
  jr_base_id :: string
  jr_display :: string
  jr_network :: "string option"
  jr_runner_hd_id :: "string option"
  jr_fingerprint :: "string option"
  jr_sandbox_id :: "string option"
  jr_status :: job_status
  jr_attempt :: int
  jr_matrix :: "json bmap"
  jr_outputs :: json
  jr_plan :: job_plan
  jr_error :: "string option"
  jr_created_at :: nat
  jr_queued_at :: "nat option"
  jr_started_at :: "nat option"
  jr_finished_at :: "nat option"

record step_row =
  sr_id :: string
  sr_job_id :: string
  sr_idx :: int
  sr_name :: string
  sr_uses :: "string option"
  sr_status :: step_status
  sr_exit_code :: "int option"
  sr_operation_id :: "string option"
  sr_log_path :: "string option"
  sr_log_bytes :: nat
  sr_error :: "string option"
  sr_started_at :: "nat option"
  sr_finished_at :: "nat option"

record repo_row =
  rp_id :: string
  rp_url :: string
  rp_normalized :: string
  rp_name :: string
  rp_workflow_path :: "string option"
  rp_network :: "string option"
  rp_enabled :: bool
  rp_created_email :: "string option"

record token_row =
  tk_id :: string
  tk_repo_id :: string
  tk_name :: string
  tk_secret_hash :: string
  tk_created_email :: "string option"
  tk_last_used_at :: "nat option"
  tk_revoked_at :: "nat option"

record user_row =
  us_subject :: string
  us_email :: string
  us_name :: "string option"
  us_role :: string
  us_last_seen_at :: nat

record artifact_row =
  ar_id :: string
  ar_run_id :: string
  ar_job_id :: "string option"
  ar_name :: string
  ar_sink :: string
  ar_digest :: "string option"
  ar_size_bytes :: nat
  ar_uri :: string
  ar_created_at :: nat

record run_request =
  rq_workflow_id :: string
  rq_repo_id :: "string option"
  rq_repo_url :: string
  rq_git_ref :: string
  rq_sha :: string
  rq_before_sha :: string
  rq_changes :: changes
  rq_actor_subject :: "string option"
  rq_actor_email :: "string option"
  rq_source :: string

record db =
  db_runs :: "run_row list"
  db_jobs :: "job_row list"
  db_steps :: "step_row list"
  db_repos :: "repo_row list"
  db_tokens :: "token_row list"
  db_users :: "user_row list"
  db_artifacts :: "artifact_row list"

datatype store_error = SqlUnique string | SqlForeignKey string

definition empty_db :: db where
  "empty_db = \<lparr>db_runs = [], db_jobs = [], db_steps = [], db_repos = [], db_tokens = [], db_users = [],
     db_artifacts = []\<rparr>"

section \<open>Statements\<close>

definition update_rows :: "('r \<Rightarrow> bool) \<Rightarrow> ('r \<Rightarrow> 'r) \<Rightarrow> 'r list \<Rightarrow> 'r list" where
  "update_rows P f rows = map (\<lambda>r. if P r then f r else r) rows"

definition affected :: "('r \<Rightarrow> bool) \<Rightarrow> 'r list \<Rightarrow> nat" where
  "affected P rows = length (filter P rows)"

fun coalesce :: "'a option \<Rightarrow> 'a option \<Rightarrow> 'a option" where
  "coalesce (Some x) _ = Some x"
| "coalesce None y = y"

subsection \<open>Ids\<close>

definition job_id :: "string \<Rightarrow> string \<Rightarrow> string" where
  "job_id run_id job_key = run_id @ ''.'' @ job_key"

definition step_id :: "string \<Rightarrow> nat \<Rightarrow> string" where
  "step_id jid idx = jid @ ''.'' @ nat_str idx"

definition step_rows_for :: "job_plan \<Rightarrow> string \<Rightarrow> (string \<times> int \<times> string \<times> string option) list" where
  "step_rows_for p jid =
     map (\<lambda>(i, s). (step_id jid i, int i, step_label s i, sp_uses s)) (enumerate 0 (jp_steps p))"

subsection \<open>Runs\<close>

definition new_run_row :: "nat \<Rightarrow> string \<Rightarrow> run_request \<Rightarrow> plan \<Rightarrow> run_row" where
  "new_run_row now run_id req p =
     \<lparr>rn_id = run_id, rn_workflow_id = rq_workflow_id req, rn_workflow_path = pl_workflow_path p,
      rn_workflow_name = pl_workflow_name p, rn_repo_url = rq_repo_url req,
      rn_repo_id = rq_repo_id req, rn_git_ref = rq_git_ref req, rn_sha = rq_sha req,
      rn_before_sha = rq_before_sha req, rn_changes = rq_changes req,
      rn_actor_subject = rq_actor_subject req, rn_actor_email = rq_actor_email req,
      rn_source = (if rq_source req = [] then ''submit'' else rq_source req),
      rn_status = RQueued, rn_error = None, rn_created_at = now, rn_started_at = None,
      rn_finished_at = None\<rparr>"

definition new_job_row :: "nat \<Rightarrow> string \<Rightarrow> job_plan \<Rightarrow> job_row" where
  "new_job_row now run_id j =
     \<lparr>jr_id = job_id run_id (jp_key j), jr_run_id = run_id, jr_job_key = jp_key j,
      jr_base_id = jp_base_id j, jr_display = jp_display j, jr_network = tg_network (jp_target j),
      jr_runner_hd_id = None, jr_fingerprint = None, jr_sandbox_id = None, jr_status = JPending,
      jr_attempt = 1, jr_matrix = jp_matrix j, jr_outputs = JObj [], jr_plan = j, jr_error = None,
      jr_created_at = now, jr_queued_at = None, jr_started_at = None, jr_finished_at = None\<rparr>"

text \<open>One transaction: an error leaves the database as it was. The constraints are the primary keys,
  \<^verbatim>\<open>UNIQUE (run_id, job_key)\<close> and the reference to the repository.\<close>

definition create_run ::
    "nat \<Rightarrow> string \<Rightarrow> run_request \<Rightarrow> plan \<Rightarrow> db \<Rightarrow> (store_error, db) result" where
  "create_run now run_id req p d =
     (let run = new_run_row now run_id req p; jobs = map (new_job_row now run_id) (pl_jobs p) in
      if run_id \<in> rn_id ` set (db_runs d) then Err (SqlUnique ''ci_run'')
      else if (case rq_repo_id req of None \<Rightarrow> False | Some r \<Rightarrow> r \<notin> rp_id ` set (db_repos d))
        then Err (SqlForeignKey ''ci_repo'')
      else if \<not> distinct (map jr_id jobs) \<or> jr_id ` set jobs \<inter> jr_id ` set (db_jobs d) \<noteq> {}
           \<or> \<not> distinct (map (\<lambda>j. (jr_run_id j, jr_job_key j)) jobs)
        then Err (SqlUnique ''ci_job'')
      else Ok (d\<lparr>db_runs := db_runs d @ [run], db_jobs := db_jobs d @ jobs\<rparr>))"

definition get_run :: "string \<Rightarrow> db \<Rightarrow> run_row option" where
  "get_run run_id d = find (\<lambda>r. rn_id r = run_id) (db_runs d)"

definition newest_runs :: "run_row list \<Rightarrow> run_row list" where
  "newest_runs rows = rev (sort_key rn_created_at (rev rows))"

definition recent_runs :: "nat \<Rightarrow> string option \<Rightarrow> db \<Rightarrow> run_row list" where
  "recent_runs limit repo d =
     take limit (newest_runs (filter (\<lambda>r. repo = None \<or> rn_repo_id r = repo) (db_runs d)))"

definition last_run_of_repo :: "string \<Rightarrow> db \<Rightarrow> run_row option" where
  "last_run_of_repo rid d =
     (case newest_runs (filter (\<lambda>r. rn_repo_id r = Some rid) (db_runs d)) of
        [] \<Rightarrow> None | r # _ \<Rightarrow> Some r)"

definition set_run_row :: "nat \<Rightarrow> run_status \<Rightarrow> string option \<Rightarrow> run_row \<Rightarrow> run_row" where
  "set_run_row now st err r =
     r\<lparr>rn_status := st, rn_error := coalesce err (rn_error r),
       rn_started_at := (if st = RRunning \<and> rn_started_at r = None then Some now else rn_started_at r),
       rn_finished_at := (if run_terminal st then Some now else rn_finished_at r)\<rparr>"

definition set_run_status :: "nat \<Rightarrow> string \<Rightarrow> run_status \<Rightarrow> string option \<Rightarrow> db \<Rightarrow> db" where
  "set_run_status now run_id st err d =
     d\<lparr>db_runs := update_rows (\<lambda>r. rn_id r = run_id) (set_run_row now st err) (db_runs d)\<rparr>"

definition roll_up_status :: "job_status list \<Rightarrow> run_status" where
  "roll_up_status statuses =
     (if statuses = [] then RSuccess
      else if list_ex (\<lambda>s. s = JCancelled) statuses then RCancelled
      else if list_ex (\<lambda>s. s = JFailure) statuses then RFailure
      else if list_all (\<lambda>s. s = JSuccess \<or> s = JSkipped) statuses then RSuccess
      else RRunning)"

definition job_statuses :: "string \<Rightarrow> db \<Rightarrow> job_status list" where
  "job_statuses run_id d = map jr_status (filter (\<lambda>j. jr_run_id j = run_id) (db_jobs d))"

definition roll_up_run :: "nat \<Rightarrow> string \<Rightarrow> db \<Rightarrow> run_status \<times> db" where
  "roll_up_run now run_id d =
     (let st = roll_up_status (job_statuses run_id d) in (st, set_run_status now run_id st None d))"

definition cancel_run_row :: "nat \<Rightarrow> run_row \<Rightarrow> run_row" where
  "cancel_run_row now r =
     r\<lparr>rn_status := RCancelled, rn_finished_at := Some now,
       rn_error := coalesce (rn_error r) (Some ''cancelled'')\<rparr>"

definition cancel_job_row :: "nat \<Rightarrow> job_row \<Rightarrow> job_row" where
  "cancel_job_row now j =
     j\<lparr>jr_status := JCancelled, jr_finished_at := Some now,
       jr_error := coalesce (jr_error j) (Some ''cancelled'')\<rparr>"

definition cancel_run :: "nat \<Rightarrow> string \<Rightarrow> db \<Rightarrow> nat option \<times> db" where
  "cancel_run now run_id d =
     (let PR = (\<lambda>r. rn_id r = run_id \<and> \<not> run_terminal (rn_status r));
          PJ = (\<lambda>j. jr_run_id j = run_id \<and> \<not> job_terminal (jr_status j))
      in if affected PR (db_runs d) = 0 then (None, d)
         else (Some (affected PJ (db_jobs d)),
               d\<lparr>db_runs := update_rows PR (cancel_run_row now) (db_runs d),
                 db_jobs := update_rows PJ (cancel_job_row now) (db_jobs d)\<rparr>))"

subsection \<open>Jobs\<close>

definition update_job :: "string \<Rightarrow> (job_row \<Rightarrow> bool) \<Rightarrow> (job_row \<Rightarrow> job_row) \<Rightarrow> db \<Rightarrow> bool \<times> db" where
  "update_job jid guard f d =
     (let P = (\<lambda>j. jr_id j = jid \<and> guard j)
      in (0 < affected P (db_jobs d), d\<lparr>db_jobs := update_rows P f (db_jobs d)\<rparr>))"

abbreviation unfinished :: "job_row \<Rightarrow> bool" where
  "unfinished j \<equiv> \<not> job_terminal (jr_status j)"

definition claim_row :: "nat \<Rightarrow> string \<Rightarrow> int \<Rightarrow> job_row \<Rightarrow> job_row" where
  "claim_row now runner attempt j =
     j\<lparr>jr_status := JRunning, jr_runner_hd_id := Some runner, jr_attempt := attempt,
       jr_started_at := coalesce (jr_started_at j) (Some now)\<rparr>"

definition claim_job :: "nat \<Rightarrow> string \<Rightarrow> string \<Rightarrow> int \<Rightarrow> db \<Rightarrow> bool \<times> db" where
  "claim_job now jid runner attempt = update_job jid unfinished (claim_row now runner attempt)"

definition note_row :: "string \<Rightarrow> job_row \<Rightarrow> job_row" where
  "note_row err j = j\<lparr>jr_error := Some err\<rparr>"

definition note_job_error :: "string \<Rightarrow> string \<Rightarrow> db \<Rightarrow> db" where
  "note_job_error jid err d = snd (update_job jid unfinished (note_row err) d)"

definition start_row :: "nat \<Rightarrow> string \<Rightarrow> string \<Rightarrow> string \<Rightarrow> int \<Rightarrow> job_row \<Rightarrow> job_row" where
  "start_row now runner sandbox fp attempt j =
     j\<lparr>jr_status := JRunning, jr_runner_hd_id := Some runner, jr_sandbox_id := Some sandbox,
       jr_fingerprint := Some fp, jr_attempt := attempt,
       jr_started_at := coalesce (jr_started_at j) (Some now)\<rparr>"

definition start_job :: "nat \<Rightarrow> string \<Rightarrow> string \<Rightarrow> string \<Rightarrow> string \<Rightarrow> int \<Rightarrow> db \<Rightarrow> bool \<times> db" where
  "start_job now jid runner sandbox fp attempt =
     update_job jid unfinished (start_row now runner sandbox fp attempt)"

definition queue_row :: "nat \<Rightarrow> job_row \<Rightarrow> job_row" where
  "queue_row now j = j\<lparr>jr_status := JQueued, jr_queued_at := Some now\<rparr>"

definition queue_job :: "nat \<Rightarrow> string \<Rightarrow> db \<Rightarrow> bool \<times> db" where
  "queue_job now jid = update_job jid (\<lambda>j. jr_status j = JPending) (queue_row now)"

definition unqueue_row :: "job_row \<Rightarrow> job_row" where
  "unqueue_row j = j\<lparr>jr_status := JPending, jr_queued_at := None\<rparr>"

definition unqueue_job :: "string \<Rightarrow> db \<Rightarrow> bool \<times> db" where
  "unqueue_job jid = update_job jid (\<lambda>j. jr_status j = JQueued) unqueue_row"

definition set_job_row :: "nat \<Rightarrow> job_status \<Rightarrow> string option \<Rightarrow> job_row \<Rightarrow> job_row" where
  "set_job_row now st err j =
     j\<lparr>jr_status := st, jr_error := coalesce err (jr_error j),
       jr_finished_at := (if job_terminal st then Some now else jr_finished_at j)\<rparr>"

definition set_job_status :: "nat \<Rightarrow> string \<Rightarrow> job_status \<Rightarrow> string option \<Rightarrow> db \<Rightarrow> db" where
  "set_job_status now jid st err d = snd (update_job jid (\<lambda>_. True) (set_job_row now st err) d)"

definition outputs_row :: "json \<Rightarrow> job_row \<Rightarrow> job_row" where
  "outputs_row outs j = j\<lparr>jr_outputs := outs\<rparr>"

definition set_job_outputs :: "string \<Rightarrow> json \<Rightarrow> db \<Rightarrow> db" where
  "set_job_outputs jid outs d = snd (update_job jid (\<lambda>_. True) (outputs_row outs) d)"

definition get_job :: "string \<Rightarrow> db \<Rightarrow> job_row option" where
  "get_job jid d = find (\<lambda>j. jr_id j = jid) (db_jobs d)"

definition is_job_cancelled :: "string \<Rightarrow> db \<Rightarrow> bool" where
  "is_job_cancelled jid d \<longleftrightarrow> map_option jr_status (get_job jid d) = Some JCancelled"

definition jobs_of :: "string \<Rightarrow> db \<Rightarrow> job_row list" where
  "jobs_of run_id d =
     sort_key jr_created_at (sort_key jr_job_key (filter (\<lambda>j. jr_run_id j = run_id) (db_jobs d)))"

definition run_active :: "string \<Rightarrow> db \<Rightarrow> bool" where
  "run_active run_id d \<longleftrightarrow>
     list_ex (\<lambda>r. rn_id r = run_id \<and> \<not> run_terminal (rn_status r)) (db_runs d)"

definition jobs_waiting_longer_than :: "nat \<Rightarrow> nat \<Rightarrow> nat \<Rightarrow> db \<Rightarrow> job_row list" where
  "jobs_waiting_longer_than now wait limit d =
     take limit
       (sort_key (\<lambda>j. the (jr_queued_at j))
         (filter (\<lambda>j. jr_status j = JQueued
                      \<and> (case jr_queued_at j of None \<Rightarrow> False | Some q \<Rightarrow> q + wait < now)
                      \<and> run_active (jr_run_id j) d) (db_jobs d)))"

definition runs_with_pending_jobs :: "nat \<Rightarrow> db \<Rightarrow> string list" where
  "runs_with_pending_jobs limit d =
     take limit
       (sort (remdups (map rn_id
         (filter (\<lambda>r. \<not> run_terminal (rn_status r)
                      \<and> list_ex (\<lambda>j. jr_run_id j = rn_id r \<and> jr_status j = JPending) (db_jobs d))
            (db_runs d)))))"

subsection \<open>The needs context\<close>

definition status_rank :: "string \<Rightarrow> nat" where
  "status_rank s =
     (if s = ''success'' then 0
      else if s = ''skipped'' then 1
      else if s \<in> {''pending'', ''queued'', ''running''} then 2
      else if s = ''cancelled'' then 3
      else 4)"

definition worse_of :: "string \<Rightarrow> string \<Rightarrow> string" where
  "worse_of a b = (if status_rank a < status_rank b then b else a)"

definition merge_outputs :: "json bmap \<Rightarrow> json \<Rightarrow> json bmap" where
  "merge_outputs dst src =
     (case src of JObj kvs \<Rightarrow> foldl (\<lambda>m (k, v). bm_insert k v m) dst kvs | _ \<Rightarrow> dst)"

text \<open>An entry of the context is kept as its result and outputs and becomes the JSON object
  \<^verbatim>\<open>{"outputs": \<dots>, "result": \<dots>}\<close> at the end.\<close>

definition add_need :: "(string \<times> json bmap) bmap \<Rightarrow> job_row \<Rightarrow> (string \<times> json bmap) bmap" where
  "add_need m j =
     (let (current, outs) =
            (case bm_get m (jr_base_id j) of None \<Rightarrow> (''success'', []) | Some e \<Rightarrow> e)
      in bm_insert (jr_base_id j)
           (worse_of current (job_status_str (jr_status j)), merge_outputs outs (jr_outputs j)) m)"

definition needs_entries :: "job_row list \<Rightarrow> (string \<times> json bmap) bmap" where
  "needs_entries jobs = foldl add_need [] jobs"

definition needs_context :: "string \<Rightarrow> db \<Rightarrow> json" where
  "needs_context run_id d =
     JObj (map (\<lambda>(b, (res, outs)). (b, JObj [(''outputs'', JObj outs), (''result'', JStr res)]))
       (needs_entries (jobs_of run_id d)))"

subsection \<open>Steps\<close>

definition create_step ::
    "string \<Rightarrow> string \<Rightarrow> int \<Rightarrow> string \<Rightarrow> string option \<Rightarrow> db \<Rightarrow> (store_error, db) result" where
  "create_step sid jid idx name uses d =
     (if list_ex (\<lambda>s. sr_job_id s = jid \<and> sr_idx s = idx) (db_steps d) then Ok d
      else if sid \<in> sr_id ` set (db_steps d) then Err (SqlUnique ''ci_step'')
      else if jid \<notin> jr_id ` set (db_jobs d) then Err (SqlForeignKey ''ci_job'')
      else Ok (d\<lparr>db_steps := db_steps d @
             [\<lparr>sr_id = sid, sr_job_id = jid, sr_idx = idx, sr_name = name, sr_uses = uses,
               sr_status = SPending, sr_exit_code = None, sr_operation_id = None,
               sr_log_path = None, sr_log_bytes = 0, sr_error = None, sr_started_at = None,
               sr_finished_at = None\<rparr>]\<rparr>))"

definition start_step :: "nat \<Rightarrow> string \<Rightarrow> string \<Rightarrow> db \<Rightarrow> db" where
  "start_step now sid op d =
     d\<lparr>db_steps := update_rows (\<lambda>s. sr_id s = sid)
         (\<lambda>s. s\<lparr>sr_status := SRunning, sr_operation_id := Some op,
                sr_started_at := coalesce (sr_started_at s) (Some now)\<rparr>) (db_steps d)\<rparr>"

definition finish_step :: "nat \<Rightarrow> string \<Rightarrow> step_status \<Rightarrow> int option \<Rightarrow> string option \<Rightarrow> db \<Rightarrow> db" where
  "finish_step now sid st code err d =
     d\<lparr>db_steps := update_rows (\<lambda>s. sr_id s = sid)
         (\<lambda>s. s\<lparr>sr_status := st, sr_exit_code := code, sr_error := err,
                sr_finished_at := Some now\<rparr>) (db_steps d)\<rparr>"

definition steps_of :: "string \<Rightarrow> db \<Rightarrow> step_row list" where
  "steps_of jid d = sort_key sr_idx (filter (\<lambda>s. sr_job_id s = jid) (db_steps d))"

text \<open>The row side of \<^verbatim>\<open>append_log\<close>; the file is appended to before it.\<close>

definition append_log :: "string \<Rightarrow> string \<Rightarrow> string \<Rightarrow> db \<Rightarrow> db" where
  "append_log sid path text d =
     d\<lparr>db_steps := update_rows (\<lambda>s. sr_id s = sid)
         (\<lambda>s. s\<lparr>sr_log_path := Some path, sr_log_bytes := sr_log_bytes s + length text\<rparr>)
         (db_steps d)\<rparr>"

definition runs_with_logs_before :: "nat \<Rightarrow> nat \<Rightarrow> db \<Rightarrow> string list" where
  "runs_with_logs_before cutoff limit d =
     take limit (map rn_id (sort_key rn_created_at
       (filter (\<lambda>r. rn_created_at r < cutoff
                    \<and> list_ex (\<lambda>j. jr_run_id j = rn_id r
                         \<and> list_ex (\<lambda>s. sr_job_id s = jr_id j \<and> sr_log_path s \<noteq> None) (db_steps d))
                        (db_jobs d)) (db_runs d))))"

definition logs_of_run :: "string \<Rightarrow> db \<Rightarrow> step_row \<Rightarrow> bool" where
  "logs_of_run run_id d s \<longleftrightarrow> sr_log_path s \<noteq> None
     \<and> list_ex (\<lambda>j. jr_run_id j = run_id \<and> jr_id j = sr_job_id s) (db_jobs d)"

definition forget_logs_of :: "string \<Rightarrow> db \<Rightarrow> nat \<times> db" where
  "forget_logs_of run_id d =
     (affected (logs_of_run run_id d) (db_steps d),
      d\<lparr>db_steps := update_rows (logs_of_run run_id d)
          (\<lambda>s. s\<lparr>sr_log_path := None, sr_log_bytes := 0\<rparr>) (db_steps d)\<rparr>)"

subsection \<open>Artifacts\<close>

definition record_artifact ::
    "nat \<Rightarrow> string \<Rightarrow> string \<Rightarrow> string \<Rightarrow> string \<Rightarrow> string \<Rightarrow> string option \<Rightarrow> nat \<Rightarrow> string \<Rightarrow> db
     \<Rightarrow> (store_error, db) result" where
  "record_artifact now new_id' run_id jid name sink digest bytes uri d =
     (if new_id' \<in> ar_id ` set (db_artifacts d) then Err (SqlUnique ''ci_artifact'')
      else if run_id \<notin> rn_id ` set (db_runs d) then Err (SqlForeignKey ''ci_run'')
      else if jid \<notin> jr_id ` set (db_jobs d) then Err (SqlForeignKey ''ci_job'')
      else Ok (d\<lparr>db_artifacts := db_artifacts d @
             [\<lparr>ar_id = new_id', ar_run_id = run_id, ar_job_id = Some jid, ar_name = name,
               ar_sink = sink, ar_digest = digest, ar_size_bytes = bytes, ar_uri = uri,
               ar_created_at = now\<rparr>]\<rparr>))"

definition artifacts_of :: "string \<Rightarrow> db \<Rightarrow> artifact_row list" where
  "artifacts_of run_id d = sort_key ar_created_at (filter (\<lambda>a. ar_run_id a = run_id) (db_artifacts d))"

subsection \<open>Log paths\<close>

text \<open>The loop of \<^verbatim>\<open>sanitize_component\<close>: anything outside letters, digits and underscore becomes a
  dash, and a dash after a dash is dropped.\<close>

definition component_char :: "char \<Rightarrow> char" where
  "component_char c = (if is_ascii_alphanumeric c \<or> c = CHR ''_'' then c else CHR ''-'')"

definition push_component :: "string \<Rightarrow> char \<Rightarrow> string" where
  "push_component out c =
     (let c' = component_char c
      in if c' = CHR ''-'' \<and> out \<noteq> [] \<and> last out = CHR ''-'' then out else out @ [c'])"

definition sanitize_component :: "string \<Rightarrow> string" where
  "sanitize_component s =
     (let trimmed = trim_end_char (CHR ''-'') (trim_start_char (CHR ''-'') (foldl push_component [] s))
      in if trimmed = [] then ''-'' else trimmed)"

text \<open>\<^verbatim>\<open>{idx:03}\<close>: three places, the sign of a negative index counting as one.\<close>

definition padded_idx :: "int \<Rightarrow> string" where
  "padded_idx i =
     (if i < 0 then ''-'' @ pad_left 2 (CHR ''0'') (nat_str (nat (- i)))
      else pad_left 3 (CHR ''0'') (nat_str (nat i)))"

definition log_components :: "string \<Rightarrow> string \<Rightarrow> int \<Rightarrow> string \<Rightarrow> string list" where
  "log_components run_id job_key idx sid =
     [sanitize_component run_id, sanitize_component job_key,
      padded_idx idx @ ''-'' @ sanitize_component sid @ ''.log'']"

subsection \<open>Repositories and tokens\<close>

definition register_repo ::
    "string \<Rightarrow> string \<Rightarrow> string \<Rightarrow> string option \<Rightarrow> string option \<Rightarrow> string option \<Rightarrow> db
     \<Rightarrow> (store_error, repo_row \<times> db) result" where
  "register_repo new_id' url name wpath network email d =
     (let key = normalize url in
      (case find (\<lambda>r. rp_normalized r = key) (db_repos d) of
         Some r \<Rightarrow>
           (let f = (\<lambda>r. r\<lparr>rp_url := url, rp_name := name, rp_workflow_path := wpath,
                           rp_network := network\<rparr>)
            in Ok (f r, d\<lparr>db_repos := update_rows (\<lambda>r. rp_normalized r = key) f (db_repos d)\<rparr>))
       | None \<Rightarrow>
           if new_id' \<in> rp_id ` set (db_repos d) then Err (SqlUnique ''ci_repo'')
           else
             (let r = \<lparr>rp_id = new_id', rp_url = url, rp_normalized = key, rp_name = name,
                       rp_workflow_path = wpath, rp_network = network, rp_enabled = True,
                       rp_created_email = email\<rparr>
              in Ok (r, d\<lparr>db_repos := db_repos d @ [r]\<rparr>))))"

definition set_repo_network :: "string \<Rightarrow> string option \<Rightarrow> db \<Rightarrow> bool \<times> db" where
  "set_repo_network rid network d =
     (let net = (case network of None \<Rightarrow> None | Some n \<Rightarrow> if trim n = [] then None else Some (trim n));
          P = (\<lambda>r. rp_id r = rid)
      in (0 < affected P (db_repos d),
          d\<lparr>db_repos := update_rows P (\<lambda>r. r\<lparr>rp_network := net\<rparr>) (db_repos d)\<rparr>))"

definition set_repo_enabled :: "string \<Rightarrow> bool \<Rightarrow> db \<Rightarrow> bool \<times> db" where
  "set_repo_enabled rid enabled d =
     (let P = (\<lambda>r. rp_id r = rid)
      in (0 < affected P (db_repos d),
          d\<lparr>db_repos := update_rows P (\<lambda>r. r\<lparr>rp_enabled := enabled\<rparr>) (db_repos d)\<rparr>))"

text \<open>Deleting a registration deletes its tokens and clears the reference of its runs.\<close>

definition delete_repo :: "string \<Rightarrow> db \<Rightarrow> bool \<times> db" where
  "delete_repo rid d =
     (0 < affected (\<lambda>r. rp_id r = rid) (db_repos d),
      d\<lparr>db_repos := filter (\<lambda>r. rp_id r \<noteq> rid) (db_repos d),
        db_tokens := filter (\<lambda>t. tk_repo_id t \<noteq> rid) (db_tokens d),
        db_runs := update_rows (\<lambda>r. rn_repo_id r = Some rid) (\<lambda>r. r\<lparr>rn_repo_id := None\<rparr>) (db_runs d)\<rparr>)"

definition repos :: "db \<Rightarrow> repo_row list" where
  "repos d = sort_key rp_name (sort_key rp_normalized (db_repos d))"

definition get_repo :: "string \<Rightarrow> db \<Rightarrow> repo_row option" where
  "get_repo rid d = find (\<lambda>r. rp_id r = rid) (db_repos d)"

definition repo_by_url :: "string \<Rightarrow> db \<Rightarrow> repo_row option" where
  "repo_by_url url d = find (\<lambda>r. rp_normalized r = normalize url) (db_repos d)"

definition create_repo_token ::
    "(string \<Rightarrow> string) \<Rightarrow> string \<Rightarrow> string \<Rightarrow> string \<Rightarrow> string \<Rightarrow> string option \<Rightarrow> db
     \<Rightarrow> (store_error, string \<times> db) result" where
  "create_repo_token sha secret key_id rid name email d =
     (let m = mint sha secret key_id in
      if mt_key_id m \<in> tk_id ` set (db_tokens d) then Err (SqlUnique ''ci_repo_token'')
      else if rid \<notin> rp_id ` set (db_repos d) then Err (SqlForeignKey ''ci_repo'')
      else Ok (mt_plaintext m,
        d\<lparr>db_tokens := db_tokens d @
            [\<lparr>tk_id = mt_key_id m, tk_repo_id = rid, tk_name = name,
              tk_secret_hash = mt_secret_hash m, tk_created_email = email,
              tk_last_used_at = None, tk_revoked_at = None\<rparr>]\<rparr>))"

text \<open>Active tokens first, and the newest first among them: rows are kept in order of creation.\<close>

definition repo_tokens :: "string \<Rightarrow> db \<Rightarrow> token_row list" where
  "repo_tokens rid d =
     sort_key (\<lambda>t. tk_revoked_at t \<noteq> None) (rev (filter (\<lambda>t. tk_repo_id t = rid) (db_tokens d)))"

definition revoke_repo_token :: "nat \<Rightarrow> string \<Rightarrow> db \<Rightarrow> bool \<times> db" where
  "revoke_repo_token now tid d =
     (let P = (\<lambda>t. tk_id t = tid \<and> tk_revoked_at t = None)
      in (0 < affected P (db_tokens d),
          d\<lparr>db_tokens := update_rows P (\<lambda>t. t\<lparr>tk_revoked_at := Some now\<rparr>) (db_tokens d)\<rparr>))"

text \<open>The joined row the token lookup selects: an unrevoked token with its enabled repository.\<close>

definition token_lookup :: "string \<Rightarrow> db \<Rightarrow> (token_row \<times> repo_row) option" where
  "token_lookup key_id d =
     find (\<lambda>(t, r). tk_id t = key_id \<and> tk_revoked_at t = None \<and> rp_id r = tk_repo_id t \<and> rp_enabled r)
       (List.product (db_tokens d) (db_repos d))"

definition authenticate_repo_token ::
    "(string \<Rightarrow> string) \<Rightarrow> nat \<Rightarrow> string \<Rightarrow> db \<Rightarrow> repo_row option \<times> db" where
  "authenticate_repo_token sha now presented d =
     (case parse_token presented of
        None \<Rightarrow> (None, d)
      | Some (key_id, secret) \<Rightarrow>
          (case token_lookup key_id d of
             None \<Rightarrow> (None, d)
           | Some (t, r) \<Rightarrow>
               if \<not> secret_matches sha secret (tk_secret_hash t) then (None, d)
               else (Some r,
                 d\<lparr>db_tokens := update_rows (\<lambda>t. tk_id t = key_id)
                     (\<lambda>t. t\<lparr>tk_last_used_at := Some now\<rparr>) (db_tokens d)\<rparr>)))"

subsection \<open>Users\<close>

definition upsert_user ::
    "nat \<Rightarrow> string \<Rightarrow> string \<Rightarrow> string option \<Rightarrow> string list \<Rightarrow> db \<Rightarrow> string \<times> db" where
  "upsert_user now subject email name admin_emails d =
     (let seed = (if to_ascii_lowercase email \<in> set admin_emails then ''admin'' else ''viewer'') in
      (case find (\<lambda>u. us_subject u = subject) (db_users d) of
         Some u \<Rightarrow>
           (let role = (if seed = ''admin'' then ''admin'' else us_role u);
                f = (\<lambda>u. u\<lparr>us_email := email, us_name := name, us_last_seen_at := now,
                           us_role := (if seed = ''admin'' then ''admin'' else us_role u)\<rparr>)
            in (role, d\<lparr>db_users := update_rows (\<lambda>u. us_subject u = subject) f (db_users d)\<rparr>))
       | None \<Rightarrow>
           (seed, d\<lparr>db_users := db_users d @
              [\<lparr>us_subject = subject, us_email = email, us_name = name, us_role = seed,
                us_last_seen_at = now\<rparr>]\<rparr>)))"

section \<open>Row updates\<close>

lemma ball_update_rows:
  "(\<forall>r\<in>set (update_rows P f rows). Q r) \<longleftrightarrow> (\<forall>r\<in>set rows. if P r then Q (f r) else Q r)"
  by (auto simp: update_rows_def)

lemma bex_update_rows:
  "(\<exists>r\<in>set (update_rows P f rows). Q r) \<longleftrightarrow> (\<exists>r\<in>set rows. if P r then Q (f r) else Q r)"
  by (auto simp: update_rows_def)

text \<open>A table is well-formed when its keys are distinct and each row satisfies the row invariant.\<close>

definition table_ok :: "('r \<Rightarrow> 'k) \<Rightarrow> ('r \<Rightarrow> bool) \<Rightarrow> 'r list \<Rightarrow> bool" where
  "table_ok key ok rows \<longleftrightarrow> distinct (map key rows) \<and> (\<forall>r\<in>set rows. ok r)"

lemma table_ok_Nil [simp]: "table_ok key ok []"
  by (simp add: table_ok_def)

lemma table_ok_update:
  assumes "table_ok key ok rows" "\<And>r. P r \<Longrightarrow> ok r \<Longrightarrow> ok (f r)" "\<And>r. P r \<Longrightarrow> key (f r) = key r"
  shows "table_ok key ok (update_rows P f rows)"
proof -
  have "map key (update_rows P f rows) = map key rows"
    by (simp add: update_rows_def assms(3))
  moreover have "\<forall>r\<in>set (update_rows P f rows). ok r"
    using assms(1,2) by (auto simp: ball_update_rows table_ok_def)
  ultimately show ?thesis using assms(1) by (simp add: table_ok_def)
qed

lemma table_ok_filter: "table_ok key ok rows \<Longrightarrow> table_ok key ok (filter P rows)"
  by (auto simp: table_ok_def distinct_map_filter)

lemma table_ok_snoc:
  "table_ok key ok rows \<Longrightarrow> key r \<notin> key ` set rows \<Longrightarrow> ok r \<Longrightarrow> table_ok key ok (rows @ [r])"
  by (auto simp: table_ok_def)

lemma table_ok_row: "table_ok key ok rows \<Longrightarrow> r \<in> set rows \<Longrightarrow> ok r"
  by (simp add: table_ok_def)

lemma table_ok_key: "table_ok key ok rows \<Longrightarrow> r \<in> set rows \<Longrightarrow> x \<in> set rows \<Longrightarrow> key r = key x \<Longrightarrow> r = x"
  by (auto simp: table_ok_def dest: distinct_map [THEN iffD1, THEN conjunct2, THEN inj_onD])

text \<open>Every statement that updates rows keeps their key, so looking a row up by key after the
  statement is looking it up before and updating what was found.\<close>

locale keyed_update =
  fixes key :: "'r \<Rightarrow> 'k"
    and upd :: "'r \<Rightarrow> 'r"
  assumes key_upd: "key (upd r) = key r"
begin

lemma keys_kept: "map key (update_rows P upd rows) = map key rows"
  by (simp add: update_rows_def key_upd)

lemma find_updated:
  "find (\<lambda>r. key r = k) (update_rows P upd rows)
   = map_option (\<lambda>r. if P r then upd r else r) (find (\<lambda>r. key r = k) rows)"
  by (induction rows) (auto simp: update_rows_def key_upd)

lemma update_by_key:
  "distinct (map key rows) \<Longrightarrow> r \<in> set rows \<Longrightarrow>
   update_rows (\<lambda>x. key x = key r \<and> g x) upd rows = map (\<lambda>x. if x = r \<and> g r then upd r else x) rows"
  unfolding update_rows_def
  by (intro map_cong refl) (auto dest: distinct_map [THEN iffD1, THEN conjunct2, THEN inj_onD])

end

text \<open>An update guarded against final rows leaves them alone and affects nothing at their key.\<close>

locale guarded_update = keyed_update key upd
  for key :: "'r \<Rightarrow> 'k" and upd :: "'r \<Rightarrow> 'r" +
  fixes guard :: "'r \<Rightarrow> bool"
    and final :: "'r \<Rightarrow> bool"
  assumes guard_final: "guard r \<Longrightarrow> \<not> final r"
begin

lemma final_kept: "final r \<Longrightarrow> (if P r \<and> guard r then upd r else r) = r"
  using guard_final by auto

lemma final_untouched:
  assumes "distinct (map key rows)" "r \<in> set rows" "final r"
  shows "update_rows (\<lambda>x. key x = key r \<and> guard x) upd rows = rows"
    and "affected (\<lambda>x. key x = key r \<and> guard x) rows = 0"
proof -
  have ng: "\<not> guard r" using guard_final assms(3) by blast
  have "x = r" if "x \<in> set rows" "key x = key r" for x
    using assms(1,2) that by (metis distinct_map inj_onD)
  with ng have none: "x \<in> set rows \<Longrightarrow> \<not> (key x = key r \<and> guard x)" for x by blast
  show "update_rows (\<lambda>x. key x = key r \<and> guard x) upd rows = rows"
    unfolding update_rows_def by (rule map_idI) (use none in auto)
  show "affected (\<lambda>x. key x = key r \<and> guard x) rows = 0"
    by (simp add: affected_def filter_empty_conv none)
qed

end

abbreviation finished :: "job_row \<Rightarrow> bool" where
  "finished j \<equiv> job_terminal (jr_status j)"

interpretation claim: guarded_update jr_id "claim_row now runner attempt" unfinished finished
  for now runner attempt
  by unfold_locales (simp_all add: claim_row_def)

interpretation note_err: guarded_update jr_id "note_row err" unfinished finished
  for err
  by unfold_locales (simp_all add: note_row_def)

interpretation start: guarded_update jr_id "start_row now runner sandbox fp attempt" unfinished finished
  for now runner sandbox fp attempt
  by unfold_locales (simp_all add: start_row_def)

interpretation queue: guarded_update jr_id "queue_row now" "\<lambda>j. jr_status j = JPending" finished
  for now
  by unfold_locales (simp_all add: queue_row_def job_terminal_def)

interpretation unqueue: guarded_update jr_id unqueue_row "\<lambda>j. jr_status j = JQueued" finished
  by unfold_locales (simp_all add: unqueue_row_def job_terminal_def)

interpretation cancel_job: guarded_update jr_id "cancel_job_row now" unfinished finished
  for now
  by unfold_locales (simp_all add: cancel_job_row_def)

interpretation cancel_run: guarded_update rn_id "cancel_run_row now"
    "\<lambda>r. \<not> run_terminal (rn_status r)" "\<lambda>r. run_terminal (rn_status r)"
  for now
  by unfold_locales (simp_all add: cancel_run_row_def)

interpretation finish_job: keyed_update jr_id "set_job_row now st err"
  for now st err
  by unfold_locales (simp add: set_job_row_def)

interpretation outputs: keyed_update jr_id "outputs_row outs"
  for outs
  by unfold_locales (simp add: outputs_row_def)

interpretation set_run: keyed_update rn_id "set_run_row now st err"
  for now st err
  by unfold_locales (simp add: set_run_row_def)

section \<open>The life of a job row\<close>

definition job_row_ok :: "job_row \<Rightarrow> bool" where
  "job_row_ok j \<longleftrightarrow>
     (case jr_status j of
        JPending \<Rightarrow> jr_queued_at j = None \<and> jr_runner_hd_id j = None \<and> jr_sandbox_id j = None
          \<and> jr_started_at j = None \<and> jr_finished_at j = None
      | JQueued \<Rightarrow> jr_queued_at j \<noteq> None \<and> jr_runner_hd_id j = None \<and> jr_sandbox_id j = None
          \<and> jr_started_at j = None \<and> jr_finished_at j = None
      | JRunning \<Rightarrow> jr_runner_hd_id j \<noteq> None \<and> jr_started_at j \<noteq> None \<and> jr_finished_at j = None
      | _ \<Rightarrow> jr_finished_at j \<noteq> None)"

definition jobs_ok :: "db \<Rightarrow> bool" where
  "jobs_ok d \<longleftrightarrow> distinct (map jr_id (db_jobs d)) \<and> (\<forall>j\<in>set (db_jobs d). job_row_ok j)"

lemma coalesce_not_None: "coalesce x (Some y) \<noteq> None"
  by (cases x) auto

lemma job_row_ok_steps:
  "job_row_ok (new_job_row now run_id p)"
  "\<not> finished j \<Longrightarrow> job_row_ok j \<Longrightarrow> job_row_ok (claim_row now runner attempt j)"
  "job_row_ok j \<Longrightarrow> job_row_ok (note_row msg j)"
  "\<not> finished j \<Longrightarrow> job_row_ok j \<Longrightarrow> job_row_ok (start_row now runner sandbox fp attempt j)"
  "jr_status j = JPending \<Longrightarrow> job_row_ok j \<Longrightarrow> job_row_ok (queue_row now j)"
  "jr_status j = JQueued \<Longrightarrow> job_row_ok j \<Longrightarrow> job_row_ok (unqueue_row j)"
  "job_row_ok j \<Longrightarrow> job_row_ok (cancel_job_row now j)"
  "job_terminal st \<Longrightarrow> job_row_ok (set_job_row now st err j)"
  "job_row_ok j \<Longrightarrow> job_row_ok (outputs_row outs j)"
  using coalesce_not_None
  by (auto simp: job_row_ok_def new_job_row_def claim_row_def note_row_def start_row_def queue_row_def
      unqueue_row_def cancel_job_row_def set_job_row_def outputs_row_def job_terminal_def
      split: job_status.splits)

text \<open>What the program does to the job table: the statements above, with \<^verbatim>\<open>set_job_status\<close> only ever
  called with a terminal status.\<close>

inductive job_step :: "db \<Rightarrow> db \<Rightarrow> bool" where
  step_create: "create_run now run_id req p d = Ok d' \<Longrightarrow> job_step d d'"
| step_claim: "job_step d (snd (claim_job now jid runner attempt d))"
| step_note: "job_step d (note_job_error jid err d)"
| step_start: "job_step d (snd (start_job now jid runner sandbox fp attempt d))"
| step_queue: "job_step d (snd (queue_job now jid d))"
| step_unqueue: "job_step d (snd (unqueue_job jid d))"
| step_finish: "job_terminal st \<Longrightarrow> job_step d (set_job_status now jid st err d)"
| step_outputs: "job_step d (set_job_outputs jid outs d)"
| step_cancel: "job_step d (snd (cancel_run now run_id d))"
| step_roll_up: "job_step d (snd (roll_up_run now run_id d))"

inductive_cases job_stepE: "job_step d d'"

lemma jobs_ok_update_rows:
  assumes "jobs_ok d" "\<And>j. P j \<Longrightarrow> job_row_ok j \<Longrightarrow> job_row_ok (f j)" "\<And>j. jr_id (f j) = jr_id j"
  shows "jobs_ok (d\<lparr>db_jobs := update_rows P f (db_jobs d)\<rparr>)"
proof -
  have "map jr_id (update_rows P f (db_jobs d)) = map jr_id (db_jobs d)"
    by (simp add: update_rows_def assms(3))
  moreover have "\<forall>j\<in>set (update_rows P f (db_jobs d)). job_row_ok j"
    using assms(1,2) by (auto simp: update_rows_def jobs_ok_def)
  ultimately show ?thesis using assms(1) by (simp add: jobs_ok_def)
qed

lemma jobs_ok_update_job:
  assumes "jobs_ok d" "\<And>j. g j \<Longrightarrow> job_row_ok j \<Longrightarrow> job_row_ok (f j)" "\<And>j. jr_id (f j) = jr_id j"
  shows "jobs_ok (snd (update_job jid g f d))"
  unfolding update_job_def Let_def snd_conv
  by (rule jobs_ok_update_rows) (use assms in auto)

lemma create_run_Ok:
  assumes "create_run now run_id req p d = Ok d'"
  shows "d' = d\<lparr>db_runs := db_runs d @ [new_run_row now run_id req p],
                db_jobs := db_jobs d @ map (new_job_row now run_id) (pl_jobs p)\<rparr>"
    and "run_id \<notin> rn_id ` set (db_runs d)"
    and "distinct (map jr_id (map (new_job_row now run_id) (pl_jobs p)))"
    and "jr_id ` set (map (new_job_row now run_id) (pl_jobs p)) \<inter> jr_id ` set (db_jobs d) = {}"
  using assms unfolding create_run_def Let_def
  by (auto simp del: map_map set_map split: if_splits)

lemma create_run_jobs_ok: "jobs_ok d \<Longrightarrow> create_run now run_id req p d = Ok d' \<Longrightarrow> jobs_ok d'"
proof -
  assume ok: "jobs_ok d" and c: "create_run now run_id req p d = Ok d'"
  let ?new = "map (new_job_row now run_id) (pl_jobs p)"
  note create = create_run_Ok [OF c]
  have "distinct (map jr_id (db_jobs d @ ?new))"
    using create(3,4) ok unfolding jobs_ok_def map_append distinct_append set_map by blast
  moreover have "\<forall>j\<in>set ?new. job_row_ok j" by (simp add: job_row_ok_steps(1))
  ultimately show ?thesis using ok by (auto simp: create(1) jobs_ok_def)
qed

lemma jobs_ok_cancel: "jobs_ok d \<Longrightarrow> jobs_ok (snd (cancel_run now run_id d))"
  using jobs_ok_update_rows [of d "\<lambda>j. jr_run_id j = run_id \<and> unfinished j" "cancel_job_row now"]
  by (auto simp: cancel_run_def Let_def job_row_ok_steps cancel_job.key_upd jobs_ok_def)

lemma jobs_ok_step: "job_step d d' \<Longrightarrow> jobs_ok d \<Longrightarrow> jobs_ok d'"
proof (induction rule: job_step.induct)
  case (step_create now run_id req p d d')
  then show ?case by (metis create_run_jobs_ok)
next
  case (step_roll_up d now run_id)
  then show ?case by (simp add: roll_up_run_def Let_def set_run_status_def jobs_ok_def)
qed (auto simp: claim_job_def note_job_error_def start_job_def queue_job_def unqueue_job_def
      set_job_status_def set_job_outputs_def job_row_ok_steps jobs_ok_cancel
      claim.key_upd note_err.key_upd start.key_upd queue.key_upd unqueue.key_upd finish_job.key_upd
      outputs.key_upd intro!: jobs_ok_update_job)

interpretation job_table: step_invariant "\<lambda>d. d = empty_db" job_step jobs_ok
  by unfold_locales (simp add: empty_db_def jobs_ok_def, blast intro: jobs_ok_step)

section \<open>Results of dependencies\<close>

text \<open>A binary choice by rank folds to a maximum: the locale states it for any rank.\<close>

locale worst_of =
  fixes rank :: "'a \<Rightarrow> nat"
    and pick :: "'a \<Rightarrow> 'a \<Rightarrow> 'a"
  assumes pick: "pick a b = (if rank a < rank b then b else a)"
begin

lemma rank_pick: "rank (pick a b) = max (rank a) (rank b)"
  by (simp add: pick)

lemma rank_fold: "rank (foldl pick a xs) = fold max (map rank xs) (rank a)"
  by (induction xs arbitrary: a) (auto simp: rank_pick max.commute)

lemma fold_member: "foldl pick a xs \<in> insert a (set xs)"
  by (induction xs arbitrary: a) (auto simp: pick split: if_splits)

lemma rank_fold_bounds:
  "rank a \<le> rank (foldl pick a xs) \<and> (\<forall>x\<in>set xs. rank x \<le> rank (foldl pick a xs))"
proof (induction xs arbitrary: a)
  case (Cons x xs)
  from Cons [of "pick a x"] show ?case by (auto simp: rank_pick)
qed simp

end

interpretation worse: worst_of status_rank worse_of
  by unfold_locales (simp add: worse_of_def)

lemma bm_wf_add_need: "bm_wf m \<Longrightarrow> bm_wf (add_need m j)"
  by (auto simp: add_need_def Let_def split: prod.split)

lemma add_need_result:
  assumes "bm_wf m"
  shows "map_option fst (bm_get (add_need m j) b) =
    (if jr_base_id j = b
     then Some (worse_of (case bm_get m b of None \<Rightarrow> ''success'' | Some e \<Rightarrow> fst e)
            (job_status_str (jr_status j)))
     else map_option fst (bm_get m b))"
  using assms by (auto simp: add_need_def Let_def bm_get_insert split: prod.split option.split)

lemma needs_entries_result:
  assumes "bm_wf m"
  shows "map_option fst (bm_get (foldl add_need m jobs) b) =
    (if map_option fst (bm_get m b) = None \<and> b \<notin> jr_base_id ` set jobs then None
     else Some (foldl worse_of (case bm_get m b of None \<Rightarrow> ''success'' | Some e \<Rightarrow> fst e)
       (map (\<lambda>j. job_status_str (jr_status j)) (filter (\<lambda>j. jr_base_id j = b) jobs))))"
  using assms
proof (induction jobs arbitrary: m)
  case Nil
  then show ?case by (auto split: option.split)
next
  case (Cons j jobs)
  have "(case bm_get (add_need m j) b of None \<Rightarrow> ''success'' | Some e \<Rightarrow> fst e) =
      (case map_option fst (bm_get (add_need m j) b) of None \<Rightarrow> ''success'' | Some r \<Rightarrow> r)"
    by (simp split: option.split)
  with Cons.IH [OF bm_wf_add_need [OF Cons.prems]] show ?case
    unfolding foldl_Cons
    by (auto simp: add_need_result [OF Cons.prems] split: option.splits)
qed

lemma status_str_rank_0: "status_rank (job_status_str st) = 0 \<longleftrightarrow> st = JSuccess"
  by (cases st) (auto simp: status_rank_def)

section \<open>Properties\<close>

definition sample_cell :: job_plan where
  "sample_cell = plan_cell no_json ''build'' sample_job target_any ''build'' []"

definition sample_req :: run_request where
  "sample_req = \<lparr>rq_workflow_id = ''w'', rq_repo_id = None, rq_repo_url = ''u'', rq_git_ref = ''main'',
     rq_sha = ''s'', rq_before_sha = ''b'', rq_changes = default_changes, rq_actor_subject = None,
     rq_actor_email = None, rq_source = []\<rparr>"

definition sample_run_plan :: plan where
  "sample_run_plan = \<lparr>pl_workflow_path = ''ci.yml'', pl_workflow_name = None, pl_env = [],
     pl_jobs = [sample_cell]\<rparr>"

definition sample_db :: db where
  "sample_db = empty_db\<lparr>db_runs := [new_run_row 1 ''r'' sample_req sample_run_plan],
     db_jobs := [new_job_row 1 ''r'' sample_cell]\<rparr>"

lemma sample_db_created: "create_run 1 ''r'' sample_req sample_run_plan empty_db = Ok sample_db"
  by (simp add: create_run_def Let_def sample_db_def empty_db_def sample_req_def sample_run_plan_def)

lemma terminal_simps:
  "run_terminal RCancelled" "run_terminal RSuccess" "run_terminal RFailure"
  "\<not> run_terminal RQueued" "\<not> run_terminal RRunning"
  "job_terminal JCancelled" "job_terminal JSuccess" "job_terminal JFailure" "job_terminal JSkipped"
  "\<not> job_terminal JPending" "\<not> job_terminal JQueued" "\<not> job_terminal JRunning"
  by (simp_all add: run_terminal_def job_terminal_def)

text \<open>In every database the program can reach, job ids are distinct and each job row is
  consistent with its status: pending and queued jobs have no runner, no VM and have not started
  (a queued one has the time it was queued), a running job has a runner and a start time, a
  finished one has an end time.\<close>

theorem job_rows_consistent:
  assumes "reach (\<lambda>d. d = empty_db) job_step d"
  shows "jobs_ok d"
  using assms by (rule job_table.inv_reach)

theorem job_rows_consistent_witness: "jobs_ok (snd (queue_job 2 ''r.build'' sample_db))"
proof (rule job_rows_consistent)
  have "reach (\<lambda>d. d = empty_db) job_step empty_db" by (rule reach_init) simp
  then have "reach (\<lambda>d. d = empty_db) job_step sample_db"
    by (rule reach_step) (rule step_create [OF sample_db_created])
  then show "reach (\<lambda>d. d = empty_db) job_step (snd (queue_job 2 ''r.build'' sample_db))"
    by (rule reach_step) (rule step_queue)
qed

text \<open>C17. A finished job is not restarted: claiming, starting, queueing and un-queueing it report that
  nothing was done and change nothing, and neither do a late error note and the cancellation of
  its run touch its row.\<close>

theorem finished_jobs_stay:
  assumes "distinct (map jr_id (db_jobs d))" "j \<in> set (db_jobs d)" "job_terminal (jr_status j)"
  shows "claim_job now (jr_id j) runner attempt d = (False, d)
    \<and> start_job now (jr_id j) runner sandbox fp attempt d = (False, d)
    \<and> queue_job now (jr_id j) d = (False, d)
    \<and> unqueue_job (jr_id j) d = (False, d)
    \<and> note_job_error (jr_id j) err d = d
    \<and> j \<in> set (db_jobs (snd (cancel_run now run_id d)))"
proof (intro conjI)
  have cancel: "j \<in> set (update_rows (\<lambda>x. jr_run_id x = run_id \<and> unfinished x) (cancel_job_row now) (db_jobs d))"
    using assms(2,3) by (force simp: update_rows_def image_iff)
  show "claim_job now (jr_id j) runner attempt d = (False, d)"
    using claim.final_untouched [OF assms] by (simp add: claim_job_def update_job_def)
  show "start_job now (jr_id j) runner sandbox fp attempt d = (False, d)"
    using start.final_untouched [OF assms] by (simp add: start_job_def update_job_def)
  show "queue_job now (jr_id j) d = (False, d)"
    using queue.final_untouched [OF assms] by (simp add: queue_job_def update_job_def)
  show "unqueue_job (jr_id j) d = (False, d)"
    using unqueue.final_untouched [OF assms] by (simp add: unqueue_job_def update_job_def)
  show "note_job_error (jr_id j) err d = d"
    using note_err.final_untouched [OF assms] by (simp add: note_job_error_def update_job_def)
  show "j \<in> set (db_jobs (snd (cancel_run now run_id d)))"
    using cancel assms(2) by (simp add: cancel_run_def Let_def)
qed

theorem finished_jobs_stay_witness:
  "claim_job 9 ''r.build'' ''hd'' 2 (set_job_status 3 ''r.build'' JSuccess None sample_db)
   = (False, set_job_status 3 ''r.build'' JSuccess None sample_db)"
proof -
  let ?j = "set_job_row 3 JSuccess None (new_job_row 1 ''r'' sample_cell)"
  have jid: "jr_id ?j = ''r.build''"
    by (simp add: set_job_row_def new_job_row_def job_id_def sample_cell_def)
  have jobs: "db_jobs (set_job_status 3 ''r.build'' JSuccess None sample_db) = [?j]"
    using jid by (simp add: set_job_status_def update_job_def update_rows_def sample_db_def set_job_row_def)
  have "distinct (map jr_id (db_jobs (set_job_status 3 ''r.build'' JSuccess None sample_db)))"
    and "?j \<in> set (db_jobs (set_job_status 3 ''r.build'' JSuccess None sample_db))"
    and "job_terminal (jr_status ?j)"
    unfolding jobs by (simp_all add: set_job_row_def job_terminal_def)
  from finished_jobs_stay [OF this, unfolded jid] show ?thesis by blast
qed

text \<open>A run reports success exactly when every one of its jobs succeeded or was skipped, failure
  exactly when a job failed and none was cancelled, and running exactly when some job is
  unfinished and none failed or was cancelled; the run's row then has that status, and no job
  changes.\<close>

theorem roll_up_run_status:
  "roll_up_run now run_id d = (st, d') \<Longrightarrow>
     (st = RSuccess \<longleftrightarrow> set (job_statuses run_id d) \<subseteq> {JSuccess, JSkipped})
     \<and> (st = RFailure \<longleftrightarrow> JFailure \<in> set (job_statuses run_id d) \<and> JCancelled \<notin> set (job_statuses run_id d))
     \<and> (st = RCancelled \<longleftrightarrow> JCancelled \<in> set (job_statuses run_id d))
     \<and> (st = RRunning \<longleftrightarrow> (\<exists>s\<in>set (job_statuses run_id d). \<not> job_terminal s)
          \<and> JFailure \<notin> set (job_statuses run_id d) \<and> JCancelled \<notin> set (job_statuses run_id d))
     \<and> map_option rn_status (get_run run_id d') = map_option (\<lambda>_. st) (get_run run_id d)
     \<and> db_jobs d' = db_jobs d"
proof -
  assume R: "roll_up_run now run_id d = (st, d')"
  let ?S = "job_statuses run_id d"
  have st: "st = roll_up_status ?S" and d': "d' = set_run_status now run_id st None d"
    using R by (auto simp: roll_up_run_def Let_def)
  have all: "x \<in> {JSuccess, JSkipped} \<or> \<not> job_terminal x \<or> x = JFailure \<or> x = JCancelled" for x
    by (cases x) (auto simp: job_terminal_def)
  have fin: "job_terminal JSuccess" "job_terminal JSkipped" by (simp_all add: job_terminal_def)
  have "map_option rn_status (get_run run_id d') = map_option (\<lambda>_. st) (get_run run_id d)"
    unfolding get_run_def d' set_run_status_def
    by (simp add: set_run.find_updated option.map_comp comp_def)
       (auto simp: set_run_row_def find_Some_iff intro!: option.map_cong)
  moreover have "st = RSuccess \<longleftrightarrow> set ?S \<subseteq> {JSuccess, JSkipped}"
    by (auto simp: st roll_up_status_def list_ex_iff list_all_iff)
  moreover have "st = RFailure \<longleftrightarrow> JFailure \<in> set ?S \<and> JCancelled \<notin> set ?S"
    by (auto simp: st roll_up_status_def list_ex_iff)
  moreover have "st = RCancelled \<longleftrightarrow> JCancelled \<in> set ?S"
    by (auto simp: st roll_up_status_def list_ex_iff)
  moreover have "st = RRunning \<longleftrightarrow> (\<exists>s\<in>set ?S. \<not> job_terminal s) \<and> JFailure \<notin> set ?S \<and> JCancelled \<notin> set ?S"
  proof -
    have "(\<exists>s\<in>set ?S. \<not> job_terminal s) \<longleftrightarrow> \<not> set ?S \<subseteq> {JSuccess, JSkipped}"
      if "JFailure \<notin> set ?S" "JCancelled \<notin> set ?S"
      using all fin that by blast
    then show ?thesis
      by (cases "JFailure \<in> set ?S"; cases "JCancelled \<in> set ?S")
         (auto simp: st roll_up_status_def list_ex_iff list_all_iff)
  qed
  ultimately show ?thesis by (simp add: d' set_run_status_def)
qed

theorem roll_up_run_status_witness: "fst (roll_up_run 2 ''r'' sample_db) = RRunning"
proof -
  obtain st d' where R: "roll_up_run 2 ''r'' sample_db = (st, d')" by fastforce
  have "set (job_statuses ''r'' sample_db) = {JPending}"
    by (simp add: job_statuses_def sample_db_def new_job_row_def)
  with roll_up_run_status [OF R] R show ?thesis by (simp add: job_terminal_def)
qed

text \<open>Cancelling a run that has not finished cancels it and every unfinished job of it, and says how
  many; a run that is already finished, or does not exist, is reported as such and nothing
  changes. Jobs of other runs are never touched.\<close>

theorem cancel_run_effect:
  "if run_active run_id d
   then fst (cancel_run now run_id d) =
          Some (length (filter (\<lambda>j. jr_run_id j = run_id \<and> unfinished j) (db_jobs d)))
        \<and> map_option rn_status (get_run run_id (snd (cancel_run now run_id d)))
          \<in> {Some RCancelled, map_option rn_status (get_run run_id d)}
        \<and> \<not> run_active run_id (snd (cancel_run now run_id d))
        \<and> \<not> list_ex (\<lambda>j. jr_run_id j = run_id \<and> unfinished j) (db_jobs (snd (cancel_run now run_id d)))
        \<and> filter (\<lambda>j. jr_run_id j \<noteq> run_id) (db_jobs (snd (cancel_run now run_id d)))
          = filter (\<lambda>j. jr_run_id j \<noteq> run_id) (db_jobs d)
   else cancel_run now run_id d = (None, d)"
proof -
  have act: "affected (\<lambda>r. rn_id r = run_id \<and> \<not> run_terminal (rn_status r)) (db_runs d) = 0 \<longleftrightarrow> \<not> run_active run_id d"
    by (auto simp: affected_def run_active_def filter_empty_conv list_ex_iff)
  let ?d' = "d\<lparr>db_runs := update_rows (\<lambda>r. rn_id r = run_id \<and> \<not> run_terminal (rn_status r)) (cancel_run_row now) (db_runs d),
      db_jobs := update_rows (\<lambda>j. jr_run_id j = run_id \<and> unfinished j) (cancel_job_row now) (db_jobs d)\<rparr>"
  have c: "cancel_run now run_id d =
      (Some (affected (\<lambda>j. jr_run_id j = run_id \<and> unfinished j) (db_jobs d)), ?d')" if "run_active run_id d"
    using that act by (simp add: cancel_run_def Let_def)
  have "\<not> run_active run_id ?d'"
    by (simp add: run_active_def list_ex_iff bex_update_rows cancel_run_row_def terminal_simps)
  moreover have "\<not> list_ex (\<lambda>j. jr_run_id j = run_id \<and> unfinished j) (db_jobs ?d')"
    by (simp add: list_ex_iff bex_update_rows cancel_job_row_def terminal_simps)
  moreover have "filter (\<lambda>j. jr_run_id j \<noteq> run_id) (update_rows (\<lambda>j. jr_run_id j = run_id \<and> unfinished j) (cancel_job_row now) js)
      = filter (\<lambda>j. jr_run_id j \<noteq> run_id) js" for js
    by (induction js) (auto simp: update_rows_def cancel_job_row_def)
  moreover have "map_option rn_status (get_run run_id ?d') \<in> {Some RCancelled, map_option rn_status (get_run run_id d)}"
    unfolding get_run_def
    by (cases "find (\<lambda>r. rn_id r = run_id) (db_runs d)")
       (auto simp: cancel_run.find_updated cancel_run_row_def)
  ultimately show ?thesis
  proof (cases "run_active run_id d")
    case True
    then show ?thesis
      using c [OF True] \<open>\<not> run_active run_id ?d'\<close> \<open>\<not> list_ex _ (db_jobs ?d')\<close>
        \<open>map_option rn_status (get_run run_id ?d') \<in> _\<close>
        \<open>\<And>js. filter _ (update_rows _ _ js) = _\<close>
      by (simp add: affected_def)
  next
    case False
    then show ?thesis using act by (simp add: cancel_run_def Let_def)
  qed
qed

text \<open>What a cancellation does not survive: the status a job reports when it ends is written without
  looking at the row, so a job cancelled while its last step runs can end as a success, and the
  roll-up then reports the cancelled run as passed.\<close>

lemma cancelled_run_revived:
  "let d1 = snd (cancel_run 2 ''r'' sample_db);
       d2 = set_job_status 3 ''r.build'' JSuccess None d1
   in is_job_cancelled ''r.build'' d1 \<and> fst (roll_up_run 4 ''r'' d2) = RSuccess"
  by (simp add: Let_def sample_db_def empty_db_def cancel_run_def affected_def new_run_row_def
      new_job_row_def job_id_def sample_cell_def terminal_simps update_rows_def cancel_job_row_def
      is_job_cancelled_def get_job_def set_job_status_def update_job_def set_job_row_def
      roll_up_run_def roll_up_status_def job_statuses_def)

lemma needs_entries_base:
  "map_option fst (bm_get (needs_entries jobs) b) =
     (if b \<in> jr_base_id ` set jobs
      then Some (foldl worse_of ''success''
        (map (\<lambda>j. job_status_str (jr_status j)) (filter (\<lambda>j. jr_base_id j = b) jobs)))
      else None)"
  using needs_entries_result [of "[]" jobs b] by (auto simp: needs_entries_def)

text \<open>\<^verbatim>\<open>needs.<job>.result\<close> is the worst result among the cells of that job: it is the status of one
  of them (or success when all succeeded), no cell ranks worse, and it is success exactly when
  every cell succeeded.\<close>

theorem needs_result_worst:
  assumes "map_option fst (bm_get (needs_entries jobs) b) = Some res"
  shows "(\<exists>j\<in>set jobs. jr_base_id j = b)
    \<and> (\<forall>j\<in>set jobs. jr_base_id j = b \<longrightarrow> status_rank (job_status_str (jr_status j)) \<le> status_rank res)
    \<and> (res = ''success'' \<or> (\<exists>j\<in>set jobs. jr_base_id j = b \<and> res = job_status_str (jr_status j)))
    \<and> (res = ''success'' \<longleftrightarrow> (\<forall>j\<in>set jobs. jr_base_id j = b \<longrightarrow> jr_status j = JSuccess))"
proof -
  let ?strs = "map (\<lambda>j. job_status_str (jr_status j)) (filter (\<lambda>j. jr_base_id j = b) jobs)"
  from assms have ex: "b \<in> jr_base_id ` set jobs" and res: "res = foldl worse_of ''success'' ?strs"
    by (auto simp: needs_entries_base split: if_splits)
  have bound: "\<forall>j\<in>set jobs. jr_base_id j = b \<longrightarrow> status_rank (job_status_str (jr_status j)) \<le> status_rank res"
    using worse.rank_fold_bounds [of "''success''" ?strs] by (simp add: res)
  have mem: "res = ''success'' \<or> (\<exists>j\<in>set jobs. jr_base_id j = b \<and> res = job_status_str (jr_status j))"
    using worse.fold_member [of "''success''" ?strs] by (auto simp: res)
  have rank0: "status_rank ''success'' = 0" by (simp add: status_rank_def)
  have "(\<forall>j\<in>set jobs. jr_base_id j = b \<longrightarrow> jr_status j = JSuccess)" if "res = ''success''"
    using bound that rank0 status_str_rank_0 by auto
  moreover have "res = ''success''" if "\<forall>j\<in>set jobs. jr_base_id j = b \<longrightarrow> jr_status j = JSuccess"
    using mem that by auto
  ultimately show ?thesis using ex bound mem by blast
qed

theorem needs_result_worst_witness:
  "\<exists>j\<in>set [new_job_row 1 ''r'' sample_cell]. jr_base_id j = ''build''"
proof -
  have "map_option fst (bm_get (needs_entries [new_job_row 1 ''r'' sample_cell]) ''build'') = Some ''pending''"
    by (simp add: needs_entries_base new_job_row_def sample_cell_def worse_of_def status_rank_def)
  from needs_result_worst [OF this] show ?thesis by blast
qed

lemma token_lookup_Some:
  "token_lookup key_id d = Some (t, r) \<Longrightarrow>
   t \<in> set (db_tokens d) \<and> r \<in> set (db_repos d) \<and> tk_id t = key_id \<and> tk_revoked_at t = None
   \<and> rp_id r = tk_repo_id t \<and> rp_enabled r"
  unfolding token_lookup_def by (auto dest!: find_SomeD)

lemma token_lookup_None:
  "token_lookup key_id d = None \<longleftrightarrow>
   \<not> (\<exists>t\<in>set (db_tokens d). \<exists>r\<in>set (db_repos d). tk_id t = key_id \<and> tk_revoked_at t = None
       \<and> rp_id r = tk_repo_id t \<and> rp_enabled r)"
  unfolding token_lookup_def by (auto simp: find_None_iff)

text \<open>A submit token authenticates only as an enabled repository it was issued for: the token is
  stored and unrevoked, the presented secret has the stored digest, and the repository returned
  is the one the token names. Authenticating changes at most the time the token was last used.\<close>

theorem authenticate_sound:
  assumes "authenticate_repo_token sha now presented d = (Some r, d')"
  shows "\<exists>key secret t. parse_token presented = Some (key, secret) \<and> t \<in> set (db_tokens d)
      \<and> tk_id t = key \<and> tk_revoked_at t = None \<and> sha secret = tk_secret_hash t
      \<and> r \<in> set (db_repos d) \<and> rp_id r = tk_repo_id t \<and> rp_enabled r
      \<and> db_repos d' = db_repos d \<and> db_runs d' = db_runs d
      \<and> map tk_secret_hash (db_tokens d') = map tk_secret_hash (db_tokens d)"
proof -
  from assms obtain key secret t where p: "parse_token presented = Some (key, secret)"
    and l: "token_lookup key d = Some (t, r)" and s: "secret_matches sha secret (tk_secret_hash t)"
    and d': "d' = d\<lparr>db_tokens := update_rows (\<lambda>t. tk_id t = key)
                     (\<lambda>t. t\<lparr>tk_last_used_at := Some now\<rparr>) (db_tokens d)\<rparr>"
    by (auto simp: authenticate_repo_token_def split: option.splits if_splits)
  with token_lookup_Some [OF l] show ?thesis
    by (auto simp: secret_matches_def update_rows_def)
qed

definition demo_tokens_db :: db where
  "demo_tokens_db = empty_db\<lparr>
     db_repos := [\<lparr>rp_id = ''repo'', rp_url = ''u'', rp_normalized = ''u'', rp_name = ''u'',
       rp_workflow_path = None, rp_network = None, rp_enabled = True, rp_created_email = None\<rparr>],
     db_tokens := [\<lparr>tk_id = ''k1'', tk_repo_id = ''repo'', tk_name = [], tk_secret_hash = ''s3'',
       tk_created_email = None, tk_last_used_at = None, tk_revoked_at = None\<rparr>]\<rparr>"

theorem authenticate_sound_witness:
  "\<exists>t. t \<in> set (db_tokens demo_tokens_db) \<and> tk_id t = ''k1'' \<and> tk_secret_hash t = ''s3''"
proof -
  have p: "parse_token ''cis_k1.s3'' = Some (''k1'', ''s3'')" by code_simp
  obtain r d' where A: "authenticate_repo_token (\<lambda>x. x) 7 ''cis_k1.s3'' demo_tokens_db = (Some r, d')"
    using p
    by (simp add: authenticate_repo_token_def token_lookup_def demo_tokens_db_def secret_matches_def)
  show ?thesis using authenticate_sound [OF A] p by (metis option.inject prod.inject)
qed

text \<open>A revoked token, a token of a paused repository and a token of a deleted repository never
  authenticate, whatever secret is presented with it.\<close>

theorem authenticate_refuses:
  assumes "parse_token presented = Some (key, secret)"
  shows "fst (authenticate_repo_token sha now presented (snd (revoke_repo_token t0 key d))) = None
    \<and> (distinct (map tk_id (db_tokens d)) \<and> t \<in> set (db_tokens d) \<and> tk_id t = key \<longrightarrow>
        fst (authenticate_repo_token sha now presented (snd (set_repo_enabled (tk_repo_id t) False d))) = None
        \<and> fst (authenticate_repo_token sha now presented (snd (delete_repo (tk_repo_id t) d))) = None)"
proof -
  have refuse: "fst (authenticate_repo_token sha now presented e) = None" if "token_lookup key e = None" for e
    using assms that by (simp add: authenticate_repo_token_def)
  have "token_lookup key (snd (revoke_repo_token t0 key d)) = None"
    by (simp add: token_lookup_None revoke_repo_token_def Let_def bex_update_rows)
  moreover have "token_lookup key (snd (set_repo_enabled (tk_repo_id t) False d)) = None
      \<and> token_lookup key (snd (delete_repo (tk_repo_id t) d)) = None"
    if d: "distinct (map tk_id (db_tokens d))" and t: "t \<in> set (db_tokens d)" "tk_id t = key"
  proof -
    have uniq: "x = t" if "x \<in> set (db_tokens d)" "tk_id x = key" for x
      using d t that by (metis distinct_map inj_onD)
    have "token_lookup key (snd (set_repo_enabled (tk_repo_id t) False d)) = None"
      unfolding token_lookup_None using uniq
      by (simp add: set_repo_enabled_def Let_def bex_update_rows)
    moreover have "token_lookup key (snd (delete_repo (tk_repo_id t) d)) = None"
      unfolding token_lookup_None using uniq by (simp add: delete_repo_def)
    ultimately show ?thesis by blast
  qed
  ultimately show ?thesis using refuse by blast
qed

theorem authenticate_refuses_witness:
  "fst (authenticate_repo_token (\<lambda>x. x) 7 ''cis_k1.s3'' (snd (revoke_repo_token 5 ''k1'' demo_tokens_db))) = None"
proof -
  have "parse_token ''cis_k1.s3'' = Some (''k1'', ''s3'')" by code_simp
  from authenticate_refuses [OF this] show ?thesis by blast
qed

text \<open>A freshly minted token works: what the dashboard shows once authenticates as the repository
  it was minted for, as long as that repository is enabled.\<close>

theorem minted_token_authenticates:
  assumes "create_repo_token sha secret key rid name email d = Ok (plain, d')"
    and "is_key_id key" "is_secret secret" "distinct (map rp_id (db_repos d))"
    and "r \<in> set (db_repos d)" "rp_id r = rid" "rp_enabled r"
  shows "fst (authenticate_repo_token sha now plain d') = Some r"
proof -
  let ?t = "\<lparr>tk_id = key, tk_repo_id = rid, tk_name = name, tk_secret_hash = sha secret,
      tk_created_email = email, tk_last_used_at = None, tk_revoked_at = None\<rparr>"
  from assms(1) have plain: "plain = mt_plaintext (mint sha secret key)"
    and d': "d' = d\<lparr>db_tokens := db_tokens d @ [?t]\<rparr>" and fresh: "key \<notin> tk_id ` set (db_tokens d)"
    by (auto simp: create_repo_token_def mint_def Let_def split: if_splits)
  have "parse_token plain = Some (key, secret)"
    unfolding plain by (rule submit_token.read_render) (use assms in auto)
  moreover obtain t r' where l: "token_lookup key d' = Some (t, r')"
  proof -
    have "token_lookup key d' \<noteq> None"
      unfolding token_lookup_None using assms(5-7) by (auto simp: d')
    then show thesis using that by (metis option.exhaust prod.exhaust)
  qed
  moreover have "t = ?t" "r' = r"
  proof -
    note T = token_lookup_Some [OF l]
    from T fresh show "t = ?t" by (auto simp: d')
    with T assms(4-6) show "r' = r" by (auto simp: d' dest: distinct_map [THEN iffD1, THEN conjunct2, THEN inj_onD])
  qed
  ultimately show ?thesis by (simp add: authenticate_repo_token_def secret_matches_def)
qed

theorem minted_token_authenticates_witness:
  "\<exists>r. fst (authenticate_repo_token (\<lambda>x. x) 9 ''cis_k2.zz''
     (demo_tokens_db\<lparr>db_tokens := db_tokens demo_tokens_db @
        [\<lparr>tk_id = ''k2'', tk_repo_id = ''repo'', tk_name = [], tk_secret_hash = ''zz'',
          tk_created_email = None, tk_last_used_at = None, tk_revoked_at = None\<rparr>]\<rparr>)) = Some r"
proof -
  let ?d' = "demo_tokens_db\<lparr>db_tokens := db_tokens demo_tokens_db @
        [\<lparr>tk_id = ''k2'', tk_repo_id = ''repo'', tk_name = [], tk_secret_hash = ''zz'',
          tk_created_email = None, tk_last_used_at = None, tk_revoked_at = None\<rparr>]\<rparr>"
  let ?r = "hd (db_repos demo_tokens_db)"
  have "create_repo_token (\<lambda>x. x) ''zz'' ''k2'' ''repo'' [] None demo_tokens_db = Ok (''cis_k2.zz'', ?d')"
    by (simp add: create_repo_token_def mint_def TOKEN_PREFIX_def demo_tokens_db_def)
  moreover have "is_key_id ''k2''" "is_secret ''zz''" by code_simp+
  moreover have "distinct (map rp_id (db_repos demo_tokens_db))" "?r \<in> set (db_repos demo_tokens_db)"
    "rp_id ?r = ''repo''" "rp_enabled ?r" by (simp_all add: demo_tokens_db_def)
  ultimately show ?thesis
    using minted_token_authenticates [of "\<lambda>x. x" "''zz''" "''k2''" "''repo''" "[]" None demo_tokens_db "''cis_k2.zz''" ?d' ?r 9]
    by blast
qed

text \<open>A person's role is never lowered by signing in: whoever was an administrator stays one, whoever
  is on the configured list becomes one, the role returned is the one stored, and nobody else's
  row changes.\<close>

theorem upsert_user_role:
  assumes "distinct (map us_subject (db_users d))"
    and "upsert_user now subject email name admins d = (role, d')"
  shows "find (\<lambda>u. us_subject u = subject) (db_users d') \<noteq> None
    \<and> map_option us_role (find (\<lambda>u. us_subject u = subject) (db_users d')) = Some role
    \<and> (map_option us_role (find (\<lambda>u. us_subject u = subject) (db_users d)) = Some ''admin'' \<longrightarrow> role = ''admin'')
    \<and> (to_ascii_lowercase email \<in> set admins \<longrightarrow> role = ''admin'')
    \<and> (role = ''admin'' \<longrightarrow> to_ascii_lowercase email \<in> set admins
         \<or> map_option us_role (find (\<lambda>u. us_subject u = subject) (db_users d)) = Some ''admin'')
    \<and> filter (\<lambda>u. us_subject u \<noteq> subject) (db_users d') = filter (\<lambda>u. us_subject u \<noteq> subject) (db_users d)"
proof -
  define f :: "user_row \<Rightarrow> user_row" where "f = (\<lambda>u. u\<lparr>us_email := email, us_name := name, us_last_seen_at := now,
      us_role := (if to_ascii_lowercase email \<in> set admins then ''admin'' else us_role u)\<rparr>)"
  have upd: "find (\<lambda>u. us_subject u = subject) (update_rows (\<lambda>u. us_subject u = subject) f us)
      = map_option f (find (\<lambda>u. us_subject u = subject) us)" for us
    by (induction us) (auto simp: update_rows_def f_def)
  have oth: "filter (\<lambda>u. us_subject u \<noteq> subject) (update_rows (\<lambda>u. us_subject u = subject) f us)
      = filter (\<lambda>u. us_subject u \<noteq> subject) us" for us
    by (induction us) (auto simp: update_rows_def f_def)
  have app: "find P xs = None \<Longrightarrow> find P (xs @ [u]) = (if P u then Some u else None)"
    for P and xs :: "user_row list" and u
    by (induction xs) (auto split: if_splits)
  show ?thesis
  proof (cases "find (\<lambda>u. us_subject u = subject) (db_users d)")
    case None
    with assms(2) show ?thesis
      by (auto simp: upsert_user_def Let_def app split: if_splits)
  next
    case (Some u)
    with assms(2) have "role = us_role (f u)"
      and d': "d' = d\<lparr>db_users := update_rows (\<lambda>u. us_subject u = subject) f (db_users d)\<rparr>"
      by (auto simp: upsert_user_def Let_def f_def split: if_splits)
    with Some upd [of "db_users d"] oth [of "db_users d"] show ?thesis
      by (auto simp: f_def)
  qed
qed

theorem upsert_user_role_witness:
  "fst (upsert_user 5 ''sub'' ''A@x.org'' None [''a@x.org''] empty_db) = ''admin''"
proof -
  obtain role d' where u: "upsert_user 5 ''sub'' ''A@x.org'' None [''a@x.org''] empty_db = (role, d')"
    by fastforce
  have "distinct (map us_subject (db_users empty_db))" by (simp add: empty_db_def)
  from upsert_user_role [OF this u] have "to_ascii_lowercase ''A@x.org'' \<in> set [''a@x.org''] \<longrightarrow> role = ''admin''"
    by blast
  moreover have "to_ascii_lowercase ''A@x.org'' \<in> set [''a@x.org'']" by code_simp
  ultimately show ?thesis unfolding u fst_conv by blast
qed

lemma split_last_dot:
  "CHR ''.'' \<notin> set k \<Longrightarrow> CHR ''.'' \<notin> set k' \<Longrightarrow> a @ CHR ''.'' # k = a' @ CHR ''.'' # k' \<Longrightarrow> a = a' \<and> k = k'"
  using split_once_append [of "CHR ''.''" "rev k" "rev a"] split_once_append [of "CHR ''.''" "rev k'" "rev a'"]
  by (metis append.assoc append_Cons append_Nil option.inject prod.inject rev.simps(2) rev_append rev_is_rev_conv set_rev)

lemma token_no_dot: "list_all is_token_char s \<Longrightarrow> CHR ''.'' \<notin> set s"
  by (auto simp: list_all_iff)

text \<open>Row ids determine what they name: two jobs whose keys are subject tokens have the same row id
  only when run and key agree, two steps only when job and index agree, so a redelivery resolves
  to the row it belongs to and to no other.\<close>

theorem ids_injective:
  assumes "list_all is_token_char k" "list_all is_token_char k'"
  shows "(job_id r k = job_id r' k' \<longleftrightarrow> r = r' \<and> k = k')
    \<and> (step_id j i = step_id j' i' \<longleftrightarrow> j = j' \<and> i = i')"
  using split_last_dot [OF token_no_dot [OF assms(1)] token_no_dot [OF assms(2)], of r r']
    split_last_dot [OF token_no_dot [OF nat_str_tokens [of i]] token_no_dot [OF nat_str_tokens [of i']], of j j']
  by (auto simp: job_id_def step_id_def)

theorem ids_injective_witness: "job_id ''r1'' ''build-x'' \<noteq> job_id ''r2'' ''build-x''"
proof -
  have "list_all is_token_char ''build-x''" by code_simp
  from ids_injective [OF this this] show ?thesis by simp
qed

lemma component_fold_chars:
  "\<forall>c\<in>set out. is_token_char c \<Longrightarrow> \<forall>c\<in>set (foldl push_component out s). is_token_char c"
proof (induction s arbitrary: out)
  case (Cons c s)
  have "is_token_char (component_char c)" by (simp add: component_char_def is_token_char_def)
  with Cons.prems have "\<forall>x\<in>set (push_component out c). is_token_char x"
    by (simp add: push_component_def Let_def)
  then show ?case using Cons.IH by simp
qed simp

text \<open>A log path cannot leave its directory: every component made from a run, job or step id is
  non-empty and consists of letters, digits, underscores and dashes only, whatever the id was.\<close>

theorem sanitize_component_safe:
  "sanitize_component s \<noteq> [] \<and> list_all is_token_char (sanitize_component s)
   \<and> CHR ''/'' \<notin> set (sanitize_component s) \<and> CHR ''.'' \<notin> set (sanitize_component s)"
proof -
  have "list_all is_token_char (sanitize_component s)"
    using component_fold_chars [of "[]" s]
      set_trim_chars [of "CHR ''-''" "CHR ''-''" "foldl push_component [] s"]
    by (auto simp: sanitize_component_def Let_def list_all_iff)
  moreover have "\<not> is_token_char (CHR ''/'')" "\<not> is_token_char (CHR ''.'')" by simp_all
  moreover have "sanitize_component s \<noteq> []" by (simp add: sanitize_component_def Let_def)
  ultimately show ?thesis by (metis list_all_iff)
qed

end
