(* ===== verification/VmPool.thy ===== *)
theory VmPool
  imports Store
begin

text \<open>
  \<^verbatim>\<open>src/src/pool.rs\<close>: the fingerprint that says when a warm VM may be reused, and the table of
  pooled VMs. Statements are functions on the list of rows as in the database theory, \<^verbatim>\<open>now()\<close> is
  an argument. \<^verbatim>\<open>FOR UPDATE SKIP LOCKED\<close> is the argument \<open>locked\<close>: the rows some concurrent
  statement holds, which a claim or a sweep passes over. Among rows last used at the same moment
  the database may return any; the model takes the first.

  For the fingerprint, the SHA-256 crate (\<open>sha\<close>, bytes to bytes), the JSON encoder of a VM block
  (\<open>enc\<close>) and the files of the checkout (\<open>files\<close>) are parameters.
\<close>

section \<open>The fingerprint\<close>

datatype file_read = FileBytes string | FileNotFound | FileUnreadable string

datatype pool_error = Encode string | EscapingPath string | UnreadableFile string string

definition ABSENT :: string where
  "ABSENT = CHR 0x00 # ''ABSENT''"

definition FINGERPRINT_LEN :: nat where
  "FINGERPRINT_LEN = 12"

definition hashable :: "vm_spec \<Rightarrow> vm_spec" where
  "hashable spec = spec\<lparr>cache_key_files := []\<rparr>"

definition key_files :: "vm_spec \<Rightarrow> string list" where
  "key_files spec = remdups_adj (sort (cache_key_files spec))"

definition file_entry ::
    "(string \<Rightarrow> string) \<Rightarrow> (string \<Rightarrow> file_read) \<Rightarrow> string \<Rightarrow> (pool_error, string) result" where
  "file_entry sha files rel =
     (if escapes_tree rel then Err (EscapingPath rel)
      else (case files rel of
              FileBytes bytes \<Rightarrow> Ok (rel @ [CHR 0x00] @ sha bytes)
            | FileNotFound \<Rightarrow> Ok (rel @ [CHR 0x00] @ ABSENT)
            | FileUnreadable reason \<Rightarrow> Err (UnreadableFile rel reason)))"

definition fingerprint_input ::
    "(vm_spec \<Rightarrow> (string, string) result) \<Rightarrow> (string \<Rightarrow> string) \<Rightarrow> (string \<Rightarrow> file_read) \<Rightarrow> vm_spec
     \<Rightarrow> (pool_error, string) result" where
  "fingerprint_input enc sha files spec =
     and_then (map_err Encode (enc (hashable spec))) (\<lambda>json.
     and_then (map_result (file_entry sha files) (key_files spec)) (\<lambda>entries.
       Ok (json @ concat entries)))"

definition hex_encode :: "string \<Rightarrow> string" where
  "hex_encode bytes = concat (map (\<lambda>b. hex_padded 2 (of_char b)) bytes)"

definition fingerprint ::
    "(vm_spec \<Rightarrow> (string, string) result) \<Rightarrow> (string \<Rightarrow> string) \<Rightarrow> (string \<Rightarrow> file_read) \<Rightarrow> vm_spec
     \<Rightarrow> (pool_error, string) result" where
  "fingerprint enc sha files spec =
     and_then (fingerprint_input enc sha files spec)
       (\<lambda>input. Ok (take FINGERPRINT_LEN (hex_encode (sha input))))"

section \<open>Rows\<close>

datatype vm_status = Building | Idle | Claimed | Draining

record vm_row =
  pv_sandbox_id :: string
  pv_runner_hd_id :: string
  pv_fingerprint :: string
  pv_workflow_id :: string
  pv_status :: vm_status
  pv_claimed_by_job :: "string option"
  pv_last_job :: "string option"
  pv_leased_by :: "string option"
  pv_leased_until :: "nat option"
  pv_created_at :: nat
  pv_last_used_at :: nat

record lease =
  ls_instance :: string
  ls_ttl :: nat

type_synonym vm_table = "vm_row list"

section \<open>Statements\<close>

fun most_recent :: "vm_table \<Rightarrow> vm_row option" where
  "most_recent [] = None"
| "most_recent (r # rs) =
     (case most_recent rs of
        None \<Rightarrow> Some r
      | Some m \<Rightarrow> if pv_last_used_at r < pv_last_used_at m then Some m else Some r)"

definition claim_vm_row :: "nat \<Rightarrow> string \<Rightarrow> lease \<Rightarrow> vm_row \<Rightarrow> vm_row" where
  "claim_vm_row now jid l r =
     r\<lparr>pv_status := Claimed, pv_claimed_by_job := Some jid, pv_last_used_at := now,
       pv_last_job := Some jid, pv_leased_by := Some (ls_instance l),
       pv_leased_until := Some (now + ls_ttl l)\<rparr>"

definition claimable :: "(string \<Rightarrow> bool) \<Rightarrow> string \<Rightarrow> string \<Rightarrow> vm_row \<Rightarrow> bool" where
  "claimable locked runner fp r \<longleftrightarrow>
     pv_runner_hd_id r = runner \<and> pv_fingerprint r = fp \<and> pv_status r = Idle
     \<and> \<not> locked (pv_sandbox_id r)"

definition claim_vm ::
    "(string \<Rightarrow> bool) \<Rightarrow> nat \<Rightarrow> string \<Rightarrow> string \<Rightarrow> string \<Rightarrow> lease \<Rightarrow> vm_table
     \<Rightarrow> string option \<times> vm_table" where
  "claim_vm locked now runner fp jid l rows =
     (case most_recent (filter (claimable locked runner fp) rows) of
        None \<Rightarrow> (None, rows)
      | Some v \<Rightarrow>
          (Some (pv_sandbox_id v),
           update_rows (\<lambda>r. pv_sandbox_id r = pv_sandbox_id v) (claim_vm_row now jid l) rows))"

definition building_id :: "string \<Rightarrow> string" where
  "building_id jid = ''building-'' @ jid"

text \<open>\<^verbatim>\<open>INSERT \<dots> ON CONFLICT (sandbox_id) DO UPDATE\<close>.\<close>

definition upsert_vm :: "vm_row \<Rightarrow> (vm_row \<Rightarrow> vm_row) \<Rightarrow> vm_table \<Rightarrow> vm_table" where
  "upsert_vm new upd rows =
     (if pv_sandbox_id new \<in> pv_sandbox_id ` set rows
      then update_rows (\<lambda>r. pv_sandbox_id r = pv_sandbox_id new) upd rows
      else rows @ [new])"

definition build_row :: "nat \<Rightarrow> string \<Rightarrow> string \<Rightarrow> string \<Rightarrow> string \<Rightarrow> lease \<Rightarrow> vm_row \<Rightarrow> vm_row" where
  "build_row now jid runner fp wid l r =
     r\<lparr>pv_status := Building, pv_runner_hd_id := runner, pv_fingerprint := fp, pv_workflow_id := wid,
       pv_claimed_by_job := Some jid, pv_last_job := Some jid, pv_last_used_at := now,
       pv_leased_by := Some (ls_instance l), pv_leased_until := Some (now + ls_ttl l)\<rparr>"

definition begin_build ::
    "nat \<Rightarrow> string \<Rightarrow> string \<Rightarrow> string \<Rightarrow> string \<Rightarrow> lease \<Rightarrow> vm_table \<Rightarrow> string \<times> vm_table" where
  "begin_build now jid runner fp wid l rows =
     (let sid = building_id jid;
          new = \<lparr>pv_sandbox_id = sid, pv_runner_hd_id = runner, pv_fingerprint = fp,
                 pv_workflow_id = wid, pv_status = Building, pv_claimed_by_job = Some jid,
                 pv_last_job = Some jid, pv_leased_by = Some (ls_instance l),
                 pv_leased_until = Some (now + ls_ttl l), pv_created_at = now,
                 pv_last_used_at = now\<rparr>
      in (sid, upsert_vm new (build_row now jid runner fp wid l) rows))"

definition stale_build :: "nat \<Rightarrow> string list \<Rightarrow> string \<Rightarrow> vm_row \<Rightarrow> bool" where
  "stale_build now runners inst r \<longleftrightarrow>
     pv_status r = Building \<and> pv_runner_hd_id r \<in> set runners \<and> pv_leased_by r \<noteq> Some inst
     \<and> (case pv_leased_until r of None \<Rightarrow> True | Some t \<Rightarrow> t < now)"

definition sweep_stale_builds :: "nat \<Rightarrow> string list \<Rightarrow> string \<Rightarrow> vm_table \<Rightarrow> nat \<times> vm_table" where
  "sweep_stale_builds now runners inst rows =
     (if runners = [] then (0, rows)
      else (affected (stale_build now runners inst) rows,
            filter (\<lambda>r. \<not> stale_build now runners inst r) rows))"

definition register_row :: "nat \<Rightarrow> string \<Rightarrow> lease \<Rightarrow> vm_row \<Rightarrow> vm_row" where
  "register_row now jid l r =
     r\<lparr>pv_status := Claimed, pv_claimed_by_job := Some jid, pv_last_job := Some jid,
       pv_last_used_at := now, pv_leased_by := Some (ls_instance l),
       pv_leased_until := Some (now + ls_ttl l)\<rparr>"

definition register_vm ::
    "nat \<Rightarrow> string \<Rightarrow> string \<Rightarrow> string \<Rightarrow> string \<Rightarrow> string \<Rightarrow> lease \<Rightarrow> vm_table \<Rightarrow> vm_table" where
  "register_vm now sid runner fp wid jid l rows =
     (let new = \<lparr>pv_sandbox_id = sid, pv_runner_hd_id = runner, pv_fingerprint = fp,
                 pv_workflow_id = wid, pv_status = Claimed, pv_claimed_by_job = Some jid,
                 pv_last_job = Some jid, pv_leased_by = Some (ls_instance l),
                 pv_leased_until = Some (now + ls_ttl l), pv_created_at = now,
                 pv_last_used_at = now\<rparr>
      in upsert_vm new (register_row now jid l) rows)"

definition release_row :: "nat \<Rightarrow> vm_row \<Rightarrow> vm_row" where
  "release_row now r =
     r\<lparr>pv_status := Idle, pv_claimed_by_job := None, pv_last_used_at := now,
       pv_leased_by := None, pv_leased_until := None\<rparr>"

definition release_vm_row :: "nat \<Rightarrow> string \<Rightarrow> vm_table \<Rightarrow> vm_table" where
  "release_vm_row now sid rows = update_rows (\<lambda>r. pv_sandbox_id r = sid) (release_row now) rows"

definition forget_vm :: "string \<Rightarrow> vm_table \<Rightarrow> vm_table" where
  "forget_vm sid rows = filter (\<lambda>r. pv_sandbox_id r \<noteq> sid) rows"

definition get_vm :: "string \<Rightarrow> vm_table \<Rightarrow> vm_row option" where
  "get_vm sid rows = find (\<lambda>r. pv_sandbox_id r = sid) rows"

text \<open>\<^verbatim>\<open>ORDER BY last_used_at DESC\<close>: rows of equal time keep their order.\<close>

definition newest_first :: "vm_table \<Rightarrow> vm_table" where
  "newest_first rows = rev (sort_key pv_last_used_at (rev rows))"

definition on_runner :: "string \<Rightarrow> vm_table \<Rightarrow> vm_table" where
  "on_runner runner rows = newest_first (filter (\<lambda>r. pv_runner_hd_id r = runner) rows)"

definition all_vms :: "vm_table \<Rightarrow> vm_table" where
  "all_vms rows = sort_key pv_runner_hd_id (newest_first rows)"

text \<open>The joins over the job and run tables: the run a job id belongs to.\<close>

definition run_of_job :: "string option \<Rightarrow> db \<Rightarrow> run_row option" where
  "run_of_job jid d =
     (case jid of
        None \<Rightarrow> None
      | Some i \<Rightarrow> (case get_job i d of None \<Rightarrow> None | Some j \<Rightarrow> get_run (jr_run_id j) d))"

definition inventory :: "string list \<Rightarrow> db \<Rightarrow> vm_table \<Rightarrow> (vm_row \<times> (string \<times> run_status) option) list" where
  "inventory runners d rows =
     (if runners = [] then []
      else map (\<lambda>p. (p, map_option (\<lambda>r. (rn_id r, rn_status r))
                          (run_of_job (coalesce (pv_claimed_by_job p) (pv_last_job p)) d)))
             (sort_key pv_runner_hd_id (sort_key pv_fingerprint
               (newest_first (filter (\<lambda>p. pv_runner_hd_id p \<in> set runners) rows)))))"

text \<open>The three sweeps mark the rows they select and return them as marked.\<close>

definition drain_row :: "vm_row \<Rightarrow> vm_row" where
  "drain_row r = r\<lparr>pv_status := Draining\<rparr>"

definition drain :: "(vm_row \<Rightarrow> bool) \<Rightarrow> vm_table \<Rightarrow> vm_table \<times> vm_table" where
  "drain P rows = (map drain_row (filter P rows), update_rows P drain_row rows)"

definition one_sweepable :: "string \<Rightarrow> string list \<Rightarrow> vm_row \<Rightarrow> bool" where
  "one_sweepable sid runners r \<longleftrightarrow>
     pv_sandbox_id r = sid \<and> pv_runner_hd_id r \<in> set runners \<and> pv_status r \<notin> {Claimed, Building}"

definition take_one_for_sweep :: "string \<Rightarrow> string list \<Rightarrow> vm_table \<Rightarrow> vm_row option \<times> vm_table" where
  "take_one_for_sweep sid runners rows =
     (if runners = [] then (None, rows)
      else (case drain (one_sweepable sid runners) rows of
              ([], rows') \<Rightarrow> (None, rows')
            | (r # _, rows') \<Rightarrow> (Some r, rows')))"

definition failed_sweepable :: "(string \<Rightarrow> bool) \<Rightarrow> string list \<Rightarrow> db \<Rightarrow> vm_row \<Rightarrow> bool" where
  "failed_sweepable locked runners d r \<longleftrightarrow>
     pv_status r = Idle \<and> pv_runner_hd_id r \<in> set runners
     \<and> (case run_of_job (pv_last_job r) d of
          None \<Rightarrow> False | Some run \<Rightarrow> rn_status run \<in> {RFailure, RCancelled})
     \<and> \<not> locked (pv_sandbox_id r)"

definition take_failed_for_sweep ::
    "(string \<Rightarrow> bool) \<Rightarrow> string list \<Rightarrow> db \<Rightarrow> vm_table \<Rightarrow> vm_table \<times> vm_table" where
  "take_failed_for_sweep locked runners d rows =
     (if runners = [] then ([], rows) else drain (failed_sweepable locked runners d) rows)"

definition sweepable :: "(string \<Rightarrow> bool) \<Rightarrow> nat \<Rightarrow> string list \<Rightarrow> string list \<Rightarrow> int \<Rightarrow> vm_row \<Rightarrow> bool" where
  "sweepable locked now runners live_fingerprints idle_for_secs r \<longleftrightarrow>
     pv_status r = Idle \<and> pv_runner_hd_id r \<in> set runners
     \<and> (pv_fingerprint r \<notin> set live_fingerprints \<or> int (pv_last_used_at r) < int now - idle_for_secs)
     \<and> \<not> locked (pv_sandbox_id r)"

definition take_for_sweep ::
    "(string \<Rightarrow> bool) \<Rightarrow> nat \<Rightarrow> string list \<Rightarrow> string list \<Rightarrow> int \<Rightarrow> vm_table \<Rightarrow> vm_table \<times> vm_table" where
  "take_for_sweep locked now runners live_fingerprints idle_for_secs rows =
     (if runners = [] then ([], rows)
      else drain (sweepable locked now runners live_fingerprints idle_for_secs) rows)"

definition held_by :: "string \<Rightarrow> vm_row \<Rightarrow> bool" where
  "held_by inst r \<longleftrightarrow> pv_leased_by r = Some inst \<and> pv_status r \<in> {Claimed, Building}"

definition renew_row :: "nat \<Rightarrow> lease \<Rightarrow> vm_row \<Rightarrow> vm_row" where
  "renew_row now l r = r\<lparr>pv_leased_until := Some (now + ls_ttl l)\<rparr>"

definition renew_leases :: "nat \<Rightarrow> lease \<Rightarrow> vm_table \<Rightarrow> nat \<times> vm_table" where
  "renew_leases now l rows =
     (affected (held_by (ls_instance l)) rows,
      update_rows (held_by (ls_instance l)) (renew_row now l) rows)"

definition leased_by :: "string \<Rightarrow> vm_table \<Rightarrow> (string \<times> string) list" where
  "leased_by inst rows =
     map (\<lambda>r. (pv_sandbox_id r, pv_runner_hd_id r))
       (filter (\<lambda>r. pv_leased_by r = Some inst \<and> pv_status r = Claimed) rows)"

definition job_live :: "string \<Rightarrow> db \<Rightarrow> bool" where
  "job_live jid d \<longleftrightarrow>
     list_ex (\<lambda>j. jr_id j = jid \<and> jr_status j \<in> {JPending, JQueued, JRunning}) (db_jobs d)"

definition orphaned :: "nat \<Rightarrow> string list \<Rightarrow> string \<Rightarrow> db \<Rightarrow> vm_row \<Rightarrow> bool" where
  "orphaned now runners inst d r \<longleftrightarrow>
     pv_status r = Claimed \<and> pv_runner_hd_id r \<in> set runners \<and> pv_leased_by r \<noteq> Some inst
     \<and> (case pv_leased_until r of
          Some t \<Rightarrow> t < now
        | None \<Rightarrow> (case pv_claimed_by_job r of None \<Rightarrow> True | Some jid \<Rightarrow> \<not> job_live jid d))"

definition orphan_row :: "vm_row \<Rightarrow> vm_row" where
  "orphan_row r =
     r\<lparr>pv_status := Idle, pv_claimed_by_job := None, pv_leased_by := None, pv_leased_until := None\<rparr>"

definition release_orphans :: "nat \<Rightarrow> string list \<Rightarrow> string \<Rightarrow> db \<Rightarrow> vm_table \<Rightarrow> nat \<times> vm_table" where
  "release_orphans now runners inst d rows =
     (if runners = [] then (0, rows)
      else (affected (orphaned now runners inst d) rows,
            update_rows (orphaned now runners inst d) orphan_row rows))"


section \<open>The life of a pooled VM\<close>

text \<open>A row is consistent with its status: a VM being built or in use has a job and a lease, any other
  has neither, and exactly the VMs still being built have a placeholder for an id.\<close>

abbreviation is_placeholder :: "string \<Rightarrow> bool" where
  "is_placeholder sid \<equiv> prefix ''building-'' sid"

definition vm_row_ok :: "vm_row \<Rightarrow> bool" where
  "vm_row_ok r \<longleftrightarrow>
     (is_placeholder (pv_sandbox_id r) \<longleftrightarrow> pv_status r = Building)
     \<and> (if pv_status r \<in> {Building, Claimed}
        then pv_claimed_by_job r \<noteq> None \<and> pv_last_job r = pv_claimed_by_job r
             \<and> pv_leased_by r \<noteq> None \<and> pv_leased_until r \<noteq> None
        else pv_claimed_by_job r = None \<and> pv_leased_by r = None \<and> pv_leased_until r = None)"

abbreviation pool_ok :: "vm_table \<Rightarrow> bool" where
  "pool_ok \<equiv> table_ok pv_sandbox_id vm_row_ok"

text \<open>What the program does to the table. The ids given to \<^verbatim>\<open>register\<close> and \<^verbatim>\<open>release\<close> are the daemon's.\<close>

inductive vm_step :: "vm_table \<Rightarrow> vm_table \<Rightarrow> bool" where
  vm_claim: "vm_step p (snd (claim_vm locked now runner fp jid l p))"
| vm_begin_build: "vm_step p (snd (begin_build now jid runner fp wid l p))"
| vm_stale_builds: "vm_step p (snd (sweep_stale_builds now runners inst p))"
| vm_register: "\<not> is_placeholder sid \<Longrightarrow> vm_step p (register_vm now sid runner fp wid jid l p)"
| vm_release: "\<not> is_placeholder sid \<Longrightarrow> vm_step p (release_vm_row now sid p)"
| vm_forget: "vm_step p (forget_vm sid p)"
| vm_take_one: "vm_step p (snd (take_one_for_sweep sid runners p))"
| vm_take_failed: "vm_step p (snd (take_failed_for_sweep locked runners d p))"
| vm_take: "vm_step p (snd (take_for_sweep locked now runners live secs p))"
| vm_renew: "vm_step p (snd (renew_leases now l p))"
| vm_orphans: "vm_step p (snd (release_orphans now runners inst d p))"

inductive_cases vm_stepE: "vm_step p p'"

lemmas vm_rows = claim_vm_row_def build_row_def register_row_def release_row_def drain_row_def
  renew_row_def orphan_row_def

interpretation claim_v: keyed_update pv_sandbox_id "claim_vm_row now jid l"
  for now jid l
  by unfold_locales (simp add: vm_rows)

interpretation drain_v: guarded_update pv_sandbox_id drain_row
    "\<lambda>r. pv_status r \<notin> {Claimed, Building}" "\<lambda>r. pv_status r \<in> {Claimed, Building}"
  by unfold_locales (auto simp: vm_rows)

interpretation renew_v: keyed_update pv_sandbox_id "renew_row now l"
  for now l
  by unfold_locales (simp add: vm_rows)

interpretation orphan_v: keyed_update pv_sandbox_id orphan_row
  by unfold_locales (simp add: vm_rows)

interpretation release_v: keyed_update pv_sandbox_id "release_row now"
  for now
  by unfold_locales (simp add: vm_rows)

lemma most_recent_None [simp]: "most_recent rows = None \<longleftrightarrow> rows = []"
  by (cases rows) (auto split: option.split)

lemma most_recent_Some:
  "most_recent rows = Some v \<Longrightarrow>
   v \<in> set rows \<and> (\<forall>r\<in>set rows. pv_last_used_at r \<le> pv_last_used_at v)"
  by (induction rows arbitrary: v) (force split: option.splits if_splits)+

lemma vm_row_ok_steps:
  "pv_status r = Idle \<Longrightarrow> vm_row_ok r \<Longrightarrow> vm_row_ok (claim_vm_row now jid l r)"
  "is_placeholder (pv_sandbox_id r) \<Longrightarrow> vm_row_ok (build_row now jid runner fp wid l r)"
  "\<not> is_placeholder (pv_sandbox_id r) \<Longrightarrow> vm_row_ok (register_row now jid l r)"
  "\<not> is_placeholder (pv_sandbox_id r) \<Longrightarrow> vm_row_ok (release_row now r)"
  "pv_status r \<notin> {Claimed, Building} \<Longrightarrow> vm_row_ok r \<Longrightarrow> vm_row_ok (drain_row r)"
  "vm_row_ok r \<Longrightarrow> held_by inst r \<Longrightarrow> vm_row_ok (renew_row now l r)"
  "pv_status r = Claimed \<Longrightarrow> vm_row_ok r \<Longrightarrow> vm_row_ok (orphan_row r)"
  by (auto simp: vm_row_ok_def vm_rows held_by_def)

lemma claim_vm_cases:
  obtains (none) "claim_vm locked now runner fp jid l p = (None, p)"
      "\<forall>r\<in>set p. \<not> claimable locked runner fp r"
  | (some) v where "v \<in> set p" "claimable locked runner fp v"
      "\<forall>r\<in>set p. claimable locked runner fp r \<longrightarrow> pv_last_used_at r \<le> pv_last_used_at v"
      "claim_vm locked now runner fp jid l p
       = (Some (pv_sandbox_id v),
          update_rows (\<lambda>r. pv_sandbox_id r = pv_sandbox_id v) (claim_vm_row now jid l) p)"
proof (cases "most_recent (filter (claimable locked runner fp) p)")
  case None
  then show ?thesis using none by (simp add: claim_vm_def filter_empty_conv)
next
  case (Some v)
  then show ?thesis using some [of v] most_recent_Some [OF Some] by (auto simp: claim_vm_def)
qed

lemma get_vm_member: "pool_ok p \<Longrightarrow> v \<in> set p \<Longrightarrow> get_vm (pv_sandbox_id v) p = Some v"
proof (cases "get_vm (pv_sandbox_id v) p")
  case (Some x)
  assume "pool_ok p" "v \<in> set p"
  with Some show ?thesis using find_SomeD [OF Some [unfolded get_vm_def]] table_ok_key by fastforce
qed (auto simp: get_vm_def find_None_iff)

lemma pool_ok_claim: "pool_ok p \<Longrightarrow> pool_ok (snd (claim_vm locked now runner fp jid l p))"
proof (cases rule: claim_vm_cases [of locked now runner fp jid l p])
  case (some v)
  assume ok: "pool_ok p"
  have "pool_ok (update_rows (\<lambda>r. r = v) (claim_vm_row now jid l) p)"
    using some(2) by (intro table_ok_update [OF ok]) (auto simp: claimable_def vm_row_ok_steps claim_v.key_upd)
  moreover have "update_rows (\<lambda>r. pv_sandbox_id r = pv_sandbox_id v) (claim_vm_row now jid l) p
      = update_rows (\<lambda>r. r = v) (claim_vm_row now jid l) p"
    unfolding update_rows_def using table_ok_key [OF ok] some(1) by (intro map_cong refl) auto
  ultimately show ?thesis by (simp add: some(4))
qed simp

lemma pool_ok_upsert:
  assumes "pool_ok p" "vm_row_ok new" "\<And>r. pv_sandbox_id r = pv_sandbox_id new \<Longrightarrow> vm_row_ok (f r)"
    "\<And>r. pv_sandbox_id (f r) = pv_sandbox_id r"
  shows "pool_ok (upsert_vm new f p)"
  unfolding upsert_vm_def using assms by (auto intro!: table_ok_update table_ok_snoc)

lemma pool_ok_drain:
  assumes "pool_ok p" "\<And>r. P r \<Longrightarrow> pv_status r \<notin> {Claimed, Building}"
  shows "pool_ok (snd (drain P p))"
proof -
  have "vm_row_ok (drain_row r)" if "P r" "vm_row_ok r" for r
    using vm_row_ok_steps(5) assms(2) that by metis
  then show ?thesis
    unfolding drain_def snd_conv by (intro table_ok_update [OF assms(1)]) (auto simp: drain_v.key_upd)
qed

lemma take_one_eq:
  "take_one_for_sweep sid runners p =
     (let m = map drain_row (filter (one_sweepable sid runners) p)
      in if runners = [] \<or> m = [] then (None, p) else (Some (hd m), snd (drain (one_sweepable sid runners) p)))"
proof -
  have "update_rows P f p = p" if "filter P p = []" for P :: "vm_row \<Rightarrow> bool" and f
    using that unfolding update_rows_def by (intro map_idI) (auto simp: filter_empty_conv)
  then show ?thesis by (auto simp: take_one_for_sweep_def drain_def Let_def split: list.splits)
qed

lemma pool_ok_step: "vm_step p p' \<Longrightarrow> pool_ok p \<Longrightarrow> pool_ok p'"
proof (induction rule: vm_step.induct)
  case (vm_claim p locked now runner fp jid l)
  then show ?case by (rule pool_ok_claim)
next
  case (vm_begin_build p now jid runner fp wid l)
  then show ?case unfolding begin_build_def Let_def snd_conv
    by (rule pool_ok_upsert) (auto simp: vm_row_ok_def building_id_def vm_rows)
next
  case (vm_stale_builds p now runners inst)
  then show ?case by (auto simp: sweep_stale_builds_def intro: table_ok_filter)
next
  case (vm_register sid p now runner fp wid jid l)
  from vm_register.prems show ?case unfolding register_vm_def Let_def
    by (rule pool_ok_upsert) (use vm_register.hyps in \<open>auto simp: vm_row_ok_def vm_rows\<close>)
next
  case (vm_release sid p now)
  from vm_release.prems show ?case unfolding release_vm_row_def
    by (rule table_ok_update) (use vm_release.hyps in \<open>auto simp: vm_row_ok_steps release_v.key_upd\<close>)
next
  case (vm_forget p sid)
  then show ?case by (simp add: forget_vm_def table_ok_filter)
next
  case (vm_take_one p sid runners)
  then show ?case using pool_ok_drain [of p "one_sweepable sid runners"]
    by (auto simp: take_one_eq Let_def one_sweepable_def)
next
  case (vm_take_failed p locked runners d)
  then show ?case using pool_ok_drain [of p "failed_sweepable locked runners d"]
    by (auto simp: take_failed_for_sweep_def failed_sweepable_def)
next
  case (vm_take p locked now runners live secs)
  then show ?case using pool_ok_drain [of p "sweepable locked now runners live secs"]
    by (auto simp: take_for_sweep_def sweepable_def)
next
  case (vm_renew p now l)
  from vm_renew.prems show ?case unfolding renew_leases_def snd_conv
    by (rule table_ok_update) (auto simp: vm_row_ok_steps renew_v.key_upd)
next
  case (vm_orphans p now runners inst d)
  then show ?case
    by (auto simp: release_orphans_def orphaned_def vm_row_ok_steps orphan_v.key_upd intro!: table_ok_update)
qed

interpretation vm_pool: step_invariant "\<lambda>p. p = []" vm_step pool_ok
  by unfold_locales (simp, blast intro: pool_ok_step)


section \<open>Leases\<close>

text \<open>What everyone else may do to the table while an instance holds the VM \<open>sid\<close> under a lease that
  runs until \<open>t\<close>: any statement at a time the lease is good for, except those that name the VM
  itself, and renewals by the holder.\<close>

inductive rival_step :: "string \<Rightarrow> string \<Rightarrow> nat \<Rightarrow> vm_table \<Rightarrow> vm_table \<Rightarrow> bool"
  for sid inst t where
  rival_claim: "rival_step sid inst t p (snd (claim_vm locked now runner fp jid l p))"
| rival_begin_build: "building_id jid \<noteq> sid \<Longrightarrow>
    rival_step sid inst t p (snd (begin_build now jid runner fp wid l p))"
| rival_stale_builds: "rival_step sid inst t p (snd (sweep_stale_builds now runners other p))"
| rival_register: "\<not> is_placeholder s \<Longrightarrow> s \<noteq> sid \<Longrightarrow>
    rival_step sid inst t p (register_vm now s runner fp wid jid l p)"
| rival_release: "\<not> is_placeholder s \<Longrightarrow> s \<noteq> sid \<Longrightarrow> rival_step sid inst t p (release_vm_row now s p)"
| rival_forget: "s \<noteq> sid \<Longrightarrow> rival_step sid inst t p (forget_vm s p)"
| rival_take_one: "rival_step sid inst t p (snd (take_one_for_sweep s runners p))"
| rival_take_failed: "rival_step sid inst t p (snd (take_failed_for_sweep locked runners d p))"
| rival_take: "rival_step sid inst t p (snd (take_for_sweep locked now runners live secs p))"
| rival_renew: "ls_instance l \<noteq> inst \<Longrightarrow> rival_step sid inst t p (snd (renew_leases now l p))"
| rival_orphans: "now \<le> t \<Longrightarrow> rival_step sid inst t p (snd (release_orphans now runners other d p))"

lemma rival_is_step: "rival_step sid inst t p p' \<Longrightarrow> vm_step p p'"
  by (induction rule: rival_step.induct) (auto intro: vm_step.intros)

lemma update_rows_keeps: "r \<in> set rows \<Longrightarrow> \<not> P r \<Longrightarrow> r \<in> set (update_rows P f rows)"
  by (force simp: update_rows_def)

lemma upsert_keeps: "r \<in> set p \<Longrightarrow> pv_sandbox_id r \<noteq> pv_sandbox_id new \<Longrightarrow> r \<in> set (upsert_vm new f p)"
  by (auto simp: upsert_vm_def intro: update_rows_keeps)

lemma claim_keeps:
  assumes "pool_ok p" "r \<in> set p" "pv_status r \<noteq> Idle"
  shows "r \<in> set (snd (claim_vm locked now runner fp jid l p))"
proof (cases rule: claim_vm_cases [of locked now runner fp jid l p])
  case (some v)
  have "pv_sandbox_id r \<noteq> pv_sandbox_id v"
    using table_ok_key [OF assms(1,2) some(1)] some(2) assms(3) by (auto simp: claimable_def)
  then show ?thesis using assms(2) by (auto simp: some(4) intro: update_rows_keeps)
qed (simp add: assms)

definition held :: "string \<Rightarrow> nat \<Rightarrow> vm_row \<Rightarrow> bool" where
  "held inst t r \<longleftrightarrow> pv_status r = Claimed \<and> pv_leased_by r = Some inst \<and> pv_leased_until r = Some t"

lemma rival_step_keeps:
  "rival_step (pv_sandbox_id v) inst t p p' \<Longrightarrow> pool_ok p \<Longrightarrow> v \<in> set p \<Longrightarrow> held inst t v \<Longrightarrow> v \<in> set p'"
proof (induction rule: rival_step.induct)
  case (rival_claim p locked now runner fp jid l)
  then show ?case by (auto simp: held_def intro: claim_keeps)
next
  case (rival_take_one p s runners)
  then show ?case
    by (auto simp: take_one_eq Let_def drain_def one_sweepable_def held_def intro: update_rows_keeps)
qed (auto simp: begin_build_def register_vm_def release_vm_row_def forget_vm_def
      sweep_stale_builds_def stale_build_def take_failed_for_sweep_def failed_sweepable_def
      take_for_sweep_def sweepable_def drain_def renew_leases_def held_by_def release_orphans_def
      orphaned_def held_def Let_def intro!: update_rows_keeps upsert_keeps)

lemma rival_steps_keep:
  assumes "(rival_step (pv_sandbox_id v) inst t)\<^sup>*\<^sup>* p p'" "pool_ok p" "v \<in> set p" "held inst t v"
  shows "pool_ok p' \<and> v \<in> set p'"
  using assms(1)
  by (induction rule: rtranclp_induct)
     (use assms rival_step_keeps rival_is_step pool_ok_step in blast)+

section \<open>Fingerprints\<close>

lemma sorted_remdups_adj_distinct: "sorted xs \<Longrightarrow> distinct (remdups_adj xs)"
  by (induction xs rule: remdups_adj.induct) auto

lemma key_files_set: "set (key_files spec) = set (cache_key_files spec)"
  by (simp add: key_files_def)

lemma key_files_cong:
  assumes "set (cache_key_files a) = set (cache_key_files b)"
  shows "key_files a = key_files b"
  unfolding key_files_def using assms
  by (intro sorted_distinct_set_unique) (simp_all add: sorted_remdups_adj_distinct)

definition present :: "(string \<Rightarrow> file_read) \<Rightarrow> string \<Rightarrow> bool" where
  "present files rel \<longleftrightarrow> (\<exists>bytes. files rel = FileBytes bytes)"

definition readable :: "(string \<Rightarrow> file_read) \<Rightarrow> string \<Rightarrow> bool" where
  "readable files rel \<longleftrightarrow> (\<forall>reason. files rel \<noteq> FileUnreadable reason)"

definition entry_bytes :: "(string \<Rightarrow> string) \<Rightarrow> (string \<Rightarrow> file_read) \<Rightarrow> string \<Rightarrow> string" where
  "entry_bytes sha files rel =
     rel @ [CHR 0x00] @ (case files rel of FileBytes bytes \<Rightarrow> sha bytes | _ \<Rightarrow> ABSENT)"

lemma file_entry_Ok:
  "file_entry sha files rel = Ok e \<longleftrightarrow>
   \<not> escapes_tree rel \<and> readable files rel \<and> e = entry_bytes sha files rel"
  by (auto simp: file_entry_def readable_def entry_bytes_def split: file_read.splits)

lemma file_entries_Ok:
  "map_result (file_entry sha files) rels = Ok es \<longleftrightarrow>
   (\<forall>rel\<in>set rels. \<not> escapes_tree rel \<and> readable files rel) \<and> es = map (entry_bytes sha files) rels"
  by (induction rels arbitrary: es) (auto simp: file_entry_Ok)

lemma fingerprint_input_Ok:
  "fingerprint_input enc sha files spec = Ok input \<longleftrightarrow>
   (\<exists>json. enc (hashable spec) = Ok json
      \<and> (\<forall>rel\<in>set (cache_key_files spec). \<not> escapes_tree rel \<and> readable files rel)
      \<and> input = json @ concat (map (entry_bytes sha files) (key_files spec)))"
  by (auto simp: fingerprint_input_def file_entries_Ok key_files_set)

lemma entries_length:
  assumes "\<And>b. length (sha b) = 32"
  shows "length (concat (map (entry_bytes sha files) rels)) + 25 * length (filter (\<lambda>r. \<not> present files r) rels)
    = (\<Sum>r\<leftarrow>rels. length r + 33)"
proof (induction rels)
  case (Cons r rels)
  have "length (entry_bytes sha files r) + (if present files r then 0 else 25) = length r + 33"
    by (auto simp: entry_bytes_def present_def ABSENT_def assms split: file_read.splits)
  with Cons show ?case by (auto split: if_splits)
qed simp

lemma entries_inject:
  assumes "\<And>b. length (sha b) = 32" "\<forall>r\<in>set rels. present f r \<longleftrightarrow> present g r"
  shows "concat (map (entry_bytes sha f) rels) = concat (map (entry_bytes sha g) rels) \<longleftrightarrow>
    (\<forall>r\<in>set rels. \<forall>x y. f r = FileBytes x \<and> g r = FileBytes y \<longrightarrow> sha x = sha y)"
  using assms(2)
proof (induction rels)
  case (Cons r rels)
  have len: "length (entry_bytes sha f r) = length (entry_bytes sha g r)"
    using Cons.prems by (auto simp: entry_bytes_def present_def assms(1) split: file_read.splits)
  have "entry_bytes sha f r = entry_bytes sha g r \<longleftrightarrow>
      (\<forall>x y. f r = FileBytes x \<and> g r = FileBytes y \<longrightarrow> sha x = sha y)"
    using Cons.prems by (auto simp: entry_bytes_def present_def split: file_read.splits)
  with Cons len show ?case by simp
qed simp

section \<open>Properties\<close>

text \<open>C18. In every pool the program can reach, sandbox ids are distinct, a VM that is being built or in
  use has a job and a lease, every other VM has neither, and exactly the VMs still being built
  carry a placeholder id.\<close>

theorem pool_rows_consistent:
  assumes "reach (\<lambda>p. p = []) vm_step p"
  shows "pool_ok p"
  using assms by (rule vm_pool.inv_reach)

definition sample_lease :: lease where
  "sample_lease = \<lparr>ls_instance = ''i1'', ls_ttl = 180\<rparr>"

definition sample_pool :: vm_table where
  "sample_pool = register_vm 5 ''sb-1'' ''hd'' ''f'' ''w'' ''r.build'' sample_lease []"

lemma sample_pool_reach: "reach (\<lambda>p. p = []) vm_step sample_pool"
proof (rule reach_step)
  show "reach (\<lambda>p. p = []) vm_step []" by (rule reach_init) simp
  show "vm_step [] sample_pool" unfolding sample_pool_def by (rule vm_register) simp
qed

theorem pool_rows_consistent_witness: "pool_ok sample_pool"
  by (rule pool_rows_consistent [OF sample_pool_reach])

text \<open>C14. Claiming a warm VM takes an idle one on that runner with that fingerprint, the most recently used
  of those nobody else is touching, marks it as the job's under a lease and changes no other VM.
  It comes back empty-handed only when there is none, and never hands out a placeholder.\<close>

theorem claim_vm_spec:
  assumes "pool_ok p"
  shows "case claim_vm locked now runner fp jid l p of
      (None, p') \<Rightarrow> p' = p \<and> \<not> list_ex (claimable locked runner fp) p
    | (Some sid, p') \<Rightarrow>
        (\<exists>v\<in>set p. pv_sandbox_id v = sid \<and> claimable locked runner fp v
           \<and> (\<forall>r\<in>set p. claimable locked runner fp r \<longrightarrow> pv_last_used_at r \<le> pv_last_used_at v)
           \<and> get_vm sid p' = Some (claim_vm_row now jid l v))
        \<and> \<not> is_placeholder sid \<and> (\<forall>s. s \<noteq> sid \<longrightarrow> get_vm s p' = get_vm s p)"
proof (cases rule: claim_vm_cases [of locked now runner fp jid l p])
  case none
  then show ?thesis by (simp add: list_ex_iff)
next
  case (some v)
  note find = get_vm_member [OF assms some(1)]
  have "\<not> is_placeholder (pv_sandbox_id v)"
    using table_ok_row [OF assms some(1)] some(2) by (auto simp: vm_row_ok_def claimable_def)
  moreover have upd: "get_vm s (update_rows (\<lambda>r. pv_sandbox_id r = pv_sandbox_id v) (claim_vm_row now jid l) p)
      = map_option (\<lambda>r. if pv_sandbox_id r = pv_sandbox_id v then claim_vm_row now jid l r else r) (get_vm s p)" for s
    unfolding get_vm_def by (rule claim_v.find_updated)
  moreover have "map_option (\<lambda>r. if pv_sandbox_id r = pv_sandbox_id v then f r else r) (get_vm s p) = get_vm s p"
    if "s \<noteq> pv_sandbox_id v" for s f
    using that by (cases "get_vm s p") (auto simp: get_vm_def dest: find_SomeD)
  ultimately show ?thesis
    unfolding some(4) using some(1-3) find by simp blast
qed

theorem claim_vm_spec_witness:
  "fst (claim_vm (\<lambda>_. False) 9 ''hd'' ''f'' ''r.test'' sample_lease (release_vm_row 7 ''sb-1'' sample_pool))
   \<noteq> None"
proof -
  have "reach (\<lambda>p. p = []) vm_step (release_vm_row 7 ''sb-1'' sample_pool)"
    by (rule reach_step [OF sample_pool_reach], rule vm_release) simp
  then have "pool_ok (release_vm_row 7 ''sb-1'' sample_pool)" by (rule vm_pool.inv_reach)
  moreover have "list_ex (claimable (\<lambda>_. False) ''hd'' ''f'') (release_vm_row 7 ''sb-1'' sample_pool)"
    by (simp add: sample_pool_def register_vm_def upsert_vm_def release_vm_row_def update_rows_def
        claimable_def vm_rows)
  ultimately have "fst (claim_vm (\<lambda>_. False) 9 ''hd'' ''f'' ''r.test'' sample_lease q) = None \<Longrightarrow> False"
    if "q = release_vm_row 7 ''sb-1'' sample_pool" for q
    using claim_vm_spec [of q "\<lambda>_. False" "''hd''" "''f''" 9 "''r.test''" sample_lease] that
    by (cases "claim_vm (\<lambda>_. False) 9 ''hd'' ''f'' ''r.test'' sample_lease q") simp
  then show ?thesis by blast
qed



text \<open>Reclaiming orphans returns exactly the abandoned VMs: one in use on a runner this instance
  serves, held by another instance whose lease has run out, becomes idle again and can be claimed
  at once; VMs on other runners and VMs this instance holds itself are left alone.\<close>

theorem release_orphans_effect:
  assumes "v \<in> set p" "pv_status v = Claimed" "pv_leased_until v = Some t"
  shows "(t < now \<and> pv_runner_hd_id v \<in> set runners \<and> pv_leased_by v \<noteq> Some inst \<longrightarrow>
      orphan_row v \<in> set (snd (release_orphans now runners inst d p))
      \<and> fst (claim_vm (\<lambda>_. False) now' (pv_runner_hd_id v) (pv_fingerprint v) jid l
          (snd (release_orphans now runners inst d p))) \<noteq> None)
    \<and> (now \<le> t \<or> pv_runner_hd_id v \<notin> set runners \<or> pv_leased_by v = Some inst \<longrightarrow>
      v \<in> set (snd (release_orphans now runners inst d p)))"
proof -
  let ?p' = "snd (release_orphans now runners inst d p)"
  have "orphan_row v \<in> set ?p'" if "orphaned now runners inst d v"
  proof -
    have "runners \<noteq> []" using that by (auto simp: orphaned_def)
    with that assms(1) show ?thesis by (force simp: release_orphans_def update_rows_def)
  qed
  moreover have "fst (claim_vm (\<lambda>_. False) now' (pv_runner_hd_id v) (pv_fingerprint v) jid l ?p') \<noteq> None"
    if "orphan_row v \<in> set ?p'"
  proof (cases rule: claim_vm_cases [of "\<lambda>_. False" now' "pv_runner_hd_id v" "pv_fingerprint v" jid l ?p'])
    case none
    with that show ?thesis by (auto simp: claimable_def orphan_row_def)
  qed simp
  moreover have "v \<in> set ?p'" if "\<not> orphaned now runners inst d v"
    using that assms(1) by (auto simp: release_orphans_def intro: update_rows_keeps)
  moreover have "orphaned now runners inst d v \<longleftrightarrow>
      t < now \<and> pv_runner_hd_id v \<in> set runners \<and> pv_leased_by v \<noteq> Some inst"
    using assms by (auto simp: orphaned_def)
  ultimately show ?thesis by (meson not_le)
qed

theorem release_orphans_effect_witness:
  "fst (claim_vm (\<lambda>_. False) 300 ''hd'' ''f'' ''r.test'' sample_lease
     (snd (release_orphans 200 [''hd''] ''i2'' empty_db sample_pool))) \<noteq> None"
proof -
  define v where "v = hd sample_pool"
  have v: "v \<in> set sample_pool" "pv_status v = Claimed" "pv_leased_until v = Some 185"
    "pv_runner_hd_id v = ''hd''" "pv_fingerprint v = ''f''" "pv_leased_by v = Some ''i1''"
    by (simp_all add: v_def sample_pool_def register_vm_def upsert_vm_def sample_lease_def)
  have "(185 :: nat) < 200 \<and> ''hd'' \<in> set [''hd''] \<and> Some ''i1'' \<noteq> Some ''i2''" by simp
  with release_orphans_effect [OF v(1-3), of 200 "[''hd'']" "''i2''" empty_db 300 "''r.test''" sample_lease]
  show ?thesis unfolding v(4-6) by blast
qed



end
