(* ===== verification/Secrets.thy ===== *)
theory Secrets
  imports Prelude Expr
begin

text \<open>
  \<^verbatim>\<open>src/src/secrets.rs\<close>: which secrets a job gets, under which names, and how their values are kept
  out of logs. The secret store is a service: what it lists under a prefix and what it answers to
  a read are arguments (the listing as a result, a read as a function of the path).
\<close>

section \<open>Masking\<close>

definition MIN_MASK_LEN :: nat where
  "MIN_MASK_LEN = 4"

definition REDACTED :: string where
  "REDACTED = ''***''"

record resolved =
  rs_secrets :: "string bmap"
  rs_vars :: "string bmap"

text \<open>Longest first: \<^verbatim>\<open>sort_by_key\<close> is stable, and equal neighbours are dropped.\<close>

definition new_masker :: "string list \<Rightarrow> string list" where
  "new_masker vs =
     remdups_adj (rev (sort_key length (rev (filter (\<lambda>v. MIN_MASK_LEN \<le> length v) vs))))"

definition mask_one :: "string \<Rightarrow> string \<Rightarrow> string" where
  "mask_one line v = (if contains_sub line v then replace_all v REDACTED line else line)"

definition mask :: "string list \<Rightarrow> string \<Rightarrow> string" where
  "mask masker line = (if masker = [] then line else foldl mask_one line masker)"

definition masker :: "resolved \<Rightarrow> string list" where
  "masker r = new_masker (map snd (rs_secrets r))"

definition scope_of :: "string bmap \<Rightarrow> json" where
  "scope_of m = JObj (map (\<lambda>(k, v). (k, JStr v)) m)"

definition scopes :: "resolved \<Rightarrow> json \<times> json" where
  "scopes r = (scope_of (rs_secrets r), scope_of (rs_vars r))"

section \<open>Resolving\<close>

datatype secrets_error =
    Transport string
  | Api string
  | Decode string
  | NotText string
  | Unreadable string string

record secret_meta =
  sm_path :: string
  sm_tags :: "string list"

definition PUBLIC_TAG :: string where
  "PUBLIC_TAG = ''public''"

definition secret_char :: "char \<Rightarrow> char" where
  "secret_char c = (if is_ascii_alphanumeric c \<or> c \<in> set ''-_.:@'' then c else CHR ''-'')"

definition sanitize_segment :: "string \<Rightarrow> string" where
  "sanitize_segment s = map secret_char s"

definition secrets_prefix :: "string \<Rightarrow> string \<Rightarrow> string" where
  "secrets_prefix workflow_id environment =
     ''ci/'' @ sanitize_segment workflow_id @ ''/'' @ sanitize_segment environment"

definition leaf_name :: "string \<Rightarrow> string \<Rightarrow> string option" where
  "leaf_name path pre =
     (case strip_prefix pre path of
        None \<Rightarrow> None
      | Some r \<Rightarrow>
          (let rest = trim_start_char (CHR ''/'') r
           in if rest = [] then None else Some (last (split_on (CHR ''/'') rest))))"

definition add_secret :: "string \<Rightarrow> resolved \<Rightarrow> secret_meta \<times> string \<Rightarrow> resolved" where
  "add_secret pre out mv =
     (case mv of (meta, v) \<Rightarrow>
        (case leaf_name (sm_path meta) pre of
           None \<Rightarrow> out
         | Some name \<Rightarrow>
             if PUBLIC_TAG \<in> set (sm_tags meta)
             then out\<lparr>rs_vars := bm_insert name v (rs_vars out)\<rparr>
             else out\<lparr>rs_secrets := bm_insert name v (rs_secrets out)\<rparr>))"

text \<open>With no store configured there is nothing to resolve. The reads run concurrently and the first
  to fail fails the whole; the model reads them in order.\<close>

definition resolve ::
    "bool \<Rightarrow> (string \<Rightarrow> (secrets_error, secret_meta list) result)
     \<Rightarrow> (string \<Rightarrow> (secrets_error, string) result) \<Rightarrow> string \<Rightarrow> (secrets_error, resolved) result" where
  "resolve configured list_secrets read pre =
     (if \<not> configured then Ok \<lparr>rs_secrets = [], rs_vars = []\<rparr>
      else and_then (list_secrets pre) (\<lambda>metas.
           and_then (map_result (\<lambda>m. and_then (read (sm_path m)) (\<lambda>v. Ok (m, v))) metas) (\<lambda>fetched.
             Ok (foldl (add_secret pre) \<lparr>rs_secrets = [], rs_vars = []\<rparr> fetched))))"

section \<open>Masked text\<close>

text \<open>A value that shares no character with the replacement survives a replacement only where it
  stood before.\<close>

lemma prefix_replace_all:
  assumes "prefix q (replace_all p r s)" "set q \<inter> set r = {}" "r \<noteq> []"
  shows "prefix q s"
  using assms
proof (induction p r s arbitrary: q rule: replace_all.induct)
  case (2 p r c cs)
  show ?case
  proof (cases "p \<noteq> [] \<and> prefix p (c # cs)")
    case True
    with "2.prems" show ?thesis by (cases q; cases r) auto
  next
    case False
    then have eq: "replace_all p r (c # cs) = c # replace_all p r cs" by auto
    show ?thesis
    proof (cases q)
      case (Cons a q')
      with "2.prems" eq have "a = c" "prefix q' (replace_all p r cs)" "set q' \<inter> set r = {}" by auto
      with "2.IH"(2) [OF False _ _ "2.prems"(3)] Cons show ?thesis by simp
    qed simp
  qed
qed simp

lemma sublist_append_disjoint:
  assumes "sublist q (r @ s)" "set q \<inter> set r = {}" "q \<noteq> []"
  shows "sublist q s"
proof -
  consider "sublist q r" | "sublist q s" | a b where "q = a @ b" "suffix a r" "prefix b s"
    using assms(1) by (auto simp: sublist_append)
  then show ?thesis
  proof cases
    case 1
    then have "set q \<subseteq> set r" by (rule set_mono_sublist)
    with assms(2,3) show ?thesis by (cases q) auto
  next
    case (3 a b)
    then have "set a \<subseteq> set r" by (simp add: set_mono_suffix)
    with 3(1) assms(2) have "a = []" by (cases a) auto
    with 3 show ?thesis by (simp add: prefix_imp_sublist)
  qed
qed

lemma sublist_replace_all:
  assumes "sublist q (replace_all p r s)" "set q \<inter> set r = {}" "r \<noteq> []" "q \<noteq> []"
  shows "sublist q s \<and> (p = q \<longrightarrow> False)"
  using assms
proof (induction p r s rule: replace_all.induct)
  case (2 p r c cs)
  show ?case
  proof (cases "p \<noteq> [] \<and> prefix p (c # cs)")
    case True
    with "2.prems" have "sublist q (replace_all p r (drop (length p) (c # cs)))"
      by (auto intro: sublist_append_disjoint)
    with "2.IH"(1) [OF True _ "2.prems"(2-4)] show ?thesis
      by (meson sublist_drop sublist_order.order.trans)
  next
    case False
    then have eq: "replace_all p r (c # cs) = c # replace_all p r cs" by auto
    show ?thesis
    proof (cases "prefix q (c # replace_all p r cs)")
      case True
      with prefix_replace_all [of q p r "c # cs"] eq "2.prems"(2,3) have "prefix q (c # cs)" by simp
      with False "2.prems"(4) show ?thesis by (auto simp: prefix_imp_sublist)
    next
      case False': False
      with "2.prems"(1) eq have "sublist q (replace_all p r cs)" by (simp add: sublist_Cons_right)
      with "2.IH"(2) [OF False _ "2.prems"(2-4)] show ?thesis by (simp add: sublist_Cons_right)
    qed
  qed
qed simp

lemma mask_one_hides:
  assumes "set q \<inter> set REDACTED = {}" "q \<noteq> []" "sublist q (mask_one line v)"
  shows "sublist q line \<and> v \<noteq> q"
  using assms sublist_replace_all [of q v REDACTED line]
  by (auto simp: mask_one_def REDACTED_def split: if_splits)

lemma mask_fold_hides:
  assumes "set q \<inter> set REDACTED = {}" "q \<noteq> []" "sublist q (foldl mask_one line vs)"
  shows "sublist q line \<and> q \<notin> set vs"
  using assms(3)
proof (induction vs arbitrary: line)
  case (Cons v vs)
  then show ?case using mask_one_hides [OF assms(1,2), of line v] by auto
qed simp

lemma new_masker_set: "set (new_masker vs) = {v \<in> set vs. MIN_MASK_LEN \<le> length v}"
  by (auto simp: new_masker_def)

lemma masked_hides:
  assumes "(name, v) \<in> set (rs_secrets r)" "MIN_MASK_LEN \<le> length v" "CHR ''*'' \<notin> set v"
  shows "\<not> sublist v (mask (masker r) line)"
proof -
  have v: "v \<in> set (masker r)"
    using assms(1,2) by (force simp: masker_def new_masker_set)
  have "v \<noteq> []" "set v \<inter> set REDACTED = {}"
    using assms(2,3) by (auto simp: MIN_MASK_LEN_def REDACTED_def)
  with mask_fold_hides [of v line "masker r"] v show ?thesis by (auto simp: mask_def)
qed

section \<open>Properties\<close>

text \<open>No secret survives masking: for every secret of at least the minimum length that contains no
  asterisk, the masked text has no occurrence of it, and text that contains none of the masked
  values is left as it is.\<close>

theorem mask_hides_secrets:
  assumes "(name, v) \<in> set (rs_secrets r)" "MIN_MASK_LEN \<le> length v" "CHR ''*'' \<notin> set v"
  shows "\<not> contains_sub (mask (masker r) line) v
    \<and> ((\<forall>w\<in>set (masker r). \<not> contains_sub line w) \<longrightarrow> mask (masker r) line = line)"
proof -
  have "foldl mask_one line vs = line" if "\<forall>w\<in>set vs. \<not> contains_sub line w" for vs
    using that by (induction vs) (auto simp: mask_one_def)
  then show ?thesis using masked_hides [OF assms] by (simp add: mask_def)
qed

theorem mask_hides_secrets_witness:
  "\<not> contains_sub (mask (masker \<lparr>rs_secrets = [(''A'', ''hunter2''), (''B'', ''hunter22'')], rs_vars = []\<rparr>)
      ''login hunter22 ok'') ''hunter2''"
proof -
  let ?r = "\<lparr>rs_secrets = [(''A'', ''hunter2''), (''B'', ''hunter22'')], rs_vars = []\<rparr>"
  have "(''A'', ''hunter2'') \<in> set (rs_secrets ?r)" "MIN_MASK_LEN \<le> length ''hunter2''"
    "CHR ''*'' \<notin> set ''hunter2''" by (simp_all add: MIN_MASK_LEN_def)
  from mask_hides_secrets [OF this] show ?thesis by blast
qed

text \<open>A secret that contains the redaction mark itself can appear in masked text although the text
  never held it.\<close>

lemma mask_can_spell_a_secret:
  "contains_sub (mask (new_masker [''a***b'', ''wxyz'']) ''awxyzb'') ''a***b''"
  by code_simp

end
