(* ===== verification/Bus.thy ===== *)
theory Bus
  imports Prelude Expr
begin

text \<open>
  \<^verbatim>\<open>src/src/bus.rs\<close>: subjects, durable names, the redelivery ladder and publishing. JetStream is a
  parameter in two places only: whether a publish is acknowledged, and what it reports of an
  existing consumer. The streams are kept as what has been published: a stream with
  \<^verbatim>\<open>Nats-Msg-Id\<close> keeps the first message of an id (the deduplication window is not modelled).
\<close>

section \<open>Routes and subjects\<close>

text \<open>\<^verbatim>\<open>is_subject_token\<close> of \<^verbatim>\<open>src/src/config.rs\<close>.\<close>

definition is_subject_token :: "string \<Rightarrow> bool" where
  "is_subject_token s \<longleftrightarrow>
     s \<noteq> [] \<and> list_all (\<lambda>b. is_ascii_alphanumeric b \<or> b \<in> {CHR ''_'', CHR ''-''}) s"

datatype bus_error =
    Connect string
  | StreamErr string string
  | ConsumerErr string string
  | PublishErr string string
  | EncodeErr string
  | BadToken string

datatype route = RRunner string | RNetwork string

record job_message =
  jm_run_id :: string
  jm_job_id :: string
  jm_job_key :: string

record queue_depth =
  qd_waiting :: nat
  qd_in_flight :: nat

definition depth_is_empty :: "queue_depth \<Rightarrow> bool" where
  "depth_is_empty q \<longleftrightarrow> qd_waiting q = 0 \<and> qd_in_flight q = 0"

definition check_token :: "string \<Rightarrow> (bus_error, unit) result" where
  "check_token s = (if is_subject_token s then Ok () else Err (BadToken s))"

definition subject_for :: "string \<Rightarrow> route \<Rightarrow> (bus_error, string) result" where
  "subject_for pre r =
     (case r of
        RRunner i \<Rightarrow> and_then (check_token i) (\<lambda>_. Ok (pre @ ''.job.r.'' @ i))
      | RNetwork i \<Rightarrow> and_then (check_token i) (\<lambda>_. Ok (pre @ ''.job.n.'' @ i)))"

definition durable_for :: "string \<Rightarrow> route \<Rightarrow> (bus_error, string) result" where
  "durable_for pre r =
     (case r of
        RRunner i \<Rightarrow> and_then (check_token i) (\<lambda>_. Ok (pre @ ''-r-'' @ i))
      | RNetwork i \<Rightarrow> and_then (check_token i) (\<lambda>_. Ok (pre @ ''-n-'' @ i)))"

definition event_subject :: "string \<Rightarrow> string \<Rightarrow> string \<Rightarrow> string option" where
  "event_subject pre run_id job_key =
     (if is_subject_token run_id \<and> is_subject_token job_key
      then Some (pre @ ''.evt.'' @ run_id @ ''.'' @ job_key) else None)"

section \<open>Redelivery\<close>

text \<open>Durations in seconds.\<close>

definition ACK_WAIT :: nat where
  "ACK_WAIT = 60"

definition ACK_PROGRESS_EVERY :: nat where
  "ACK_PROGRESS_EVERY = 20"

definition BACKOFF :: "nat list" where
  "BACKOFF = [ACK_WAIT, 5 * 60, 15 * 60]"

definition MAX_DELIVER :: nat where
  "MAX_DELIVER = 4"

definition backoff_for :: "nat \<Rightarrow> nat" where
  "backoff_for attempt = BACKOFF ! min (attempt - 1) (length BACKOFF - 1)"

section \<open>Publishing\<close>

record 'e bus_state =
  bs_jobs :: "(string \<times> job_message) list"
  bs_events :: "(string \<times> 'e) list"

text \<open>A publish that JetStream acknowledges; a message whose id is on the stream is not added again.\<close>

definition publish_job ::
    "string \<Rightarrow> (string \<Rightarrow> (string, unit) result) \<Rightarrow> route \<Rightarrow> job_message \<Rightarrow> 'e bus_state
     \<Rightarrow> (bus_error, 'e bus_state) result" where
  "publish_job pre acked r msg b =
     and_then (subject_for pre r) (\<lambda>subject.
     and_then (map_err (PublishErr subject) (acked subject)) (\<lambda>_.
       Ok (if jm_job_id msg \<in> (jm_job_id \<circ> snd) ` set (bs_jobs b) then b
           else b\<lparr>bs_jobs := bs_jobs b @ [(subject, msg)]\<rparr>)))"

definition publish_event :: "string \<Rightarrow> string \<Rightarrow> string \<Rightarrow> 'e \<Rightarrow> 'e bus_state \<Rightarrow> 'e bus_state" where
  "publish_event pre run_id job_key ev b =
     (case event_subject pre run_id job_key of
        None \<Rightarrow> b
      | Some subject \<Rightarrow> b\<lparr>bs_events := bs_events b @ [(subject, ev)]\<rparr>)"

section \<open>Consumers\<close>

text \<open>The consumers of the jobs stream by durable name, each with its filter and its ack window.
  \<^verbatim>\<open>get_or_create_consumer\<close> returns an existing consumer whatever was asked for, so one with
  another window is deleted and created again.\<close>

record consumer =
  cn_filter :: string
  cn_ack_wait :: nat

definition get_or_create :: "string \<Rightarrow> consumer \<Rightarrow> (string \<rightharpoonup> consumer) \<Rightarrow> (string \<rightharpoonup> consumer)" where
  "get_or_create durable c cs = (case cs durable of Some _ \<Rightarrow> cs | None \<Rightarrow> cs(durable \<mapsto> c))"

definition consumer_for ::
    "string \<Rightarrow> route \<Rightarrow> (string \<rightharpoonup> consumer) \<Rightarrow> (bus_error, string \<times> (string \<rightharpoonup> consumer)) result" where
  "consumer_for pre r cs =
     and_then (durable_for pre r) (\<lambda>durable.
     and_then (subject_for pre r) (\<lambda>flt.
       (let config = \<lparr>cn_filter = flt, cn_ack_wait = ACK_WAIT\<rparr>;
            cs' = get_or_create durable config cs
        in if map_option cn_ack_wait (cs' durable) = Some ACK_WAIT then Ok (durable, cs')
           else Ok (durable, get_or_create durable config (cs'(durable := None))))))"

section \<open>Lemmas\<close>

lemma subject_token_chars: "is_subject_token s \<Longrightarrow> list_all is_token_char s"
  by (auto simp: is_subject_token_def is_token_char_def list_all_iff)

lemma check_token_Ok [simp]: "check_token s = Ok u \<longleftrightarrow> is_subject_token s"
  by (simp add: check_token_def)

lemma subject_for_Ok:
  "subject_for pre r = Ok s \<longleftrightarrow>
   (case r of RRunner i \<Rightarrow> is_subject_token i \<and> s = pre @ ''.job.r.'' @ i
            | RNetwork i \<Rightarrow> is_subject_token i \<and> s = pre @ ''.job.n.'' @ i)"
  by (auto simp: subject_for_def split: route.split)

lemma durable_for_Ok:
  "durable_for pre r = Ok s \<longleftrightarrow>
   (case r of RRunner i \<Rightarrow> is_subject_token i \<and> s = pre @ ''-r-'' @ i
            | RNetwork i \<Rightarrow> is_subject_token i \<and> s = pre @ ''-n-'' @ i)"
  by (auto simp: durable_for_def split: route.split)

lemma backoff_bounds: "ACK_WAIT \<le> backoff_for n \<and> backoff_for n \<le> 15 * 60"
proof -
  have "min (n - 1) (length BACKOFF - 1) \<in> {0, 1, 2}" by (auto simp: BACKOFF_def)
  then show ?thesis by (auto simp: backoff_for_def BACKOFF_def ACK_WAIT_def nth_Cons')
qed

section \<open>Properties\<close>

text \<open>Every route has its own queue: two routes share a subject, or a durable consumer, only when
  they are the same route, no subject or durable name contains a wildcard or a space, and binding
  a route's consumer leaves every other consumer alone and ends with the route's own window,
  whatever was there before.\<close>

theorem routes_disjoint:
  assumes "subject_for pre r = Ok s" "subject_for pre r' = Ok s'"
    and "durable_for pre r = Ok n" "durable_for pre r' = Ok n'" "is_subject_token pre"
  shows "(s = s' \<longleftrightarrow> r = r') \<and> (n = n' \<longleftrightarrow> r = r')
    \<and> set s \<inter> {CHR ''*'', CHR ''>'', CHR '' ''} = {} \<and> list_all is_token_char n
    \<and> (\<exists>cs'. consumer_for pre r cs = Ok (n, cs')
         \<and> map_option cn_ack_wait (cs' n) = Some ACK_WAIT \<and> (\<forall>m. m \<noteq> n \<longrightarrow> cs' m = cs m))"
proof -
  have tok: "\<not> is_token_char (CHR ''*'')" "\<not> is_token_char (CHR ''>'')" "\<not> is_token_char (CHR '' '')"
    by code_simp+
  have "list_all is_token_char pre" using assms(5) by (rule subject_token_chars)
  moreover have "is_token_char (CHR ''-'')" "is_token_char (CHR ''r'')" "is_token_char (CHR ''n'')"
    "is_token_char (CHR ''j'')" "is_token_char (CHR ''o'')" "is_token_char (CHR ''b'')" by code_simp+
  ultimately have chars: "set s \<subseteq> insert (CHR ''.'') {c. is_token_char c}" "list_all is_token_char n"
    using assms(1,3)
    by (auto simp: subject_for_Ok durable_for_Ok list_all_iff dest!: subject_token_chars split: route.splits)
  have "\<exists>cs'. consumer_for pre r cs = Ok (n, cs')
      \<and> map_option cn_ack_wait (cs' n) = Some ACK_WAIT \<and> (\<forall>m. m \<noteq> n \<longrightarrow> cs' m = cs m)"
    using assms(1,3) by (auto simp: consumer_for_def get_or_create_def Let_def split: option.splits)
  moreover have "(s = s' \<longleftrightarrow> r = r') \<and> (n = n' \<longleftrightarrow> r = r')"
    using assms(1-4) by (auto simp: subject_for_Ok durable_for_Ok split: route.splits)
  ultimately show ?thesis using chars tok by auto
qed

theorem routes_disjoint_witness:
  "subject_for ''ci'' (RRunner ''hd-1'') \<noteq> subject_for ''ci'' (RNetwork ''hd-1'')"
proof -
  have t: "is_subject_token ''hd-1''" "is_subject_token ''ci''" by code_simp+
  let ?r = "RRunner ''hd-1''" and ?n = "RNetwork ''hd-1''"
  obtain s s' n n' where e: "subject_for ''ci'' ?r = Ok s" "subject_for ''ci'' ?n = Ok s'"
    "durable_for ''ci'' ?r = Ok n" "durable_for ''ci'' ?n = Ok n'"
    using t by (auto simp: subject_for_Ok durable_for_Ok)
  from routes_disjoint [OF e t(2)] e show ?thesis by auto
qed

end
