(* ===== verification/Runners.thy ===== *)
theory Runners
  imports Prelude
begin

text \<open>
  \<^verbatim>\<open>src/src/runners.rs\<close> with \<^verbatim>\<open>ServedNetworks\<close> of \<^verbatim>\<open>src/src/config.rs\<close>: the pool of hosts, how it is put
  together from what the control plane reports, how names resolve in it, and the cache of tunnels.

  The control plane, the local daemon and the tunnels are outside the program: what they answer is
  an argument of the functions that ask them.
\<close>

section \<open>What the control plane reports\<close>

datatype daemon_status = DOnline | DStale | DOffline

record daemon_info =
  dm_id :: string
  dm_name :: "string option"
  dm_status :: daemon_status
  dm_last_seen_at :: string

record network_member =
  nm_sandbox_kind :: string
  nm_sandbox_ref :: string
  nm_device_name :: "string option"
  nm_last_seen_at :: "string option"

record network_info =
  ni_id :: string
  ni_name :: string
  ni_is_default :: bool

section \<open>Picking a daemon\<close>

datatype pick_error = NoMatch | Ambiguous "(string \<times> daemon_status) list"

definition pick_daemon :: "daemon_info list \<Rightarrow> string \<Rightarrow> (pick_error, daemon_info) result" where
  "pick_daemon daemons wanted =
     (case find (\<lambda>d. dm_id d = wanted) daemons of
        Some d \<Rightarrow> Ok d
      | None \<Rightarrow>
          (case filter (\<lambda>d. dm_name d = Some wanted) daemons of
             [] \<Rightarrow> Err NoMatch
           | [d] \<Rightarrow> Ok d
           | by_name \<Rightarrow>
               (case filter (\<lambda>d. dm_status d = DOnline) by_name of
                  [d] \<Rightarrow> Ok d
                | _ \<Rightarrow> Err (Ambiguous (map (\<lambda>d. (dm_id d, dm_status d)) by_name)))))"

section \<open>Runners and networks\<close>

datatype runner_status = ROnline | RStale | ROffline | ROrphaned

definition is_dispatchable :: "runner_status \<Rightarrow> bool" where
  "is_dispatchable s \<longleftrightarrow> s = ROnline"

fun runner_status_str :: "runner_status \<Rightarrow> string" where
  "runner_status_str ROnline = ''online''"
| "runner_status_str RStale = ''stale''"
| "runner_status_str ROffline = ''offline''"
| "runner_status_str ROrphaned = ''orphaned''"

fun runner_status_of :: "daemon_status \<Rightarrow> runner_status" where
  "runner_status_of DOnline = ROnline"
| "runner_status_of DStale = RStale"
| "runner_status_of DOffline = ROffline"

record runner =
  ru_id :: string
  ru_name :: string
  ru_status :: runner_status
  ru_last_seen_at :: "string option"

definition runner_matches :: "runner \<Rightarrow> string \<Rightarrow> bool" where
  "runner_matches r needle \<longleftrightarrow> ru_id r = needle \<or> eq_ignore_ascii_case (ru_name r) needle"

record runner_set =
  ns_network_id :: string
  ns_network_name :: string
  ns_is_default :: bool
  ns_served :: bool
  ns_runners :: "runner list"

definition find_runner :: "runner_set \<Rightarrow> string \<Rightarrow> runner option" where
  "find_runner n needle = find (\<lambda>r. runner_matches r needle) (ns_runners n)"

definition dispatchable :: "runner_set \<Rightarrow> runner list" where
  "dispatchable n = filter (\<lambda>r. is_dispatchable (ru_status r)) (ns_runners n)"

definition network_matches :: "runner_set \<Rightarrow> string \<Rightarrow> bool" where
  "network_matches n needle \<longleftrightarrow>
     ns_network_id n = needle \<or> eq_ignore_ascii_case (ns_network_name n) needle"

record runner_pool =
  po_networks :: "runner_set list"
  po_unjoined :: "runner list"
  po_last_error :: "string option"
  po_default_network_id :: string
  po_default_node_id :: string

definition served :: "runner_pool \<Rightarrow> runner_set list" where
  "served p = filter ns_served (po_networks p)"

definition find_network :: "runner_pool \<Rightarrow> string \<Rightarrow> runner_set option" where
  "find_network p needle = find (\<lambda>n. network_matches n (trim needle)) (po_networks p)"

definition default_set :: "runner_pool \<Rightarrow> runner_set option" where
  "default_set p =
     (case find (\<lambda>n. ns_served n \<and> ns_network_id n = po_default_network_id p) (po_networks p) of
        Some n \<Rightarrow> Some n
      | None \<Rightarrow> (case served p of [] \<Rightarrow> None | n # _ \<Rightarrow> Some n))"

definition all_runners :: "runner_pool \<Rightarrow> runner list" where
  "all_runners p = concat (map ns_runners (served p))"

text \<open>The loop of \<^verbatim>\<open>locate\<close>, with what it has found so far.\<close>

fun locate_from ::
    "string \<Rightarrow> string \<Rightarrow> (runner_set \<times> runner) option \<Rightarrow> runner_set list \<Rightarrow> (runner_set \<times> runner) option" where
  "locate_from dflt node_id found [] = found"
| "locate_from dflt node_id found (n # ns) =
     (case find (\<lambda>r. ru_id r = node_id) (ns_runners n) of
        None \<Rightarrow> locate_from dflt node_id found ns
      | Some r \<Rightarrow>
          if ns_network_id n = dflt then Some (n, r)
          else locate_from dflt node_id (case found of None \<Rightarrow> Some (n, r) | Some _ \<Rightarrow> found) ns)"

definition locate :: "runner_pool \<Rightarrow> string \<Rightarrow> (runner_set \<times> runner) option" where
  "locate p node_id = locate_from (po_default_network_id p) node_id None (served p)"

definition served_names :: "runner_pool \<Rightarrow> string list" where
  "served_names p = map ns_network_name (served p)"

section \<open>Which networks are served\<close>

datatype served_networks = AllNetworks | NamedNetworks "string list"

definition parse_served :: "string \<Rightarrow> served_networks" where
  "parse_served raw =
     (if trim raw = ''*'' then AllNetworks
      else NamedNetworks (filter (\<lambda>s. s \<noteq> []) (map trim (split_on (CHR '','') raw))))"

fun includes_network :: "served_networks \<Rightarrow> string \<Rightarrow> string \<Rightarrow> bool" where
  "includes_network AllNetworks nid name = True"
| "includes_network (NamedNetworks names) nid name =
     list_ex (\<lambda>n. n = nid \<or> eq_ignore_ascii_case n name) names"

fun preferred :: "served_networks \<Rightarrow> string option" where
  "preferred AllNetworks = None"
| "preferred (NamedNetworks names) = (case names of [] \<Rightarrow> None | n # _ \<Rightarrow> Some n)"

section \<open>Loading the pool\<close>

datatype runner_error =
    ControlPlane string
  | UnknownNetworkName string "string list"
  | AmbiguousNetwork string "string list"
  | UnknownDaemon string
  | NoTicket string string
  | Unreachable string string
  | DaemonUnauthenticated string

definition MEMBER_KIND_HOST :: string where
  "MEMBER_KIND_HOST = ''host''"

text \<open>\<^verbatim>\<open>daemons\<close> collected into a map: of two rows with one id the later wins.\<close>

definition daemon_by_id :: "daemon_info list \<Rightarrow> string \<Rightarrow> daemon_info option" where
  "daemon_by_id daemons i = find (\<lambda>d. dm_id d = i) (rev daemons)"

definition project_member :: "daemon_info list \<Rightarrow> network_member \<Rightarrow> runner" where
  "project_member daemons m =
     (let d = daemon_by_id daemons (nm_sandbox_ref m) in
      \<lparr>ru_id = nm_sandbox_ref m,
       ru_name = (case Option.bind d dm_name of
                    Some n \<Rightarrow> n
                  | None \<Rightarrow> (case nm_device_name m of Some n \<Rightarrow> n | None \<Rightarrow> nm_sandbox_ref m)),
       ru_status = (case d of Some x \<Rightarrow> runner_status_of (dm_status x) | None \<Rightarrow> ROrphaned),
       ru_last_seen_at = (case d of Some x \<Rightarrow> Some (dm_last_seen_at x) | None \<Rightarrow> nm_last_seen_at m)\<rparr>)"

definition project :: "network_member list \<Rightarrow> daemon_info list \<Rightarrow> runner list \<times> string list" where
  "project members daemons =
     (let hosts = filter (\<lambda>m. nm_sandbox_kind m = MEMBER_KIND_HOST) members
      in (sort_key ru_name (map (project_member daemons) hosts), map nm_sandbox_ref hosts))"

definition check_network_name :: "network_info list \<Rightarrow> string \<Rightarrow> (runner_error, unit) result" where
  "check_network_name networks raw =
     (let name = trim raw;
          by_name = filter (\<lambda>n. eq_ignore_ascii_case (ni_name n) name) networks
      in if list_ex (\<lambda>n. ni_id n = name) networks then Ok ()
         else (case by_name of
                 [_] \<Rightarrow> Ok ()
               | [] \<Rightarrow> Err (UnknownNetworkName name (map ni_name networks))
               | _ \<Rightarrow> Err (AmbiguousNetwork name (map ni_id by_name))))"

definition list_networks ::
    "served_networks \<Rightarrow> (string, network_info list) result \<Rightarrow> (runner_error, network_info list) result" where
  "list_networks cfg answer =
     and_then (map_err (\<lambda>e. ControlPlane (''GET /networks: '' @ e)) answer) (\<lambda>networks.
       and_then (case cfg of
                   AllNetworks \<Rightarrow> Ok ()
                 | NamedNetworks wanted \<Rightarrow> check_all (check_network_name networks) wanted)
         (\<lambda>_. Ok networks))"

definition pick_default :: "served_networks \<Rightarrow> runner_set list \<Rightarrow> string" where
  "pick_default cfg networks =
     (case Option.bind (preferred cfg) (\<lambda>w. find (\<lambda>n. ns_served n \<and> network_matches n w) networks) of
        Some n \<Rightarrow> ns_network_id n
      | None \<Rightarrow>
          (case find (\<lambda>n. ns_served n \<and> ns_is_default n) networks of
             Some n \<Rightarrow> ns_network_id n
           | None \<Rightarrow> (case find ns_served networks of Some n \<Rightarrow> ns_network_id n | None \<Rightarrow> [])))"

text \<open>\<open>disk\<close> is the id in \<^verbatim>\<open>~/.heyo/daemon.json\<close> (trimmed and non-empty when there is one), \<open>probe\<close> the
  answer of the local daemon: its backend id and its name.\<close>

definition not_blank :: "string option \<Rightarrow> string option" where
  "not_blank x = (case x of None \<Rightarrow> None | Some s \<Rightarrow> if trim s = [] then None else Some s)"

definition node_by_name :: "string option \<Rightarrow> daemon_info list \<Rightarrow> string" where
  "node_by_name name daemons =
     (case not_blank name of
        None \<Rightarrow> []
      | Some n \<Rightarrow> (case pick_daemon daemons n of Ok d \<Rightarrow> dm_id d | Err _ \<Rightarrow> []))"

definition listed :: "daemon_info list \<Rightarrow> string option \<Rightarrow> string option" where
  "listed daemons x =
     (case x of None \<Rightarrow> None | Some i \<Rightarrow> if list_ex (\<lambda>d. dm_id d = i) daemons then Some i else None)"

definition resolve_default_node ::
    "string option \<Rightarrow> string option \<Rightarrow> (string option \<times> string option) option \<Rightarrow> daemon_info list \<Rightarrow> string" where
  "resolve_default_node configured disk probe daemons =
     (case configured of
        Some raw \<Rightarrow> (case pick_daemon daemons (trim raw) of Ok d \<Rightarrow> dm_id d | Err _ \<Rightarrow> [])
      | None \<Rightarrow>
          (case listed daemons disk of
             Some i \<Rightarrow> i
           | None \<Rightarrow>
               (case probe of
                  None \<Rightarrow> []
                | Some (backend, name) \<Rightarrow>
                    (case listed daemons (not_blank backend) of
                       Some i \<Rightarrow> i
                     | None \<Rightarrow> node_by_name name daemons))))"

definition local_pool :: runner_pool where
  "local_pool =
     \<lparr>po_networks = [\<lparr>ns_network_id = ''local'', ns_network_name = ''local'', ns_is_default = True,
        ns_served = True,
        ns_runners = [\<lparr>ru_id = ''hd-local'', ru_name = ''local'', ru_status = ROnline,
          ru_last_seen_at = None\<rparr>]\<rparr>],
      po_unjoined = [], po_last_error = None, po_default_network_id = ''local'',
      po_default_node_id = ''hd-local''\<rparr>"

text \<open>The configuration of the runners: whether one local daemon is driven directly, what is served,
  which node is the default and what the machine itself says about it.\<close>

record runner_config =
  rc_local_runner :: "string option"
  rc_networks :: served_networks
  rc_default_node :: "string option"
  rc_disk_id :: "string option"
  rc_probe :: "(string option \<times> string option) option"
  rc_allow_unauthenticated :: bool

record control_plane =
  cp_networks :: "(string, network_info list) result"
  cp_daemons :: "(string, daemon_info list) result"
  cp_members :: "string \<Rightarrow> (runner_error, network_member list) result"

text \<open>One network's hosts; a network whose members cannot be read is kept with none.\<close>

definition members_of :: "control_plane \<Rightarrow> network_info \<Rightarrow> network_member list" where
  "members_of cp info = (case cp_members cp (ni_id info) of Ok ms \<Rightarrow> ms | Err _ \<Rightarrow> [])"

definition load_network ::
    "runner_config \<Rightarrow> control_plane \<Rightarrow> daemon_info list \<Rightarrow> network_info \<Rightarrow> runner_set" where
  "load_network cfg cp daemons info =
     \<lparr>ns_network_id = ni_id info, ns_network_name = ni_name info, ns_is_default = ni_is_default info,
      ns_served = includes_network (rc_networks cfg) (ni_id info) (ni_name info),
      ns_runners = fst (project (members_of cp info) daemons)\<rparr>"

definition unjoined_runner :: "daemon_info \<Rightarrow> runner" where
  "unjoined_runner d =
     \<lparr>ru_id = dm_id d, ru_name = (case dm_name d of Some n \<Rightarrow> n | None \<Rightarrow> dm_id d),
      ru_status = runner_status_of (dm_status d), ru_last_seen_at = Some (dm_last_seen_at d)\<rparr>"

definition load :: "runner_config \<Rightarrow> control_plane \<Rightarrow> (runner_error, runner_pool) result" where
  "load cfg cp =
     (if rc_local_runner cfg \<noteq> None then Ok local_pool
      else and_then (list_networks (rc_networks cfg) (cp_networks cp)) (\<lambda>infos.
           and_then (map_err (\<lambda>e. ControlPlane (''GET /me/daemons: '' @ e)) (cp_daemons cp)) (\<lambda>daemons.
             (let networks = sort_key ns_network_name (map (load_network cfg cp daemons) infos);
                  joined = concat (map (\<lambda>i. snd (project (members_of cp i) daemons)) infos)
              in Ok \<lparr>po_networks = networks,
                     po_unjoined = sort_key ru_name (map unjoined_runner
                       (filter (\<lambda>d. dm_id d \<notin> set joined) daemons)),
                     po_last_error = None,
                     po_default_network_id = pick_default (rc_networks cfg) networks,
                     po_default_node_id =
                       resolve_default_node (rc_default_node cfg) (rc_disk_id cfg) (rc_probe cfg) daemons\<rparr>))))"

text \<open>A failed refresh keeps the snapshot and records why; \<open>show\<close> prints the error.\<close>

definition refresh ::
    "(runner_error \<Rightarrow> string) \<Rightarrow> runner_config \<Rightarrow> control_plane \<Rightarrow> runner_pool
     \<Rightarrow> (runner_error, unit) result \<times> runner_pool" where
  "refresh show cfg cp prev =
     (case load cfg cp of
        Ok p \<Rightarrow> (Ok (), p)
      | Err e \<Rightarrow> (Err e, prev\<lparr>po_last_error := Some (show e)\<rparr>))"

section \<open>Tunnels\<close>

text \<open>The answer to a ticket request: the status code and, of the body, the detail and the URL.\<close>

definition connection_ticket ::
    "string \<Rightarrow> (string, nat \<times> string \<times> string option) result \<Rightarrow> (runner_error, string) result" where
  "connection_ticket runner_id answer =
     (case answer of
        Err e \<Rightarrow> Err (Unreachable runner_id (''fetching a connection ticket: '' @ e))
      | Ok (status, detail, url) \<Rightarrow>
          if \<not> (200 \<le> status \<and> status < 300) then
            Err (if status = 409 then NoTicket runner_id detail
                 else if status = 404 then UnknownDaemon runner_id
                 else Unreachable runner_id
                   (''connection-ticket returned '' @ nat_str status @ '': '' @ detail))
          else (case url of
                  Some u \<Rightarrow> if u = [] then Err (NoTicket runner_id ''the cloud returned an empty connectionUrl'')
                            else Ok u
                | None \<Rightarrow> Err (NoTicket runner_id ''the cloud returned an empty connectionUrl'')))"

text \<open>The unauthenticated request over a new tunnel: it could not be built, it did not get through, or
  it was answered with a status.\<close>

datatype auth_probe = NoProbe string | ProbeFailed | ProbeStatus nat

definition assert_daemon_requires_auth ::
    "bool \<Rightarrow> string \<Rightarrow> auth_probe \<Rightarrow> (runner_error, unit) result" where
  "assert_daemon_requires_auth allow runner_id pr =
     (case pr of
        NoProbe e \<Rightarrow> Err (Unreachable runner_id (''could not build an auth probe: '' @ e))
      | ProbeFailed \<Rightarrow> Ok ()
      | ProbeStatus s \<Rightarrow>
          if \<not> (200 \<le> s \<and> s < 300) then Ok ()
          else if allow then Ok ()
          else Err (DaemonUnauthenticated runner_id))"

record tunnel_env =
  te_ticket :: "(string, nat \<times> string \<times> string option) result"
  te_dial :: "string \<Rightarrow> (string, string) result"
  te_probe :: "string \<Rightarrow> auth_probe"

definition open_tunnel :: "runner_config \<Rightarrow> tunnel_env \<Rightarrow> string \<Rightarrow> (runner_error, string) result" where
  "open_tunnel cfg env runner_id =
     and_then (connection_ticket runner_id (te_ticket env)) (\<lambda>ticket.
     and_then (map_err (Unreachable runner_id) (te_dial env ticket)) (\<lambda>client.
     and_then (assert_daemon_requires_auth (rc_allow_unauthenticated cfg) runner_id (te_probe env client))
       (\<lambda>_. Ok client)))"

definition client_for ::
    "runner_config \<Rightarrow> tunnel_env \<Rightarrow> string \<Rightarrow> (string \<rightharpoonup> string)
     \<Rightarrow> (runner_error, string) result \<times> (string \<rightharpoonup> string)" where
  "client_for cfg env runner_id cache =
     (case cache runner_id of
        Some c \<Rightarrow> (Ok c, cache)
      | None \<Rightarrow>
          (case open_tunnel cfg env runner_id of
             Ok client \<Rightarrow> (Ok client, cache(runner_id \<mapsto> client))
           | Err e \<Rightarrow> (Err e, cache)))"

text \<open>Client options: the bearer is sent (\<open>True\<close>) except to a local daemon.\<close>

definition options_for ::
    "runner_config \<Rightarrow> tunnel_env \<Rightarrow> string \<Rightarrow> (string \<rightharpoonup> string)
     \<Rightarrow> (runner_error, bool \<times> string) result \<times> (string \<rightharpoonup> string)" where
  "options_for cfg env runner_id cache =
     (case rc_local_runner cfg of
        Some url \<Rightarrow> (Ok (False, url), cache)
      | None \<Rightarrow>
          (case client_for cfg env runner_id cache of
             (Ok c, cache') \<Rightarrow> (Ok (True, c), cache')
           | (Err e, cache') \<Rightarrow> (Err e, cache')))"

definition evict :: "string \<Rightarrow> (string \<rightharpoonup> string) \<Rightarrow> (string \<rightharpoonup> string)" where
  "evict runner_id cache = cache(runner_id := None)"

section \<open>Lemmas\<close>

lemma served_iff: "n \<in> set (served p) \<longleftrightarrow> n \<in> set (po_networks p) \<and> ns_served n"
  by (auto simp: served_def)

lemma locate_from_Some:
  assumes "locate_from dflt i found ns = Some (n, r)"
  shows "found = Some (n, r) \<or> (n \<in> set ns \<and> r \<in> set (ns_runners n) \<and> ru_id r = i)"
  using assms
  by (induction dflt i found ns rule: locate_from.induct)
     (auto split: option.splits if_splits dest!: find_SomeD)

lemma locate_from_None:
  "locate_from dflt i found ns = None \<longleftrightarrow> found = None \<and> (\<forall>n\<in>set ns. \<forall>r\<in>set (ns_runners n). ru_id r \<noteq> i)"
  by (induction dflt i found ns rule: locate_from.induct)
     (auto split: option.splits if_splits simp: find_None_iff dest!: find_SomeD)

lemma locate_from_default:
  assumes "n' \<in> set ns" "ns_network_id n' = dflt" "r' \<in> set (ns_runners n')" "ru_id r' = i"
    and "locate_from dflt i found ns = Some (n, r)"
  shows "ns_network_id n = dflt"
  using assms
  by (induction dflt i found ns rule: locate_from.induct)
     (auto split: option.splits if_splits simp: find_None_iff)

lemma pick_daemon_Ok:
  assumes "pick_daemon daemons wanted = Ok d"
  shows "d \<in> set daemons \<and> (dm_id d = wanted \<or> dm_name d = Some wanted)"
proof (cases "find (\<lambda>d. dm_id d = wanted) daemons")
  case None
  define F where "F = filter (\<lambda>d. dm_name d = Some wanted) daemons"
  have "\<And>G. filter G F = [d] \<Longrightarrow> d \<in> set F" by (metis filter_is_subset list.set_intros(1) subsetD)
  then have "d \<in> set F"
    using assms None unfolding pick_daemon_def F_def [symmetric] by (auto split: list.splits)
  then have "d \<in> set (filter (\<lambda>d. dm_name d = Some wanted) daemons)" by (simp add: F_def)
  then show ?thesis by auto
next
  case (Some x)
  with assms show ?thesis by (auto simp: pick_daemon_def dest: find_SomeD)
qed

lemma open_tunnel_Ok:
  "open_tunnel cfg env i = Ok c \<longleftrightarrow>
   (\<exists>ticket. connection_ticket i (te_ticket env) = Ok ticket \<and> te_dial env ticket = Ok c
      \<and> (case te_probe env c of NoProbe _ \<Rightarrow> False | ProbeFailed \<Rightarrow> True
            | ProbeStatus s \<Rightarrow> rc_allow_unauthenticated cfg \<or> s < 200 \<or> 300 \<le> s))"
proof -
  have "assert_daemon_requires_auth a i pr = Ok u \<longleftrightarrow>
      (case pr of NoProbe _ \<Rightarrow> False | ProbeFailed \<Rightarrow> True | ProbeStatus s \<Rightarrow> a \<or> s < 200 \<or> 300 \<le> s)" for a pr u
    by (auto simp: assert_daemon_requires_auth_def split: auth_probe.split)
  then show ?thesis by (auto simp: open_tunnel_def)
qed

lemma listed_Some: "listed daemons x = Some i \<Longrightarrow> \<exists>d\<in>set daemons. dm_id d = i"
  by (auto simp: listed_def list_ex_iff split: option.splits if_splits)

lemma node_by_name_listed: "node_by_name name daemons \<noteq> [] \<Longrightarrow> \<exists>d\<in>set daemons. dm_id d = node_by_name name daemons"
  by (auto simp: node_by_name_def split: option.splits result.splits dest!: pick_daemon_Ok)

section \<open>Properties\<close>

text \<open>\<^verbatim>\<open>uses: default\<close> never invents a host: outside local mode the default node is empty or the id
  of a daemon the account has. Locating it gives a host with exactly that id in a served network,
  in the default network whenever the host is a member of that one, and fails only when no served
  network has it.\<close>

theorem default_node_real:
  assumes "load cfg cp = Ok p" "rc_local_runner cfg = None" "cp_daemons cp = Ok daemons"
  shows "(po_default_node_id p = [] \<or> (\<exists>d\<in>set daemons. dm_id d = po_default_node_id p))
    \<and> (case locate p i of
         None \<Rightarrow> \<not> list_ex (\<lambda>r. ru_id r = i) (all_runners p)
       | Some (n, r) \<Rightarrow> n \<in> set (served p) \<and> r \<in> set (ns_runners n) \<and> ru_id r = i
           \<and> (ns_network_id n = po_default_network_id p
              \<or> \<not> list_ex (\<lambda>m. ns_network_id m = po_default_network_id p
                               \<and> list_ex (\<lambda>r. ru_id r = i) (ns_runners m)) (served p)))"
proof -
  let ?node = "resolve_default_node (rc_default_node cfg) (rc_disk_id cfg) (rc_probe cfg) daemons"
  have "?node = [] \<or> (\<exists>d\<in>set daemons. dm_id d = ?node)"
    using listed_Some [of daemons] node_by_name_listed [of _ daemons] pick_daemon_Ok [of daemons]
    unfolding resolve_default_node_def by (force split: option.splits result.splits)
  moreover have "po_default_node_id p = ?node"
    using assms by (auto simp: load_def Let_def)
  moreover have "case locate p i of None \<Rightarrow> \<not> list_ex (\<lambda>r. ru_id r = i) (all_runners p)
      | Some (n, r) \<Rightarrow> n \<in> set (served p) \<and> r \<in> set (ns_runners n) \<and> ru_id r = i
           \<and> (ns_network_id n = po_default_network_id p
              \<or> \<not> list_ex (\<lambda>m. ns_network_id m = po_default_network_id p
                               \<and> list_ex (\<lambda>r. ru_id r = i) (ns_runners m)) (served p))"
    using locate_from_Some [of "po_default_network_id p" i None "served p"]
      locate_from_None [of "po_default_network_id p" i None "served p"]
      locate_from_default [of _ "served p" "po_default_network_id p" _ i None]
    unfolding locate_def by (fastforce split: option.splits simp: all_runners_def list_ex_iff)
  ultimately show ?thesis by simp
qed

definition sample_config :: runner_config where
  "sample_config = \<lparr>rc_local_runner = None, rc_networks = AllNetworks, rc_default_node = Some ''box'',
     rc_disk_id = None, rc_probe = None, rc_allow_unauthenticated = False\<rparr>"

definition sample_daemon :: daemon_info where
  "sample_daemon = \<lparr>dm_id = ''hd-1'', dm_name = Some ''box'', dm_status = DOnline, dm_last_seen_at = ''now''\<rparr>"

definition sample_control_plane :: control_plane where
  "sample_control_plane =
     \<lparr>cp_networks = Ok [\<lparr>ni_id = ''net-1'', ni_name = ''lab'', ni_is_default = True\<rparr>],
      cp_daemons = Ok [sample_daemon],
      cp_members = (\<lambda>_. Ok [\<lparr>nm_sandbox_kind = ''host'', nm_sandbox_ref = ''hd-1'',
                            nm_device_name = None, nm_last_seen_at = None\<rparr>])\<rparr>"

theorem default_node_real_witness:
  "\<exists>p. load sample_config sample_control_plane = Ok p \<and> po_default_node_id p = ''hd-1''
     \<and> (\<exists>n r. locate p ''hd-1'' = Some (n, r) \<and> ru_id r = ''hd-1'')"
proof -
  have box: "trim ''box'' = ''box''" by code_simp
  obtain p where p: "load sample_config sample_control_plane = Ok p"
    and node: "po_default_node_id p = ''hd-1''" and all: "map ru_id (all_runners p) = [''hd-1'']"
    by (simp add: load_def sample_config_def sample_control_plane_def sample_daemon_def list_networks_def
        resolve_default_node_def pick_daemon_def box Let_def all_runners_def served_def load_network_def
        project_def members_of_def project_member_def MEMBER_KIND_HOST_def)
  have "rc_local_runner sample_config = None" "cp_daemons sample_control_plane = Ok [sample_daemon]"
    by (simp_all add: sample_config_def sample_control_plane_def)
  from default_node_real [OF p this, of "''hd-1''"] all have "locate p ''hd-1'' \<noteq> None"
    "case locate p ''hd-1'' of None \<Rightarrow> True | Some (n, r) \<Rightarrow> ru_id r = ''hd-1''"
    by (auto split: option.splits simp: list_ex_iff)
  with p node show ?thesis by (auto split: option.splits)
qed


end
