(* ===== verification/Image.thy ===== *)
theory Image
  imports VmPool
begin

text \<open>
  \<^verbatim>\<open>src/src/image.rs\<close>: naming a VM image after what it is built from, driving the build on the
  runner, and the catalog of images per runner.

  The submitted tree is a value of \<open>fs_node\<close>, read as the code walks it. SHA-256, the tar and gzip
  crates and the daemon are parameters; the daemon's answers come with the time they arrived.
\<close>

section \<open>What is built\<close>

datatype image_error =
    NoDockerfile string string
  | UnreadableContext string string
  | Pack string
  | ImageDaemon string heyo_error
  | BuildFailed string string
  | BuildTimeout string nat
  | WaitTimeout string nat

definition image_is_transport :: "image_error \<Rightarrow> bool" where
  "image_is_transport e = (case e of ImageDaemon _ src \<Rightarrow> is_transport_sdk src | _ \<Rightarrow> False)"

record image_plan =
  bp_name :: string
  bp_dockerfile :: string
  bp_context_tar_gz :: "string option"

datatype fs_node =
    FsFile string
  | FsUnreadable string
  | FsDir "(string \<times> fs_node) list"
  | FsUnreadableDir string
  | FsSkipped

definition child_path :: "string \<Rightarrow> string \<Rightarrow> string" where
  "child_path rel name = (if rel = [] then name else rel @ ''/'' @ name)"

text \<open>Symbolic links, special files and entries without metadata are skipped.\<close>

fun walk_tree :: "string \<Rightarrow> fs_node \<Rightarrow> (image_error, (string \<times> string) list) result" where
  "walk_tree rel (FsFile bytes) = Ok [(rel, bytes)]"
| "walk_tree rel (FsUnreadable e) = Err (UnreadableContext rel e)"
| "walk_tree rel (FsUnreadableDir e) = Err (UnreadableContext rel e)"
| "walk_tree rel FsSkipped = Ok []"
| "walk_tree rel (FsDir entries) =
     and_then (map_result (\<lambda>(name, node). walk_tree (child_path rel name) node) entries)
       (\<lambda>parts. Ok (concat parts))"

definition context_files :: "fs_node option \<Rightarrow> (image_error, (string \<times> string) list) result" where
  "context_files dir =
     (case dir of
        Some (FsDir entries) \<Rightarrow> and_then (walk_tree [] (FsDir entries)) (\<lambda>fs. Ok (sort_key fst fs))
      | Some (FsUnreadableDir e) \<Rightarrow> Err (UnreadableContext [] e)
      | _ \<Rightarrow> Ok [])"

fun driver_str :: "sandbox_driver \<Rightarrow> string" where
  "driver_str Firecracker = ''Firecracker''"
| "driver_str Kvm = ''Kvm''"
| "driver_str Libvirt = ''Libvirt''"

definition image_input ::
    "(string \<Rightarrow> string) \<Rightarrow> string \<Rightarrow> sandbox_driver \<Rightarrow> nat option \<Rightarrow> (string \<times> string) list \<Rightarrow> string" where
  "image_input sha text' driver mb files =
     ''ci-image-v2'' @ [CHR 0x00] @ text' @ [CHR 0x00]
     @ driver_str driver @ [CHR 0x00] @ nat_str (case mb of None \<Rightarrow> 0 | Some m \<Rightarrow> m) @ [CHR 0x00]
     @ concat (map (\<lambda>(rel, bytes). rel @ [CHR 0x00] @ sha bytes) files)"

definition image_name :: "(string \<Rightarrow> string) \<Rightarrow> string \<Rightarrow> string" where
  "image_name sha input = ''ci-img-'' @ take FINGERPRINT_LEN (hex_encode (sha input))"

definition plan_for ::
    "(string \<Rightarrow> string) \<Rightarrow> ((string \<times> string) list \<Rightarrow> (string, string) result)
     \<Rightarrow> (string \<Rightarrow> (string, string) result) \<Rightarrow> (string \<Rightarrow> fs_node option) \<Rightarrow> image_build \<Rightarrow> vm_spec
     \<Rightarrow> (image_error, image_plan) result" where
  "plan_for sha pack read_text dir build spec =
     and_then (map_err (NoDockerfile (dockerfile build)) (read_text (dockerfile build))) (\<lambda>df.
     and_then (context_files (dir (context_dir build))) (\<lambda>files.
     and_then (if files = [] then Ok None else map_err Pack (and_then (pack files) (\<lambda>b. Ok (Some b))))
       (\<lambda>ctx. Ok \<lparr>bp_name = image_name sha (image_input sha df (vm_driver spec) (size_mb build) files),
                  bp_dockerfile = df, bp_context_tar_gz = ctx\<rparr>)))"

section \<open>The remote build\<close>

record build_status =
  bt_status :: string
  bt_error :: "string option"
  bt_size_bytes :: "nat option"

definition built_size :: "build_status \<Rightarrow> nat" where
  "built_size s = (case bt_size_bytes s of None \<Rightarrow> 0 | Some n \<Rightarrow> n)"

text \<open>One poll: the time since the build was requested, the answer to the status request and the answer
  to the request that is sent again when the daemon has lost the build. Each poll first renews the
  claim (\<open>renew\<close>, on whatever state it keeps). \<open>None\<close> means the polls ran out before the loop ended.\<close>

type_synonym build_poll = "nat \<times> (heyo_error, build_status) result \<times> (heyo_error, build_status) result"

fun build_loop ::
    "string \<Rightarrow> nat \<Rightarrow> (nat \<Rightarrow> 's \<Rightarrow> 's) \<Rightarrow> build_poll list \<Rightarrow> 's
     \<Rightarrow> ((image_error, nat) result \<times> 's) option" where
  "build_loop name deadline renew [] s = None"
| "build_loop name deadline renew ((elapsed, answer, again) # later) s =
     (let s' = renew elapsed s;
          next = (if deadline \<le> elapsed then Some (Err (BuildTimeout name deadline), s')
                  else build_loop name deadline renew later s')
      in (case answer of
            Err e \<Rightarrow> Some (Err (ImageDaemon ''polling the image build'' e), s')
          | Ok st \<Rightarrow>
              if bt_status st = ''ready'' then Some (Ok (built_size st), s')
              else if bt_status st = ''failed'' then
                Some (Err (BuildFailed name
                  (case bt_error st of None \<Rightarrow> ''the daemon reported no reason'' | Some d \<Rightarrow> d)), s')
              else if bt_status st = ''building'' then next
              else (case again of
                      Err e \<Rightarrow> Some (Err (ImageDaemon ''re-requesting the image build'' e), s')
                    | Ok re \<Rightarrow> if bt_status re = ''ready'' then Some (Ok (built_size re), s') else next)))"

definition build_remote ::
    "string \<Rightarrow> nat \<Rightarrow> (nat \<Rightarrow> 's \<Rightarrow> 's) \<Rightarrow> (heyo_error, unit) result \<Rightarrow> (heyo_error, build_status) result
     \<Rightarrow> build_poll list \<Rightarrow> 's \<Rightarrow> ((image_error, nat) result \<times> 's) option" where
  "build_remote name deadline renew client first polls s =
     (case client of
        Err e \<Rightarrow> Some (Err (ImageDaemon ''building a client for the runner'' e), s)
      | Ok _ \<Rightarrow>
          (case first of
             Err e \<Rightarrow> Some (Err (ImageDaemon ''starting the image build'' e), s)
           | Ok st \<Rightarrow>
               if bt_status st = ''ready'' then Some (Ok (built_size st), s)
               else build_loop name deadline renew polls s))"

section \<open>The catalog\<close>

datatype image_status = ImgBuilding | ImgReady | ImgFailed

record image_row =
  im_name :: string
  im_runner_hd_id :: string
  im_workflow_id :: string
  im_status :: image_status
  im_built_by_job :: "string option"
  im_size_bytes :: nat
  im_error :: "string option"
  im_leased_until :: "nat option"
  im_created_at :: nat
  im_ready_at :: "nat option"

type_synonym image_table = "image_row list"

datatype claim = ClaimReady | ClaimBuild | ClaimInProgress

definition BUILD_LEASE :: nat where
  "BUILD_LEASE = 30 * 60"

abbreviation im_key :: "image_row \<Rightarrow> string \<times> string" where
  "im_key r \<equiv> (im_name r, im_runner_hd_id r)"

definition is_image :: "string \<Rightarrow> string \<Rightarrow> image_row \<Rightarrow> bool" where
  "is_image name runner r \<longleftrightarrow> im_name r = name \<and> im_runner_hd_id r = runner"

definition get_image :: "string \<Rightarrow> string \<Rightarrow> image_table \<Rightarrow> image_row option" where
  "get_image name runner rows = find (is_image name runner) rows"

definition status_of :: "string \<Rightarrow> string \<Rightarrow> image_table \<Rightarrow> image_status option" where
  "status_of name runner rows = map_option im_status (get_image name runner rows)"

text \<open>The guard of the upsert: not ready, and no live lease.\<close>

definition takeable :: "nat \<Rightarrow> image_row \<Rightarrow> bool" where
  "takeable now r \<longleftrightarrow> im_status r \<noteq> ImgReady
     \<and> (case im_leased_until r of None \<Rightarrow> True | Some t \<Rightarrow> t < now)"

definition take_image_row :: "nat \<Rightarrow> string \<Rightarrow> nat \<Rightarrow> image_row \<Rightarrow> image_row" where
  "take_image_row now jid ttl r =
     r\<lparr>im_status := ImgBuilding, im_built_by_job := Some jid, im_error := None,
       im_leased_until := Some (now + ttl)\<rparr>"

definition claim_image ::
    "nat \<Rightarrow> string \<Rightarrow> string \<Rightarrow> string \<Rightarrow> string \<Rightarrow> nat \<Rightarrow> image_table \<Rightarrow> claim \<times> image_table" where
  "claim_image now name runner wid jid ttl rows =
     (case get_image name runner rows of
        None \<Rightarrow>
          (ClaimBuild, rows @ [\<lparr>im_name = name, im_runner_hd_id = runner, im_workflow_id = wid,
             im_status = ImgBuilding, im_built_by_job = Some jid, im_size_bytes = 0, im_error = None,
             im_leased_until = Some (now + ttl), im_created_at = now, im_ready_at = None\<rparr>])
      | Some r \<Rightarrow>
          if takeable now r
          then (ClaimBuild, update_rows (is_image name runner) (take_image_row now jid ttl) rows)
          else if status_of name runner rows = Some ImgReady then (ClaimReady, rows)
          else (ClaimInProgress, rows))"

definition renew_image_row :: "nat \<Rightarrow> nat \<Rightarrow> image_row \<Rightarrow> image_row" where
  "renew_image_row now ttl r = r\<lparr>im_leased_until := Some (now + ttl)\<rparr>"

definition renew_image :: "nat \<Rightarrow> string \<Rightarrow> string \<Rightarrow> nat \<Rightarrow> image_table \<Rightarrow> image_table" where
  "renew_image now name runner ttl rows =
     update_rows (\<lambda>r. is_image name runner r \<and> im_status r = ImgBuilding) (renew_image_row now ttl) rows"

definition ready_image_row :: "nat \<Rightarrow> nat \<Rightarrow> image_row \<Rightarrow> image_row" where
  "ready_image_row now bytes r =
     r\<lparr>im_status := ImgReady, im_ready_at := Some now, im_leased_until := None, im_error := None,
       im_size_bytes := bytes\<rparr>"

definition mark_ready :: "nat \<Rightarrow> string \<Rightarrow> string \<Rightarrow> nat \<Rightarrow> image_table \<Rightarrow> image_table" where
  "mark_ready now name runner bytes rows =
     update_rows (is_image name runner) (ready_image_row now bytes) rows"

definition failed_image_row :: "string \<Rightarrow> image_row \<Rightarrow> image_row" where
  "failed_image_row e r = r\<lparr>im_status := ImgFailed, im_leased_until := None, im_error := Some e\<rparr>"

definition mark_failed :: "string \<Rightarrow> string \<Rightarrow> string \<Rightarrow> image_table \<Rightarrow> image_table" where
  "mark_failed name runner e rows =
     update_rows (\<lambda>r. is_image name runner r \<and> im_status r \<noteq> ImgReady) (failed_image_row e) rows"

definition forget_image :: "string \<Rightarrow> string \<Rightarrow> image_table \<Rightarrow> image_table" where
  "forget_image name runner rows = filter (\<lambda>r. \<not> is_image name runner r) rows"

definition image_inventory :: "string list \<Rightarrow> image_table \<Rightarrow> image_table" where
  "image_inventory runners rows =
     (if runners = [] then []
      else sort_key im_runner_hd_id (rev (sort_key im_created_at
             (rev (filter (\<lambda>r. im_runner_hd_id r \<in> set runners) rows)))))"

section \<open>Lemmas\<close>

lemmas image_rows = take_image_row_def renew_image_row_def ready_image_row_def failed_image_row_def

interpretation take_i: keyed_update im_key "take_image_row now jid ttl"
  for now jid ttl
  by unfold_locales (simp add: image_rows)

interpretation renew_i: keyed_update im_key "renew_image_row now ttl"
  for now ttl
  by unfold_locales (simp add: image_rows)

interpretation ready_i: keyed_update im_key "ready_image_row now bytes"
  for now bytes
  by unfold_locales (simp add: image_rows)

interpretation failed_i: keyed_update im_key "failed_image_row e"
  for e
  by unfold_locales (simp add: image_rows)

lemma is_image_key: "is_image name runner = (\<lambda>r. im_key r = (name, runner))"
  by (simp add: is_image_def fun_eq_iff)

lemma get_image_SomeD: "get_image name runner rows = Some r \<Longrightarrow> is_image name runner r"
  unfolding get_image_def by (drule find_SomeD) simp

lemma get_image_updates:
  "get_image n h (update_rows P (take_image_row now jid ttl) rows)
   = map_option (\<lambda>r. if P r then take_image_row now jid ttl r else r) (get_image n h rows)"
  "get_image n h (update_rows P (renew_image_row now ttl) rows)
   = map_option (\<lambda>r. if P r then renew_image_row now ttl r else r) (get_image n h rows)"
  "get_image n h (update_rows P (ready_image_row now bytes) rows)
   = map_option (\<lambda>r. if P r then ready_image_row now bytes r else r) (get_image n h rows)"
  "get_image n h (update_rows P (failed_image_row e) rows)
   = map_option (\<lambda>r. if P r then failed_image_row e r else r) (get_image n h rows)"
  unfolding get_image_def is_image_key
  by (rule take_i.find_updated renew_i.find_updated ready_i.find_updated failed_i.find_updated)+

lemma find_append: "find P (xs @ ys) = (case find P xs of None \<Rightarrow> find P ys | Some x \<Rightarrow> Some x)"
  by (induction xs) auto

lemma claim_image_other:
  "(n, h) \<noteq> (name, runner) \<Longrightarrow>
   get_image n h (snd (claim_image now name runner wid jid ttl rows)) = get_image n h rows"
proof (cases "get_image name runner rows")
  case None
  assume "(n, h) \<noteq> (name, runner)"
  with None show ?thesis
    by (auto simp: claim_image_def get_image_def find_append is_image_def split: option.split)
next
  case (Some r)
  assume ne: "(n, h) \<noteq> (name, runner)"
  have "map_option (\<lambda>r. if is_image name runner r then f r else r) (get_image n h rows) = get_image n h rows" for f
    using ne by (cases "get_image n h rows") (auto simp: is_image_def dest!: get_image_SomeD)
  with Some show ?thesis by (auto simp: claim_image_def get_image_updates)
qed

text \<open>The row a successful claim leaves: being built by that job, under its lease.\<close>

lemma claim_image_build:
  assumes "claim_image now name runner wid jid ttl rows = (ClaimBuild, rows')"
  obtains r where "get_image name runner rows' = Some r" "im_status r = ImgBuilding"
    "im_leased_until r = Some (now + ttl)" "im_built_by_job r = Some jid"
proof (cases "get_image name runner rows")
  case None
  with assms that show ?thesis
    by (auto simp: claim_image_def get_image_def find_append is_image_def split: option.splits)
next
  case (Some r)
  with assms that [of "take_image_row now jid ttl r"] get_image_SomeD [OF Some] show ?thesis
    by (auto simp: claim_image_def get_image_updates take_image_row_def split: if_splits)
qed

lemma claim_image_held:
  "get_image name runner rows = Some r \<Longrightarrow> im_status r = ImgBuilding \<Longrightarrow> im_leased_until r = Some t \<Longrightarrow>
   fst (claim_image now name runner wid jid ttl rows) = (if t < now then ClaimBuild else ClaimInProgress)"
  by (auto simp: claim_image_def takeable_def status_of_def)

lemma build_loop_returns:
  "\<exists>p\<in>set polls. deadline \<le> fst p \<Longrightarrow> build_loop name deadline renew polls s \<noteq> None"
  by (induction name deadline renew polls s rule: build_loop.induct)
     (auto simp: Let_def split: result.splits)


section \<open>Properties\<close>

text \<open>C15. One image is built once: a job that is told to build owns the image for the length of its
  lease, everybody else who asks in that time is told to wait, and after the lease the build can
  be taken over. An image is reported ready exactly when it is recorded ready, a waiting or ready
  answer changes nothing, marking a build ready or failed makes it available or up for another
  attempt at once, and claims on other images or hosts are not affected.\<close>

theorem image_single_builder:
  assumes "claim_image now name runner wid jid ttl rows = (res, rows')"
  shows "(res = ClaimReady \<longleftrightarrow> status_of name runner rows = Some ImgReady)
    \<and> (res \<noteq> ClaimBuild \<longrightarrow> rows' = rows)
    \<and> (res = ClaimBuild \<longrightarrow>
        fst (claim_image now' name runner wid' jid' ttl' rows') = (if now + ttl < now' then ClaimBuild else ClaimInProgress)
        \<and> fst (claim_image now' name runner wid' jid' ttl' (mark_ready t name runner bytes rows')) = ClaimReady
        \<and> fst (claim_image now' name runner wid' jid' ttl' (mark_failed name runner e rows')) = ClaimBuild)
    \<and> ((n, h) \<noteq> (name, runner) \<longrightarrow> get_image n h rows' = get_image n h rows)"
proof (intro conjI impI)
  show "res = ClaimReady \<longleftrightarrow> status_of name runner rows = Some ImgReady" "res \<noteq> ClaimBuild \<Longrightarrow> rows' = rows"
    using assms by (auto simp: claim_image_def status_of_def takeable_def split: option.splits if_splits)
  show "get_image n h rows' = get_image n h rows" if "(n, h) \<noteq> (name, runner)"
    using claim_image_other [OF that, of now wid jid ttl rows] assms by simp
  assume "res = ClaimBuild"
  with assms obtain r where r: "get_image name runner rows' = Some r" "im_status r = ImgBuilding"
    "im_leased_until r = Some (now + ttl)"
    using claim_image_build by metis
  then show "fst (claim_image now' name runner wid' jid' ttl' rows')
      = (if now + ttl < now' then ClaimBuild else ClaimInProgress)"
    by (rule claim_image_held)
  from r get_image_SomeD [OF r(1)]
  show "fst (claim_image now' name runner wid' jid' ttl' (mark_ready t name runner bytes rows')) = ClaimReady"
    "fst (claim_image now' name runner wid' jid' ttl' (mark_failed name runner e rows')) = ClaimBuild"
    by (auto simp: claim_image_def mark_ready_def mark_failed_def get_image_updates takeable_def
        status_of_def image_rows)
qed

theorem image_single_builder_witness:
  "fst (claim_image 9 ''ci-img-1'' ''hd'' ''w'' ''r.b'' BUILD_LEASE
     (snd (claim_image 5 ''ci-img-1'' ''hd'' ''w'' ''r.a'' BUILD_LEASE []))) = ClaimInProgress"
proof -
  obtain rows' where c: "claim_image 5 ''ci-img-1'' ''hd'' ''w'' ''r.a'' BUILD_LEASE [] = (ClaimBuild, rows')"
    by (simp add: claim_image_def get_image_def)
  have "fst (claim_image 9 ''ci-img-1'' ''hd'' ''w'' ''r.b'' BUILD_LEASE rows') = ClaimInProgress"
    using image_single_builder [OF c, of 9 "''w''" "''r.b''" BUILD_LEASE] by (simp add: BUILD_LEASE_def)
  then show ?thesis by (simp add: c)
qed

end
