(* ===== verification/Trigger.thy ===== *)
theory Trigger
  imports VmPool
begin

text \<open>
  \<^verbatim>\<open>src/src/trigger.rs\<close>: what a submit posts, the check of its signature, unpacking the submitted tree,
  what changed in it, and the workflow files it holds.

  Outside the program are HMAC, base64, the gzip and tar readers, the \<^verbatim>\<open>git\<close> binary and the file
  system, collected in \<open>trigger_env\<close>. Directories are values of an unspecified type \<open>'t\<close> that only
  these functions look into; the \<open>disk\<close> maps paths to files and to directories. A file-system call
  that fails has no effect, and the \<^verbatim>\<open>git\<close> commands that only read leave the disk alone.
\<close>

section \<open>The request\<close>

record repository_ref =
  rf_id :: string
  rf_name :: string
  rf_url :: string
  rf_default_branch :: "string option"

record git_identity =
  gi_name :: "string option"
  gi_email :: "string option"

record source_archive =
  sa_format :: string
  sa_content_base64 :: string

record submit_request =
  sq_repository :: repository_ref
  sq_ref :: string
  sq_before :: string
  sq_after :: string
  sq_dry_run :: bool
  sq_pusher :: "git_identity option"
  sq_workflow_id :: "string option"
  sq_source :: source_archive

definition submit_branch :: "submit_request \<Rightarrow> string" where
  "submit_branch r = (case strip_prefix ''refs/heads/'' (sq_ref r) of Some b \<Rightarrow> b | None \<Rightarrow> sq_ref r)"

datatype trigger_error =
    MissingSignature
  | MalformedSignature
  | BadSignature
  | UnsupportedFormat string
  | BadArchive string
  | EscapingEntry string
  | ArchiveTooLarge nat nat
  | TriggerIo string string
  | NoWorkflows string
  | NoGit

definition trigger_status :: "trigger_error \<Rightarrow> nat" where
  "trigger_status e =
     (case e of
        MissingSignature \<Rightarrow> 401 | MalformedSignature \<Rightarrow> 401 | BadSignature \<Rightarrow> 401
      | ArchiveTooLarge _ _ \<Rightarrow> 413
      | TriggerIo _ _ \<Rightarrow> 500
      | _ \<Rightarrow> 400)"

section \<open>The signature\<close>

definition hex_val :: "char \<Rightarrow> nat option" where
  "hex_val c =
     (if is_ascii_digit c then Some (of_char c - 48)
      else if CHR ''a'' \<le> c \<and> c \<le> CHR ''f'' then Some (of_char c - 87)
      else if CHR ''A'' \<le> c \<and> c \<le> CHR ''F'' then Some (of_char c - 55)
      else None)"

fun hex_decode :: "string \<Rightarrow> string option" where
  "hex_decode [] = Some []"
| "hex_decode [_] = None"
| "hex_decode (a # b # s) =
     (case (hex_val a, hex_val b, hex_decode s) of
        (Some x, Some y, Some r) \<Rightarrow> Some (char_of (16 * x + y) # r)
      | _ \<Rightarrow> None)"

text \<open>The MAC takes a key and a message. \<^verbatim>\<open>ct_eq\<close> compares without an early exit; its value is equality.\<close>

definition verify_signature ::
    "(string \<Rightarrow> string \<Rightarrow> string) \<Rightarrow> string \<Rightarrow> string \<Rightarrow> string option \<Rightarrow> (trigger_error, unit) result" where
  "verify_signature hmac secret body header =
     (case header of
        None \<Rightarrow> Err MissingSignature
      | Some h \<Rightarrow>
          and_then (ok_or MalformedSignature (strip_prefix ''sha256='' (trim h))) (\<lambda>hex_sig.
          and_then (ok_or MalformedSignature (hex_decode hex_sig)) (\<lambda>provided.
            let expected = hmac secret body in
            if length provided = length expected \<and> provided = expected then Ok () else Err BadSignature)))"

section \<open>The source and where it is kept\<close>

datatype source_format = TarGz | GitBundle

definition source_format_parse :: "string \<Rightarrow> source_format option" where
  "source_format_parse raw =
     (if trim raw = ''tar.gz'' then Some TarGz
      else if trim raw = ''git-bundle'' then Some GitBundle else None)"

fun source_format_str :: "source_format \<Rightarrow> string" where
  "source_format_str TarGz = ''tar.gz''"
| "source_format_str GitBundle = ''git-bundle''"

fun source_extension :: "source_format \<Rightarrow> string" where
  "source_extension TarGz = ''tar.gz''"
| "source_extension GitBundle = ''bundle''"

record workspace =
  wk_root :: string
  wk_tarball :: string
  wk_bundle :: string

definition for_run :: "string \<Rightarrow> string \<Rightarrow> workspace" where
  "for_run workspace_dir run_id =
     \<lparr>wk_root = path_join workspace_dir run_id,
      wk_tarball = path_join workspace_dir (run_id @ ''.'' @ source_extension TarGz),
      wk_bundle = path_join workspace_dir (run_id @ ''.'' @ source_extension GitBundle)\<rparr>"

fun path_for :: "workspace \<Rightarrow> source_format \<Rightarrow> string" where
  "path_for ws TarGz = wk_tarball ws"
| "path_for ws GitBundle = wk_bundle ws"

fun other_format :: "source_format \<Rightarrow> source_format" where
  "other_format TarGz = GitBundle"
| "other_format GitBundle = TarGz"

record 't disk =
  dk_files :: "string \<rightharpoonup> string"
  dk_dirs :: "string \<rightharpoonup> 't"

definition on_disk :: "'t disk \<Rightarrow> string \<Rightarrow> bool" where
  "on_disk d p \<longleftrightarrow> dk_files d p \<noteq> None \<or> dk_dirs d p \<noteq> None"

definition stored_source :: "workspace \<Rightarrow> 't disk \<Rightarrow> (source_format \<times> string) option" where
  "stored_source ws d =
     (case find (\<lambda>f. on_disk d (path_for ws f)) [GitBundle, TarGz] of
        Some f \<Rightarrow> Some (f, path_for ws f) | None \<Rightarrow> None)"

section \<open>Outside\<close>

datatype fs_op = FsRemoveDir string | FsCreateDir string | FsWrite string | FsRemoveFile string | FsRead string

datatype git_fail = GitNotFound | GitNotRun string

record git_output =
  go_success :: bool
  go_stdout :: string
  go_stderr :: string

record tar_entry =
  en_path :: "(string, string) result"
  en_link :: "(string, string option) result"
  en_body :: string

record dir_entry =
  de_name :: string
  de_is_file :: bool
  de_text :: "(string, string) result"

record 't trigger_env =
  tr_unbase64 :: "string \<Rightarrow> (string, string) result"
  tr_entries :: "string \<Rightarrow> (string, (string, tar_entry) result list) result"
  tr_empty_dir :: 't
  tr_unpack :: "tar_entry \<Rightarrow> 't \<Rightarrow> (string, 't) result"
  tr_git :: "string list \<Rightarrow> 't disk \<Rightarrow> (git_fail, git_output) result \<times> 't disk"
  tr_show_git :: "git_fail \<Rightarrow> string"
  tr_io :: "fs_op \<Rightarrow> (string, unit) result"
  tr_list :: "'t \<Rightarrow> string \<Rightarrow> dir_entry list option"

section \<open>Unpacking\<close>

text \<open>\<^verbatim>\<open>Path::components\<close> on Unix: empty parts are skipped, and so is a \<^verbatim>\<open>.\<close> that is not the first part.\<close>

datatype path_part = RootDir | CurDir | ParentDir | NormalPart string

definition path_parts :: "string \<Rightarrow> path_part list" where
  "path_parts p =
     (let named = map (\<lambda>s. if s = ''..'' then ParentDir else NormalPart s)
                      (filter (\<lambda>s. s \<noteq> [] \<and> s \<noteq> ''.'') (split_on (CHR ''/'') p)) in
      if prefix ''/'' p then RootDir # named
      else if hd (split_on (CHR ''/'') p) = ''.'' then CurDir # named
      else named)"

definition check_contained :: "string \<Rightarrow> (trigger_error, unit) result" where
  "check_contained path =
     check_all (\<lambda>c. case c of NormalPart _ \<Rightarrow> Ok () | CurDir \<Rightarrow> Ok ()
                      | ParentDir \<Rightarrow> Err (EscapingEntry path) | RootDir \<Rightarrow> Err (EscapingEntry path))
       (path_parts path)"

fun extract_entries ::
    "'t trigger_env \<Rightarrow> (string, tar_entry) result list \<Rightarrow> 't \<Rightarrow> (trigger_error, unit) result \<times> 't" where
  "extract_entries E [] t = (Ok (), t)"
| "extract_entries E (Err e # es) t = (Err (BadArchive e), t)"
| "extract_entries E (Ok en # es) t =
     (case en_path en of
        Err e \<Rightarrow> (Err (BadArchive e), t)
      | Ok p \<Rightarrow>
          (case and_then (check_contained p)
                  (\<lambda>_. case en_link en of Ok (Some l) \<Rightarrow> check_contained l | _ \<Rightarrow> Ok ()) of
             Err e \<Rightarrow> (Err e, t)
           | Ok _ \<Rightarrow>
               (case tr_unpack E en t of
                  Err e \<Rightarrow> (Err (BadArchive (''unpacking '' @ p @ '': '' @ e)), t)
                | Ok t' \<Rightarrow> extract_entries E es t')))"

definition extract_tar :: "'t trigger_env \<Rightarrow> string \<Rightarrow> string \<Rightarrow> 't disk \<Rightarrow> (trigger_error, unit) result \<times> 't disk" where
  "extract_tar E gz root d =
     (case tr_entries E gz of
        Err e \<Rightarrow> (Err (BadArchive e), d)
      | Ok es \<Rightarrow>
          (case extract_entries E es (case dk_dirs d root of Some t \<Rightarrow> t | None \<Rightarrow> tr_empty_dir E) of
             (r, t') \<Rightarrow> (r, d\<lparr>dk_dirs := (dk_dirs d)(root \<mapsto> t')\<rparr>)))"

definition run_git ::
    "'t trigger_env \<Rightarrow> string list \<Rightarrow> 't disk \<Rightarrow> (trigger_error, git_output) result \<times> 't disk" where
  "run_git E args d =
     (case tr_git E args d of
        (r, d') \<Rightarrow>
          (map_err (\<lambda>e. case e of GitNotFound \<Rightarrow> NoGit | GitNotRun m \<Rightarrow> BadArchive (''running git: '' @ m)) r, d'))"

definition clone_bundle ::
    "'t trigger_env \<Rightarrow> string \<Rightarrow> string \<Rightarrow> 't disk \<Rightarrow> (trigger_error, unit) result \<times> 't disk" where
  "clone_bundle E bundle root d =
     (case run_git E [''bundle'', ''verify'', bundle] d of
        (Err e, d1) \<Rightarrow> (Err e, d1)
      | (Ok verify, d1) \<Rightarrow>
          if \<not> go_success verify
          then (Err (BadArchive (''the git bundle is not usable on its own: '' @ trim (go_stderr verify))), d1)
          else
            (case run_git E [''bundle'', ''list-heads'', bundle] d1 of
               (Err e, d2) \<Rightarrow> (Err e, d2)
             | (Ok heads, d2) \<Rightarrow>
                 if list_all is_ascii_whitespace (go_stdout heads)
                 then (Err (BadArchive (''the git bundle contains no refs, so there is nothing to check out. It passed `git bundle verify`, which reports a ref-less bundle as complete ''
                       @ DASH @ '' check that the client packed a branch and not a bare commit.'')), d2)
                 else
                   (case run_git E [''-c'', ''core.hooksPath=/nonexistent'', ''clone'', ''--quiet'', bundle, root] d2 of
                      (Err e, d3) \<Rightarrow> (Err e, d3)
                    | (Ok out, d3) \<Rightarrow>
                        if \<not> go_success out
                        then (Err (BadArchive (''cloning the submitted bundle failed: '' @ trim (go_stderr out))), d3)
                        else (Ok (), d3))))"

text \<open>A fresh directory for the tree.\<close>

definition reset_root :: "'t trigger_env \<Rightarrow> string \<Rightarrow> 't disk \<Rightarrow> (trigger_error, unit) result \<times> 't disk" where
  "reset_root E root d =
     (case (if on_disk d root then map_err (TriggerIo root) (tr_io E (FsRemoveDir root)) else Ok ()) of
        Err e \<Rightarrow> (Err e, d)
      | Ok _ \<Rightarrow>
          (let d1 = d\<lparr>dk_dirs := (dk_dirs d)(root := None)\<rparr> in
           (case tr_io E (FsCreateDir root) of
              Err reason \<Rightarrow> (Err (TriggerIo root reason), d1)
            | Ok _ \<Rightarrow> (Ok (), d1\<lparr>dk_dirs := (dk_dirs d1)(root \<mapsto> tr_empty_dir E)\<rparr>))))"

definition remove_if_possible :: "'t trigger_env \<Rightarrow> string \<Rightarrow> 't disk \<Rightarrow> 't disk" where
  "remove_if_possible E p d =
     (case tr_io E (FsRemoveFile p) of
        Ok _ \<Rightarrow> d\<lparr>dk_files := (dk_files d)(p := None)\<rparr> | Err _ \<Rightarrow> d)"

definition decode_source ::
    "'t trigger_env \<Rightarrow> source_archive \<Rightarrow> nat \<Rightarrow> (trigger_error, source_format \<times> string) result" where
  "decode_source E src max_bytes =
     and_then (ok_or (UnsupportedFormat (sa_format src)) (source_format_parse (sa_format src))) (\<lambda>f.
     and_then (map_err (\<lambda>e. BadArchive (''not valid base64: '' @ e)) (tr_unbase64 E (sa_content_base64 src)))
       (\<lambda>bytes. if max_bytes < length bytes then Err (ArchiveTooLarge (length bytes) max_bytes)
                else Ok (f, bytes)))"

definition unpack_source ::
    "'t trigger_env \<Rightarrow> source_format \<Rightarrow> string \<Rightarrow> workspace \<Rightarrow> 't disk \<Rightarrow> (trigger_error, unit) result \<times> 't disk" where
  "unpack_source E f bytes ws d =
     (case f of TarGz \<Rightarrow> extract_tar E bytes (wk_root ws) d
              | GitBundle \<Rightarrow> clone_bundle E (path_for ws f) (wk_root ws) d)"

definition materialize ::
    "'t trigger_env \<Rightarrow> source_archive \<Rightarrow> workspace \<Rightarrow> nat \<Rightarrow> 't disk \<Rightarrow> (trigger_error, nat) result \<times> 't disk" where
  "materialize E src ws max_bytes d =
     (case decode_source E src max_bytes of
        Err e \<Rightarrow> (Err e, d)
      | Ok (f, bytes) \<Rightarrow>
          (case reset_root E (wk_root ws) d of
             (Err e, d1) \<Rightarrow> (Err e, d1)
           | (Ok _, d1) \<Rightarrow>
               (case tr_io E (FsWrite (path_for ws f)) of
                  Err reason \<Rightarrow> (Err (TriggerIo (path_for ws f) reason), d1)
                | Ok _ \<Rightarrow>
                    (let d2 = d1\<lparr>dk_files := (dk_files d1)(path_for ws f \<mapsto> bytes)\<rparr>;
                         d3 = remove_if_possible E (path_for ws (other_format f)) d2 in
                     (case unpack_source E f bytes ws d3 of
                        (Err e, d4) \<Rightarrow> (Err e, d4)
                      | (Ok _, d4) \<Rightarrow> (Ok (length bytes), d4))))))"

section \<open>What changed\<close>

definition changed_paths :: "'t trigger_env \<Rightarrow> workspace \<Rightarrow> string \<Rightarrow> 't disk \<Rightarrow> changes" where
  "changed_paths E ws before d =
     (case stored_source ws d of
        None \<Rightarrow> Unknown ''this run's submitted source is no longer on disk''
      | Some (f, _) \<Rightarrow>
          if f \<noteq> GitBundle then
            Unknown ''the submit is a `--archive` tarball, which carries no history to diff against. Submit a git bundle (the default) for path filters to have an answer''
          else if trim before = [] then
            Unknown ''the submitted commit has no parent, so there is nothing to diff against''
          else
            (case fst (tr_git E [''-C'', wk_root ws, ''rev-parse'', ''--verify'', ''--quiet'', trim before @ ''^{commit}''] d) of
               Err e \<Rightarrow> Unknown (''could not run git to read the diff: '' @ tr_show_git E e)
             | Ok out \<Rightarrow>
                 if \<not> go_success out then
                   Unknown (''commit '' @ trim before @ '' is not in the submitted bundle, so there is nothing to diff against'')
                 else
                   (case fst (tr_git E [''-C'', wk_root ws, ''diff'', ''--name-only'', ''--no-renames'', ''-z'', trim before, ''HEAD''] d) of
                      Err e \<Rightarrow> Unknown (''could not run git to read the diff: '' @ tr_show_git E e)
                    | Ok out \<Rightarrow>
                        if \<not> go_success out then
                          Unknown (''git could not diff '' @ trim before @ ''..HEAD: '' @ trim (go_stderr out))
                        else known (filter (\<lambda>p. p \<noteq> []) (split_on (CHR 0x00) (go_stdout out))))))"

section \<open>Workflow files\<close>

definition matches_pattern :: "string \<Rightarrow> string \<Rightarrow> bool" where
  "matches_pattern name pattern =
     (case split_once (CHR ''*'') pattern of
        None \<Rightarrow> name = pattern
      | Some (pre, suf) \<Rightarrow>
          length pre + length suf \<le> length name \<and> prefix pre name \<and> suffix suf name)"

definition split_pattern :: "string \<Rightarrow> string \<times> string" where
  "split_pattern pattern =
     (case rsplit_once (CHR ''/'') pattern of Some (dir, f) \<Rightarrow> (dir, f) | None \<Rightarrow> ([], pattern))"

definition rel_name :: "string \<Rightarrow> string \<Rightarrow> string" where
  "rel_name dir name = (if dir = [] then name else dir @ ''/'' @ name)"

fun read_workflows ::
    "string \<Rightarrow> string \<Rightarrow> string \<Rightarrow> dir_entry list \<Rightarrow> (trigger_error, (string \<times> string) list) result" where
  "read_workflows root dir pat [] = Ok []"
| "read_workflows root dir pat (e # es) =
     (if \<not> matches_pattern (de_name e) pat \<or> \<not> de_is_file e then read_workflows root dir pat es
      else and_then (map_err (TriggerIo (path_join (path_join root dir) (de_name e))) (de_text e)) (\<lambda>body.
           and_then (read_workflows root dir pat es) (\<lambda>rest.
             Ok ((rel_name dir (de_name e), body) # rest))))"

definition find_workflows ::
    "'t trigger_env \<Rightarrow> string \<Rightarrow> string \<Rightarrow> 't disk \<Rightarrow> (trigger_error, (string \<times> string) list) result" where
  "find_workflows E root pattern d =
     (let pat = trim_start_matches ''./'' (trim pattern); (dir, file_pattern) = split_pattern pat in
      and_then (check_contained pat) (\<lambda>_.
        (case Option.bind (dk_dirs d root) (\<lambda>t. tr_list E t dir) of
           None \<Rightarrow> Ok []
         | Some es \<Rightarrow>
             and_then (read_workflows root dir file_pattern es) (\<lambda>found. Ok (sort_key fst found)))))"

section \<open>Hexadecimal text\<close>

definition hex_digit :: "nat \<Rightarrow> char" where
  "hex_digit d = char_of (if d < 10 then 48 + d else 87 + d)"

lemma hex_val_digit: "d < 16 \<Longrightarrow> hex_val (hex_digit d) = Some d"
proof -
  have "\<forall>d \<in> set [0,1,2,3,4,5,6,7,8,9,10,11,12,13,14,15]. hex_val (hex_digit d) = Some d"
    by code_simp
  moreover assume "d < 16"
  then have "d \<in> set [0,1,2,3,4,5,6,7,8,9,10,11,12,13,14,15]" by (simp, arith)
  ultimately show ?thesis by blast
qed

lemma hex_padded_byte:
  assumes "n < 256"
  shows "hex_padded 2 n = [hex_digit (n div 16), hex_digit (n mod 16)]"
proof -
  have "hex_digit 0 = CHR ''0''" by code_simp
  moreover have "n div 16 < 16" using assms by simp
  ultimately show ?thesis
    by (simp add: hex_padded_def pad_left_def digits_in.simps [of 16 n] digits_in.simps [of 16 "n div 16"]
        hex_digit_def Let_def)
qed

lemma hex_decode_encode: "hex_decode (hex_encode s) = Some s"
proof (induction s)
  case (Cons c s)
  have c: "(of_char c :: nat) < 256" by (rule nat_of_char_less_256)
  have "(of_char c :: nat) div 16 < 16" by (intro less_mult_imp_div_less) simp
  moreover have "16 * (of_char c div 16 :: nat) + of_char c mod 16 = of_char c" by simp
  ultimately show ?case
    using Cons hex_padded_byte [OF c] by (simp add: hex_encode_def hex_val_digit)
qed (simp add: hex_encode_def)

lemma hex_encode_no_ws: "c \<in> set (hex_encode s) \<Longrightarrow> \<not> is_whitespace c"
proof -
  have dig: "\<not> is_whitespace (hex_digit d)" if "d < 16" for d
    using hex_val_digit [OF that] by (auto simp: is_whitespace_def hex_val_def is_ascii_digit_def)
  assume "c \<in> set (hex_encode s)"
  then obtain b where b: "c \<in> set (hex_padded 2 (of_char (b :: char)))" by (auto simp: hex_encode_def)
  have "(of_char b :: nat) div 16 < 16" by (intro less_mult_imp_div_less) simp
  with b dig show ?thesis by (auto simp: hex_padded_byte)
qed

section \<open>Paths\<close>

lemma path_parts_ParentDir: "ParentDir \<in> set (path_parts p) \<longleftrightarrow> ''..'' \<in> set (split_on (CHR ''/'') p)"
  by (auto simp: path_parts_def Let_def)

lemma path_parts_RootDir: "RootDir \<in> set (path_parts p) \<longleftrightarrow> prefix ''/'' p"
  by (auto simp: path_parts_def Let_def)

lemma check_all_const:
  "check_all (\<lambda>x. if P x then Err e else Ok ()) xs = (if list_ex P xs then Err e else Ok ())"
  by (induction xs) auto

text \<open>The check on archive entries is the one the VM block makes of its files.\<close>

lemma check_contained_eq: "check_contained p = (if escapes_tree p then Err (EscapingEntry p) else Ok ())"
proof -
  have "(case c of NormalPart _ \<Rightarrow> Ok () | CurDir \<Rightarrow> Ok () | ParentDir \<Rightarrow> Err e | RootDir \<Rightarrow> Err e)
      = (if c = ParentDir \<or> c = RootDir then Err e else Ok ())" for c and e :: trigger_error
    by (cases c) auto
  then have "check_contained p = (if list_ex (\<lambda>c. c = ParentDir \<or> c = RootDir) (path_parts p)
      then Err (EscapingEntry p) else Ok ())"
    by (simp add: check_contained_def check_all_const)
  also have "list_ex (\<lambda>c. c = ParentDir \<or> c = RootDir) (path_parts p) \<longleftrightarrow> escapes_tree p"
    using path_parts_ParentDir [of p] path_parts_RootDir [of p] by (auto simp: list_ex_iff escapes_tree_def)
  finally show ?thesis .
qed

lemma check_contained_Ok [simp]: "check_contained p = Ok () \<longleftrightarrow> \<not> escapes_tree p"
  by (simp add: check_contained_eq)

text \<open>What an entry may name.\<close>

definition entry_contained :: "(string, tar_entry) result \<Rightarrow> bool" where
  "entry_contained r =
     (case r of
        Err _ \<Rightarrow> False
      | Ok en \<Rightarrow>
          (case en_path en of Err _ \<Rightarrow> False | Ok p \<Rightarrow> \<not> escapes_tree p)
          \<and> (case en_link en of Ok (Some l) \<Rightarrow> \<not> escapes_tree l | _ \<Rightarrow> True))"

lemma extract_entries_Ok: "fst (extract_entries E es t) = Ok () \<Longrightarrow> list_all entry_contained es"
  by (induction E es t rule: extract_entries.induct)
     (auto simp: entry_contained_def check_contained_eq split: result.splits if_splits option.splits)

lemma extract_entries_prefix:
  "snd (extract_entries E es t) = snd (extract_entries E (takeWhile entry_contained es) t)"
  by (induction E es t rule: extract_entries.induct)
     (auto simp: entry_contained_def check_contained_eq split: result.splits option.splits)

lemma map_err_Err: "map_err f r = Err e \<longleftrightarrow> (\<exists>e'. r = Err e' \<and> e = f e')"
  by (cases r) auto

section \<open>The workspace\<close>

lemma path_join_inj: "path_join a b = path_join a c \<longleftrightarrow> b = c"
  by (simp add: path_join_def)

lemma path_for_distinct: "path_for (for_run w i) f = path_for (for_run w i) g \<longleftrightarrow> f = g"
  by (cases f; cases g) (auto simp: for_run_def path_join_inj)

lemma path_for_root: "path_for (for_run w i) f \<noteq> wk_root (for_run w i)"
  by (cases f) (auto simp: for_run_def path_join_inj)

lemma other_format_neq: "g \<noteq> f \<longleftrightarrow> g = other_format f"
  by (cases f; cases g) auto

lemma stored_source_unique:
  assumes "on_disk d (path_for ws f)" "\<not> on_disk d (path_for ws (other_format f))"
  shows "stored_source ws d = Some (f, path_for ws f)"
  using assms by (cases f) (auto simp: stored_source_def)

lemma reset_root_files: "reset_root E root d = (r, d') \<Longrightarrow> dk_files d' = dk_files d"
  by (auto simp: reset_root_def Let_def split: result.splits)

lemma reset_root_dirs: "reset_root E root d = (r, d') \<Longrightarrow> p \<noteq> root \<Longrightarrow> dk_dirs d' p = dk_dirs d p"
  by (auto simp: reset_root_def Let_def split: result.splits)

lemma extract_tar_disk:
  "extract_tar E gz root d = (r, d') \<Longrightarrow> dk_files d' = dk_files d \<and> (\<forall>p. p \<noteq> root \<longrightarrow> dk_dirs d' p = dk_dirs d p)"
  by (auto simp: extract_tar_def split: result.splits prod.splits)

text \<open>\<^verbatim>\<open>git\<close> as it is run here reads the bundle and writes inside the directory it clones into.\<close>

definition git_local :: "'t trigger_env \<Rightarrow> string \<Rightarrow> bool" where
  "git_local E root \<longleftrightarrow>
     (\<forall>args d. dk_files (snd (tr_git E args d)) = dk_files d
        \<and> (\<forall>p. p \<noteq> root \<longrightarrow> dk_dirs (snd (tr_git E args d)) p = dk_dirs d p))"

lemma run_git_local:
  assumes "git_local E root" "run_git E args d = (r, d')"
  shows "dk_files d' = dk_files d \<and> (\<forall>p. p \<noteq> root \<longrightarrow> dk_dirs d' p = dk_dirs d p)"
proof -
  have "d' = snd (tr_git E args d)" using assms(2) by (auto simp: run_git_def split: prod.splits)
  with assms(1) show ?thesis by (simp add: git_local_def)
qed

lemma clone_bundle_disk:
  assumes "git_local E root" "clone_bundle E bundle root d = (r, d')"
  shows "dk_files d' = dk_files d \<and> (\<forall>p. p \<noteq> root \<longrightarrow> dk_dirs d' p = dk_dirs d p)"
  using assms(2) by (auto simp: clone_bundle_def split: prod.splits result.splits if_splits
      dest!: run_git_local [OF assms(1)])

lemma unpack_source_disk:
  assumes "git_local E (wk_root ws)" "unpack_source E f bytes ws d = (r, d')"
  shows "dk_files d' = dk_files d \<and> (\<forall>p. p \<noteq> wk_root ws \<longrightarrow> dk_dirs d' p = dk_dirs d p)"
proof (cases f)
  case TarGz
  with assms(2) have "extract_tar E bytes (wk_root ws) d = (r, d')" by (simp add: unpack_source_def)
  then show ?thesis by (rule extract_tar_disk)
next
  case GitBundle
  with assms(2) show ?thesis by (intro clone_bundle_disk [OF assms(1)]) (simp add: unpack_source_def)
qed

lemma materialize_effect:
  assumes "git_local E (wk_root (for_run w i))" "materialize E src (for_run w i) limit d = (r, d')"
    and "\<And>f. tr_io E (FsRemoveFile (path_for (for_run w i) f)) = Ok () \<or> dk_files d (path_for (for_run w i) f) = None"
    and "\<And>f. dk_dirs d (path_for (for_run w i) f) = None"
  shows "case decode_source E src limit of
      Err e \<Rightarrow> r = Err e \<and> d' = d
    | Ok (f, bytes) \<Rightarrow>
        source_format_parse (sa_format src) = Some f \<and> tr_unbase64 E (sa_content_base64 src) = Ok bytes
        \<and> length bytes \<le> limit
        \<and> (is_ok r \<longrightarrow> r = Ok (length bytes) \<and> stored_source (for_run w i) d' = Some (f, path_for (for_run w i) f)
             \<and> dk_files d' (path_for (for_run w i) f) = Some bytes)"
proof (cases "decode_source E src limit")
  case (Err e)
  with assms(2) show ?thesis by (simp add: materialize_def)
next
  case (Ok fb)
  obtain f bytes where fb: "fb = (f, bytes)" by fastforce
  let ?ws = "for_run w i"
  have dec: "source_format_parse (sa_format src) = Some f \<and> tr_unbase64 E (sa_content_base64 src) = Ok bytes
      \<and> length bytes \<le> limit"
    using Ok fb by (auto simp: decode_source_def ok_or_def split: option.splits if_splits)
  moreover have "r = Ok (length bytes) \<and> stored_source ?ws d' = Some (f, path_for ?ws f)
      \<and> dk_files d' (path_for ?ws f) = Some bytes" if "is_ok r"
  proof -
    from that assms(2) Ok fb obtain d1 where d1: "reset_root E (wk_root ?ws) d = (Ok (), d1)"
      and up: "unpack_source E f bytes ?ws (remove_if_possible E (path_for ?ws (other_format f))
         (d1\<lparr>dk_files := (dk_files d1)(path_for ?ws f \<mapsto> bytes)\<rparr>)) = (Ok (), d')" and r: "r = Ok (length bytes)"
      by (auto simp: materialize_def Let_def split: prod.splits result.splits)
    let ?d3 = "remove_if_possible E (path_for ?ws (other_format f)) (d1\<lparr>dk_files := (dk_files d1)(path_for ?ws f \<mapsto> bytes)\<rparr>)"
    have neq: "path_for ?ws (other_format f) \<noteq> path_for ?ws f" by (cases f) (auto simp: for_run_def path_join_inj)
    have "dk_files ?d3 (path_for ?ws f) = Some bytes" "dk_files ?d3 (path_for ?ws (other_format f)) = None"
      "dk_dirs ?d3 = dk_dirs d1"
      using neq assms(3) [of "other_format f"] reset_root_files [OF d1]
      by (auto simp: remove_if_possible_def split: result.splits)
    moreover have "dk_dirs d1 (path_for ?ws (other_format f)) = None"
      using reset_root_dirs [OF d1 path_for_root] assms(4) by simp
    moreover have "dk_files d' = dk_files ?d3 \<and> (\<forall>p. p \<noteq> wk_root ?ws \<longrightarrow> dk_dirs d' p = dk_dirs ?d3 p)"
      using unpack_source_disk [OF assms(1) up] .
    ultimately show ?thesis using r path_for_root
      by (auto intro!: stored_source_unique simp: on_disk_def)
  qed
  ultimately show ?thesis using Ok fb by simp
qed

section \<open>Properties\<close>

text \<open>A signature is accepted exactly when it is the MAC of the received body under the shared secret,
  written as \<^verbatim>\<open>sha256=\<close> and hexadecimal digits of either case; what the client computes is accepted,
  and every refusal has the same status, so that it does not say how far a forgery got.\<close>

theorem verify_signature_exact:
  "(verify_signature hmac secret body header = Ok () \<longleftrightarrow>
      (\<exists>h x. header = Some h \<and> trim h = ''sha256='' @ x \<and> hex_decode x = Some (hmac secret body)))
   \<and> verify_signature hmac secret body (Some (''sha256='' @ hex_encode (hmac secret body))) = Ok ()
   \<and> (case verify_signature hmac secret body header of Ok _ \<Rightarrow> True | Err e \<Rightarrow> trigger_status e = 401)"
proof (intro conjI)
  have "verify_signature hmac secret body header = Ok () \<longleftrightarrow> (\<exists>h x. header = Some h
      \<and> strip_prefix ''sha256='' (trim h) = Some x \<and> hex_decode x = Some (hmac secret body))" for header
    by (auto simp: verify_signature_def ok_or_def Let_def split: option.splits)
  then show exact: "verify_signature hmac secret body header = Ok () \<longleftrightarrow>
      (\<exists>h x. header = Some h \<and> trim h = ''sha256='' @ x \<and> hex_decode x = Some (hmac secret body))" for header
    unfolding strip_prefix_Some .
  have "trim (''sha256='' @ hex_encode (hmac secret body)) = ''sha256='' @ hex_encode (hmac secret body)"
    using hex_encode_no_ws by (intro trim_no_ws) (auto simp: is_whitespace_def)
  then show "verify_signature hmac secret body (Some (''sha256='' @ hex_encode (hmac secret body))) = Ok ()"
    unfolding exact using hex_decode_encode by blast
  show "case verify_signature hmac secret body header of Ok _ \<Rightarrow> True | Err e \<Rightarrow> trigger_status e = 401"
    by (auto simp: verify_signature_def ok_or_def Let_def trigger_status_def split: option.splits result.splits)
qed

text \<open>C19. A submitted archive cannot write outside its directory: unpacking succeeds only if no entry and no
  link of one is absolute or climbs with \<^verbatim>\<open>..\<close>, and otherwise nothing from the first such entry on is
  written. No file and no other directory is touched in either case.\<close>

theorem archive_contained:
  assumes "extract_tar E gz root d = (r, d')" "tr_entries E gz = Ok es" "dk_dirs d root = Some t"
  shows "(r = Ok () \<longrightarrow> list_all entry_contained es)
    \<and> dk_dirs d' root = Some (snd (extract_entries E (takeWhile entry_contained es) t))
    \<and> dk_files d' = dk_files d \<and> (\<forall>p. p \<noteq> root \<longrightarrow> dk_dirs d' p = dk_dirs d p)"
proof -
  have d': "r = fst (extract_entries E es t)" "dk_dirs d' root = Some (snd (extract_entries E es t))"
    using assms by (auto simp: extract_tar_def split: prod.splits)
  show ?thesis
    using extract_entries_Ok [of E es t] extract_tar_disk [OF assms(1)] d'
    by (auto simp: extract_entries_prefix [of E es t])
qed

text \<open>A disk and tools for examples: a directory is the list of the paths unpacked into it.\<close>

definition sample_trigger :: "string list trigger_env" where
  "sample_trigger = \<lparr>tr_unbase64 = Ok,
     tr_entries = (\<lambda>gz. Ok [Ok \<lparr>en_path = Ok gz, en_link = Ok None, en_body = []\<rparr>,
        Ok \<lparr>en_path = Ok ''../x'', en_link = Ok None, en_body = []\<rparr>]),
     tr_empty_dir = [], tr_unpack = (\<lambda>en t. and_then (en_path en) (\<lambda>p. Ok (t @ [p]))),
     tr_git = (\<lambda>args d. (Ok \<lparr>go_success = True, go_stdout = ''api/a'' @ [CHR 0x00] @ ''b'' @ [CHR 0x00], go_stderr = []\<rparr>, d)),
     tr_show_git = (\<lambda>_. []), tr_io = (\<lambda>_. Ok ()),
     tr_list = (\<lambda>t dir. Some (map (\<lambda>p. \<lparr>de_name = p, de_is_file = True, de_text = Ok ''jobs:''\<rparr>) t))\<rparr>"

definition sample_disk :: "string list disk" where
  "sample_disk = \<lparr>dk_files = Map.empty, dk_dirs = [''w/r'' \<mapsto> []]\<rparr>"

theorem archive_contained_witness:
  "dk_dirs (snd (extract_tar sample_trigger ''a/b'' ''w/r'' sample_disk)) ''w/r'' = Some [''a/b'']"
proof -
  obtain r d' where x: "extract_tar sample_trigger ''a/b'' ''w/r'' sample_disk = (r, d')" by fastforce
  have ctx: "escapes_tree ''../x''" "\<not> escapes_tree ''a/b''" by code_simp+
  have "tr_entries sample_trigger ''a/b'' = Ok [Ok \<lparr>en_path = Ok ''a/b'', en_link = Ok None, en_body = []\<rparr>,
        Ok \<lparr>en_path = Ok ''../x'', en_link = Ok None, en_body = []\<rparr>]" "dk_dirs sample_disk ''w/r'' = Some []"
    by (simp_all add: sample_trigger_def sample_disk_def)
  from archive_contained [OF x this] show ?thesis
    unfolding x using ctx by (simp add: entry_contained_def check_contained_eq sample_trigger_def)
qed

text \<open>C20. What was submitted is what is kept: after a successful submit the run's workspace holds the
  submitted bytes, within the size limit, and the source that a later delivery finds is of the
  submitted format even when a source of the other format was there before. A refused format,
  undecodable text and an archive over the limit change nothing on disk.\<close>

theorem materialize_stored:
  assumes "git_local E (wk_root (for_run w i))" "materialize E src (for_run w i) limit d = (r, d')"
    and "\<And>f. tr_io E (FsRemoveFile (path_for (for_run w i) f)) = Ok () \<or> dk_files d (path_for (for_run w i) f) = None"
    and "\<And>f. dk_dirs d (path_for (for_run w i) f) = None"
  shows "case decode_source E src limit of
      Err e \<Rightarrow> r = Err e \<and> d' = d
    | Ok (f, bytes) \<Rightarrow>
        source_format_parse (sa_format src) = Some f \<and> tr_unbase64 E (sa_content_base64 src) = Ok bytes
        \<and> length bytes \<le> limit
        \<and> (is_ok r \<longrightarrow> r = Ok (length bytes) \<and> stored_source (for_run w i) d' = Some (f, path_for (for_run w i) f)
             \<and> dk_files d' (path_for (for_run w i) f) = Some bytes)"
  using assms by (rule materialize_effect)

theorem materialize_stored_witness:
  "stored_source (for_run ''w'' ''r'')
     (snd (materialize sample_trigger \<lparr>sa_format = '' git-bundle'', sa_content_base64 = ''PACK''\<rparr> (for_run ''w'' ''r'') 10
        (sample_disk\<lparr>dk_files := [''w/r.tar.gz'' \<mapsto> ''old'']\<rparr>))) = Some (GitBundle, ''w/r.bundle'')"
proof -
  let ?src = "\<lparr>sa_format = '' git-bundle'', sa_content_base64 = ''PACK''\<rparr>"
  let ?d = "sample_disk\<lparr>dk_files := [''w/r.tar.gz'' \<mapsto> ''old'']\<rparr>"
  obtain r d' where m: "materialize sample_trigger ?src (for_run ''w'' ''r'') 10 ?d = (r, d')" by fastforce
  have "source_format_parse '' git-bundle'' = Some GitBundle" by code_simp
  then have dec: "decode_source sample_trigger ?src 10 = Ok (GitBundle, ''PACK'')"
    by (simp add: decode_source_def ok_or_def sample_trigger_def)
  have "is_ok (fst (materialize sample_trigger ?src (for_run ''w'' ''r'') 10 ?d))"
    unfolding materialize_def dec
    by (simp add: reset_root_def unpack_source_def clone_bundle_def run_git_def sample_trigger_def Let_def
        is_ascii_whitespace_def split: if_splits)
  with m have "is_ok r" by simp
  moreover have "git_local sample_trigger (wk_root (for_run ''w'' ''r''))"
    by (simp add: git_local_def sample_trigger_def)
  moreover have "tr_io sample_trigger x = Ok ()" for x by (simp add: sample_trigger_def)
  moreover have p: "path_for (for_run ''w'' ''r'') GitBundle = ''w/r.bundle''" by code_simp
  moreover have "path_for (for_run ''w'' ''r'') TarGz = ''w/r.tar.gz''" by code_simp
  then have "dk_dirs ?d (path_for (for_run ''w'' ''r'') f) = None" for f
    using p by (cases f) (simp_all add: sample_disk_def)
  ultimately show ?thesis
    using materialize_stored [of sample_trigger "''w''" "''r''", OF _ m] dec by (simp add: m)
qed

section \<open>Changes and workflow files\<close>

lemma split_on_terminated:
  "list_all (\<lambda>p. c \<notin> set p) ps \<Longrightarrow> split_on c (concat (map (\<lambda>p. p @ [c]) ps)) = ps @ [[]]"
  by (induction ps) (simp_all add: split_on_append)

text \<open>The changed paths of a submit are known only when they were read: \<^verbatim>\<open>changed_paths\<close> answers with a
  list only for a stored bundle with a parent that the bundle contains and a diff that succeeded, and
  then with exactly the paths of that diff, not more than the limit. In every other case the answer is unknown, which
  no path filter counts as unchanged.\<close>

theorem changed_paths_known:
  "changed_paths E ws before d = Known ps \<longleftrightarrow>
     trim before \<noteq> [] \<and> on_disk d (path_for ws GitBundle) \<and> length ps \<le> MAX_CHANGED_PATHS
     \<and> (\<exists>o1 o2. fst (tr_git E [''-C'', wk_root ws, ''rev-parse'', ''--verify'', ''--quiet'', trim before @ ''^{commit}''] d) = Ok o1
          \<and> go_success o1
          \<and> fst (tr_git E [''-C'', wk_root ws, ''diff'', ''--name-only'', ''--no-renames'', ''-z'', trim before, ''HEAD''] d) = Ok o2
          \<and> go_success o2 \<and> ps = filter (\<lambda>p. p \<noteq> []) (split_on (CHR 0x00) (go_stdout o2)))"
proof (cases "on_disk d (path_for ws GitBundle)")
  case True
  then have "stored_source ws d = Some (GitBundle, path_for ws GitBundle)" by (simp add: stored_source_def)
  with True show ?thesis
    by (simp add: changed_paths_def known_def split: result.splits) (metis linorder_not_less)
next
  case False
  then have "stored_source ws d = None \<or> stored_source ws d = Some (TarGz, path_for ws TarGz)"
    by (simp add: stored_source_def)
  with False show ?thesis by (auto simp: changed_paths_def)
qed

lemma changed_paths_of_diff:
  assumes "list_all (\<lambda>p. p \<noteq> [] \<and> CHR 0x00 \<notin> set p) ps"
  shows "filter (\<lambda>p. p \<noteq> []) (split_on (CHR 0x00) (concat (map (\<lambda>p. p @ [CHR 0x00]) ps))) = ps"
  using assms by (subst split_on_terminated) (auto simp: list_all_iff intro: filter_True)

lemma matches_pattern_iff:
  "matches_pattern name pattern \<longleftrightarrow>
     (case split_once (CHR ''*'') pattern of None \<Rightarrow> name = pattern | Some (a, b) \<Rightarrow> \<exists>m. name = a @ m @ b)"
proof -
  have "(\<exists>m. name = a @ m @ b) \<longleftrightarrow> length a + length b \<le> length name \<and> prefix a name \<and> suffix b name" for a b
  proof
    assume "length a + length b \<le> length name \<and> prefix a name \<and> suffix b name"
    then obtain x where x: "name = a @ x" "length b \<le> length x" by (auto simp: prefix_def)
    with \<open>_ \<and> _\<close> have "suffix b x" by (intro suffix_length_suffix [of b name x]) (auto simp: suffix_def)
    with x show "\<exists>m. name = a @ m @ b" by (auto simp: suffix_def)
  qed (auto simp: prefix_def suffix_def)
  then show ?thesis by (auto simp: matches_pattern_def split: option.splits)
qed

lemma read_workflows_Ok:
  "read_workflows root dir pat es = Ok fs \<Longrightarrow>
     set fs = {(rel_name dir (de_name e), body) | e body.
                 e \<in> set es \<and> matches_pattern (de_name e) pat \<and> de_is_file e \<and> de_text e = Ok body}"
proof (induction es arbitrary: fs)
  case (Cons e es)
  show ?case
  proof (cases "matches_pattern (de_name e) pat \<and> de_is_file e")
    case True
    with Cons.prems obtain body rest where "de_text e = Ok body" "read_workflows root dir pat es = Ok rest"
      "fs = (rel_name dir (de_name e), body) # rest" by auto
    with Cons.IH [of rest] True show ?thesis by (intro set_eqI) auto
  next
    case False
    with Cons show ?thesis by auto
  qed
qed simp

text \<open>The workflow files of a submit are the regular files of one directory of the submitted tree whose
  names match the pattern, in the order of their paths; a pattern that leaves the tree is refused
  before anything is read, and a missing directory means no workflows.\<close>

theorem find_workflows_spec:
  "case find_workflows E root pattern d of
     Ok fs \<Rightarrow>
       \<not> escapes_tree (trim_start_matches ''./'' (trim pattern)) \<and> sorted (map fst fs)
       \<and> (case split_pattern (trim_start_matches ''./'' (trim pattern)) of (dir, pat) \<Rightarrow>
            set fs = {(rel_name dir (de_name e), body) | e body t es.
               dk_dirs d root = Some t \<and> tr_list E t dir = Some es \<and> e \<in> set es
               \<and> matches_pattern (de_name e) pat \<and> de_is_file e \<and> de_text e = Ok body})
   | Err (EscapingEntry p) \<Rightarrow> p = trim_start_matches ''./'' (trim pattern) \<and> escapes_tree p
   | Err e \<Rightarrow> (\<exists>p reason. e = TriggerIo p reason)"
proof -
  let ?p = "trim_start_matches ''./'' (trim pattern)"
  obtain dir pat where sp: "split_pattern ?p = (dir, pat)" by fastforce
  show ?thesis
  proof (cases "escapes_tree ?p")
    case True
    then show ?thesis by (simp add: find_workflows_def Let_def sp check_contained_eq)
  next
    case False
    have io: "read_workflows root dir pat es = Err e \<Longrightarrow> \<exists>p reason. e = TriggerIo p reason" for es e
      by (induction es) (auto simp: and_then_Err map_err_Err split: if_splits)
    show ?thesis
    proof (cases "Option.bind (dk_dirs d root) (\<lambda>t. tr_list E t dir)")
      case None
      then have "\<not> (dk_dirs d root = Some t \<and> tr_list E t dir = Some es)" for t es by auto
      with None False show ?thesis by (simp add: find_workflows_def Let_def sp check_contained_eq)
    next
      case (Some es)
      show ?thesis
      proof (cases "read_workflows root dir pat es")
        case (Err e)
        with io [OF this] False Some show ?thesis
          by (auto simp: find_workflows_def Let_def sp check_contained_eq)
      next
        case (Ok fs)
        with read_workflows_Ok [OF this] False Some show ?thesis
          by (auto simp: find_workflows_def Let_def sp check_contained_eq bind_eq_Some_conv)
      qed
    qed
  qed
qed

end
