(* ===== verification/Placement.thy ===== *)
theory Placement
  imports Image Runners Bus Trigger
begin

text \<open>
  The part of \<^verbatim>\<open>src/src/dispatch.rs\<close> that decides where a job runs: its network, host and VM
  (\<^verbatim>\<open>network_of\<close>, \<^verbatim>\<open>place\<close>), the queue it goes on (\<^verbatim>\<open>route_for\<close>), the host that takes it
  (\<^verbatim>\<open>pick_runner\<close>) and what a submit writes into the stored plan (\<^verbatim>\<open>assign_network\<close>). Also the error
  type of the dispatcher. Errors of other components are wrapped; message texts are left out
  unless the program itself reads them.
\<close>

section \<open>Errors\<close>

datatype dispatch_error =
    DStore store_error
  | DPool pool_error
  | DBus bus_error
  | DRunner runner_error
  | DVm vm_error
  | DImage image_error
  | BadPlan string
  | Condition expr_error
  | UnknownJob string
  | UnknownRunner string string
  | RunnerOffline string runner_status
  | NoOnlineRunner string
  | NoNetwork
  | NoDefaultNode
  | DefaultNodeUnserved string "string list"
  | CancelledJob string
  | VmNotSweepable string
  | JobTimeout string nat
  | UnknownVm string string "string list"
  | UnservedNetwork string "string list"
  | UnknownNetwork string "string list"
  | StepFailed string
  | Checkout string
  | SecretsErr string
  | Artifact string
  | DTrigger trigger_error
  | WorkflowErr string

definition is_tunnel_failure :: "dispatch_error \<Rightarrow> bool" where
  "is_tunnel_failure e =
     (case e of DVm v \<Rightarrow> is_transport v | DImage i \<Rightarrow> image_is_transport i | _ \<Rightarrow> False)"

text \<open>The text scanned is the printed error; \<open>show_vm\<close> prints a VM error.\<close>

definition corruption_marks :: "string list" where
  "corruption_marks = [''Bad message'', ''Structure needs cleaning'', ''Read-only file system'',
     ''Input/output error'', ''sha256 mismatch'']"

definition indicates_guest_corruption :: "(vm_error \<Rightarrow> string) \<Rightarrow> dispatch_error \<Rightarrow> bool" where
  "indicates_guest_corruption show_vm e =
     (case e of
        Checkout r \<Rightarrow> list_ex (contains_sub (''checkout failed: '' @ r)) corruption_marks
      | DVm v \<Rightarrow> list_ex (contains_sub (show_vm v)) corruption_marks
      | _ \<Rightarrow> False)"

section \<open>Placement\<close>

record placement =
  pc_network :: runner_set
  pc_node :: "runner option"
  pc_vm :: "string option"

definition network_of :: "runner_pool \<Rightarrow> job_plan \<Rightarrow> (dispatch_error, runner_set) result" where
  "network_of pool j =
     (case tg_network (jp_target j) of
        None \<Rightarrow> ok_or NoNetwork (default_set pool)
      | Some raw \<Rightarrow>
          (let wanted = trim raw in
           (case find_network pool wanted of
              Some n \<Rightarrow>
                if ns_served n then Ok n else Err (UnservedNetwork (ns_network_name n) (served_names pool))
            | None \<Rightarrow> Err (UnknownNetwork wanted (served_names pool)))))"

definition place :: "runner_pool \<Rightarrow> job_plan \<Rightarrow> (dispatch_error, placement) result" where
  "place pool j =
     (if tg_local (jp_target j) then
        (if po_default_node_id pool = [] then Err NoDefaultNode
         else (case locate pool (po_default_node_id pool) of
                 None \<Rightarrow> Err (DefaultNodeUnserved (po_default_node_id pool) (served_names pool))
               | Some (n, r) \<Rightarrow> Ok \<lparr>pc_network = n, pc_node = Some r, pc_vm = tg_vm (jp_target j)\<rparr>))
      else
        and_then (network_of pool j) (\<lambda>n.
          (case tg_node (jp_target j) of
             None \<Rightarrow> Ok \<lparr>pc_network = n, pc_node = None, pc_vm = None\<rparr>
           | Some wanted \<Rightarrow>
               (case find_runner n wanted of
                  Some r \<Rightarrow> Ok \<lparr>pc_network = n, pc_node = Some r, pc_vm = tg_vm (jp_target j)\<rparr>
                | None \<Rightarrow>
                    if jp_fallback j = FallbackAny \<and> tg_vm (jp_target j) = None
                    then Ok \<lparr>pc_network = n, pc_node = None, pc_vm = None\<rparr>
                    else Err (UnknownRunner wanted (ns_network_name n))))))"

definition route_for :: "runner_pool \<Rightarrow> job_plan \<Rightarrow> (dispatch_error, route) result" where
  "route_for pool j =
     and_then (place pool j) (\<lambda>p.
       (case pc_node p of
          Some r \<Rightarrow> Ok (RRunner (ru_id r))
        | None \<Rightarrow>
            if ns_network_id (pc_network p) = [] then Err NoNetwork
            else Ok (RNetwork (ns_network_id (pc_network p)))))"

definition pick_runner :: "runner_pool \<Rightarrow> job_plan \<Rightarrow> (dispatch_error, string \<times> string option) result" where
  "pick_runner pool j =
     and_then (place pool j) (\<lambda>p.
       (case pc_node p of
          Some r \<Rightarrow>
            if \<not> is_dispatchable (ru_status r) then Err (RunnerOffline (ru_name r) (ru_status r))
            else Ok (ru_id r, pc_vm p)
        | None \<Rightarrow>
            (case dispatchable (pc_network p) of
               [] \<Rightarrow> Err (NoOnlineRunner (ns_network_name (pc_network p)))
             | r # _ \<Rightarrow> Ok (ru_id r, pc_vm p))))"

section \<open>What a submit stores\<close>

text \<open>One job of the plan: the default network filled in, the placement checked, canonical names written
  back; a job pinned to a host that is not online also yields a warning (its key and the host).\<close>

definition with_default_network :: "string option \<Rightarrow> job_plan \<Rightarrow> job_plan" where
  "with_default_network dflt j =
     (if tg_network (jp_target j) = None \<and> \<not> tg_local (jp_target j) \<and> dflt \<noteq> None
      then j\<lparr>jp_target := (jp_target j)\<lparr>tg_network := dflt\<rparr>\<rparr> else j)"

definition offline_warning :: "job_plan \<Rightarrow> placement \<Rightarrow> (string \<times> string) list" where
  "offline_warning j p =
     (case pc_node p of
        Some r \<Rightarrow> if \<not> is_dispatchable (ru_status r) then [(jp_key j, ru_name r)] else []
      | None \<Rightarrow> [])"

definition canonical :: "job_plan \<Rightarrow> placement \<Rightarrow> job_plan" where
  "canonical j p =
     j\<lparr>jp_target := (jp_target j)\<lparr>tg_network := Some (ns_network_name (pc_network p)),
         tg_node := (case pc_node p of Some r \<Rightarrow> Some (ru_name r) | None \<Rightarrow> tg_node (jp_target j))\<rparr>\<rparr>"

definition assign_job ::
    "runner_pool \<Rightarrow> string option \<Rightarrow> job_plan \<Rightarrow> (dispatch_error, job_plan \<times> (string \<times> string) list) result" where
  "assign_job pool dflt j =
     (let j' = with_default_network dflt j in
      and_then (place pool j') (\<lambda>p. Ok (canonical j' p, offline_warning j' p)))"

definition assign_network ::
    "runner_pool \<Rightarrow> string option \<Rightarrow> plan \<Rightarrow> (dispatch_error, plan \<times> (string \<times> string) list) result" where
  "assign_network pool dflt p =
     and_then (map_result (assign_job pool dflt) (pl_jobs p)) (\<lambda>js.
       Ok (p\<lparr>pl_jobs := map fst js\<rparr>, concat (map snd js)))"

section \<open>Lemmas\<close>

lemma find_network_Some: "find_network pool w = Some n \<Longrightarrow> n \<in> set (po_networks pool) \<and> network_matches n (trim w)"
  unfolding find_network_def by (rule find_SomeD)

lemma default_set_Some: "default_set pool = Some n \<Longrightarrow> n \<in> set (served pool)"
proof (cases "find (\<lambda>n. ns_served n \<and> ns_network_id n = po_default_network_id pool) (po_networks pool)")
  case None
  assume "default_set pool = Some n"
  with None show ?thesis by (cases "served pool") (auto simp: default_set_def)
next
  case (Some m)
  assume "default_set pool = Some n"
  with Some find_SomeD [OF Some] show ?thesis by (auto simp: default_set_def served_iff)
qed

lemma network_of_Ok: "network_of pool j = Ok n \<Longrightarrow> n \<in> set (served pool)"
  by (auto simp: network_of_def ok_or_def Let_def served_iff dest: default_set_Some find_network_Some
      split: option.splits if_splits)

lemma locate_Some:
  "locate pool i = Some (n, r) \<Longrightarrow> n \<in> set (served pool) \<and> r \<in> set (ns_runners n) \<and> ru_id r = i"
  using locate_from_Some [of "po_default_network_id pool" i None "served pool" n r] by (simp add: locate_def)

text \<open>The four ways a job is placed, one for each form of \<^verbatim>\<open>uses:\<close> and one for \<^verbatim>\<open>fallback: any\<close>.\<close>

lemma place_cases:
  assumes "place pool j = Ok p"
  obtains (local) n r where "tg_local (jp_target j)" "locate pool (po_default_node_id pool) = Some (n, r)"
      "p = \<lparr>pc_network = n, pc_node = Some r, pc_vm = tg_vm (jp_target j)\<rparr>"
  | (any) n where "\<not> tg_local (jp_target j)" "tg_node (jp_target j) = None" "network_of pool j = Ok n"
      "p = \<lparr>pc_network = n, pc_node = None, pc_vm = None\<rparr>"
  | (pinned) n w r where "\<not> tg_local (jp_target j)" "tg_node (jp_target j) = Some w" "network_of pool j = Ok n"
      "find_runner n w = Some r" "p = \<lparr>pc_network = n, pc_node = Some r, pc_vm = tg_vm (jp_target j)\<rparr>"
  | (fallback) n w where "\<not> tg_local (jp_target j)" "tg_node (jp_target j) = Some w" "network_of pool j = Ok n"
      "find_runner n w = None" "jp_fallback j = FallbackAny" "tg_vm (jp_target j) = None"
      "p = \<lparr>pc_network = n, pc_node = None, pc_vm = None\<rparr>"
proof (cases "tg_local (jp_target j)")
  case True
  with assms local show ?thesis by (auto simp: place_def split: if_splits option.splits)
next
  case False
  with assms obtain n where n: "network_of pool j = Ok n" by (auto simp: place_def)
  show ?thesis
  proof (cases "tg_node (jp_target j)")
    case None
    with assms False n any show ?thesis by (simp add: place_def)
  next
    case (Some w)
    with assms False n pinned fallback show ?thesis
      by (cases "find_runner n w") (auto simp: place_def split: if_splits)
  qed
qed

text \<open>What a placement promises: a served network, a host of that network, and a VM only with its host.\<close>

lemma place_Ok:
  assumes "place pool j = Ok p"
  shows "pc_network p \<in> set (served pool)"
    and "pc_node p = Some r \<Longrightarrow> r \<in> set (ns_runners (pc_network p))"
    and "pc_vm p \<noteq> None \<Longrightarrow> pc_node p \<noteq> None \<and> pc_vm p = tg_vm (jp_target j)"
  using assms by (cases rule: place_cases; auto simp: find_runner_def dest: locate_Some network_of_Ok find_SomeD)+

text \<open>When no two networks and no two hosts of a network can be taken for each other, the names written
  back resolve to what was checked.\<close>

definition unambiguous :: "runner_pool \<Rightarrow> bool" where
  "unambiguous pool \<longleftrightarrow>
     (\<forall>n\<in>set (po_networks pool). trim (ns_network_name n) = ns_network_name n
        \<and> (\<forall>m\<in>set (po_networks pool). network_matches m (ns_network_name n) \<longrightarrow> m = n)
        \<and> (\<forall>r\<in>set (ns_runners n). \<forall>q\<in>set (ns_runners n). runner_matches q (ru_name r) \<longrightarrow> q = r))"

lemma find_unique: "x \<in> set xs \<Longrightarrow> P x \<Longrightarrow> (\<And>y. y \<in> set xs \<Longrightarrow> P y \<Longrightarrow> y = x) \<Longrightarrow> find P xs = Some x"
  by (metis find_None_iff find_SomeD not_None_eq)

lemma unambiguous_network:
  assumes "unambiguous pool" "n \<in> set (served pool)" "tg_network (jp_target j) = Some (ns_network_name n)"
  shows "network_of pool j = Ok n"
proof -
  have n: "n \<in> set (po_networks pool)" "ns_served n" using assms(2) by (auto simp: served_iff)
  have "find_network pool (ns_network_name n) = Some n"
    unfolding find_network_def using assms(1) n(1)
    by (intro find_unique) (auto simp: unambiguous_def network_matches_def)
  with assms(1,3) n show ?thesis by (auto simp: network_of_def unambiguous_def Let_def)
qed

lemma unambiguous_runner:
  assumes "unambiguous pool" "n \<in> set (served pool)" "r \<in> set (ns_runners n)"
  shows "find_runner n (ru_name r) = Some r"
  unfolding find_runner_def using assms
  by (intro find_unique) (auto simp: unambiguous_def served_iff runner_matches_def)

lemma place_canonical:
  assumes "unambiguous pool" "place pool j = Ok p"
  shows "place pool (canonical j p) = Ok p"
  using assms(2)
proof (cases rule: place_cases)
  case (local n r)
  then show ?thesis using assms(2) by (auto simp: place_def canonical_def split: if_splits)
next
  case (any n)
  then have "network_of pool (canonical j p) = Ok n"
    using assms(1) network_of_Ok by (intro unambiguous_network) (auto simp: canonical_def)
  with any show ?thesis by (simp add: place_def canonical_def)
next
  case (pinned n w r)
  have s: "n \<in> set (served pool)" using pinned(3) by (rule network_of_Ok)
  have "network_of pool (canonical j p) = Ok n"
    using assms(1) s pinned by (intro unambiguous_network) (auto simp: canonical_def)
  moreover have "find_runner n (ru_name r) = Some r"
    using assms(1) s pinned(4) by (auto simp: find_runner_def intro!: unambiguous_runner [unfolded find_runner_def] dest: find_SomeD)
  ultimately show ?thesis using pinned by (simp add: place_def canonical_def)
next
  case (fallback n w)
  then have "network_of pool (canonical j p) = Ok n"
    using assms(1) network_of_Ok by (intro unambiguous_network) (auto simp: canonical_def)
  with fallback show ?thesis by (simp add: place_def canonical_def)
qed

lemma assign_job_Ok:
  "assign_job pool dflt j = Ok (j', ws) \<longleftrightarrow>
   (\<exists>p. place pool (with_default_network dflt j) = Ok p
      \<and> j' = canonical (with_default_network dflt j) p \<and> ws = offline_warning (with_default_network dflt j) p)"
  by (auto simp: assign_job_def Let_def)


section \<open>Properties\<close>

text \<open>A job runs where it was queued: a job on a host's queue is only ever taken to that host, which
  belongs to a served network, and only while it is online; a job on a network's queue goes to an
  online host of that network. A VM is only named together with the host the job is pinned to.\<close>

theorem routed_where_picked:
  assumes "route_for pool j = Ok q" "pick_runner pool j = Ok (host, vm)"
  shows "\<exists>n\<in>set (served pool). \<exists>r\<in>set (ns_runners n). ru_id r = host \<and> is_dispatchable (ru_status r)
    \<and> (case q of RRunner i \<Rightarrow> host = i | RNetwork i \<Rightarrow> ns_network_id n = i \<and> i \<noteq> [])
    \<and> (vm \<noteq> None \<longrightarrow> q = RRunner host \<and> vm = tg_vm (jp_target j))"
proof -
  from assms(1) obtain p where p: "place pool j = Ok p" by (auto simp: route_for_def)
  note ok = place_Ok [OF p]
  show ?thesis
  proof (cases "pc_node p")
    case (Some r)
    with assms p have "host = ru_id r" "is_dispatchable (ru_status r)" "q = RRunner (ru_id r)" "vm = pc_vm p"
      by (auto simp: route_for_def pick_runner_def split: if_splits)
    with ok(1) ok(2) [OF Some] ok(3) show ?thesis
      by (intro bexI [of _ "pc_network p"] bexI [of _ r]) auto
  next
    case None
    with assms p obtain r rest where "dispatchable (pc_network p) = r # rest" "host = ru_id r" "vm = pc_vm p"
      and q: "q = RNetwork (ns_network_id (pc_network p))" "ns_network_id (pc_network p) \<noteq> []"
      by (auto simp: route_for_def pick_runner_def split: if_splits list.splits)
    moreover from this(1) have "r \<in> set (dispatchable (pc_network p))" by simp
    then have "r \<in> set (ns_runners (pc_network p))" "is_dispatchable (ru_status r)"
      by (auto simp: dispatchable_def)
    moreover have "pc_vm p = None" using ok(3) None by blast
    ultimately show ?thesis using ok(1) by (intro bexI [of _ "pc_network p"] bexI [of _ r]) auto
  qed
qed

definition sample_runner :: "string \<Rightarrow> string \<Rightarrow> runner_status \<Rightarrow> runner" where
  "sample_runner i name st = \<lparr>ru_id = i, ru_name = name, ru_status = st, ru_last_seen_at = None\<rparr>"

definition sample_runners :: "runner list \<Rightarrow> runner_pool" where
  "sample_runners rs =
     \<lparr>po_networks = [\<lparr>ns_network_id = ''net-1'', ns_network_name = ''home'', ns_is_default = True,
        ns_served = True, ns_runners = rs\<rparr>],
      po_unjoined = [], po_last_error = None, po_default_network_id = ''net-1'', po_default_node_id = []\<rparr>"

definition pinned_cell :: "string \<Rightarrow> job_plan" where
  "pinned_cell node = sample_cell\<lparr>jp_target := target_any\<lparr>tg_network := Some ''home'', tg_node := Some node\<rparr>\<rparr>"

lemmas sample_placement = sample_runners_def sample_runner_def pinned_cell_def target_any_def place_def
  network_of_def find_network_def network_matches_def find_runner_def runner_matches_def

lemma home_trim: "trim ''home'' = ''home''"
  by code_simp

theorem routed_where_picked_witness:
  "pick_runner (sample_runners [sample_runner ''hd-1'' ''box'' ROnline]) (pinned_cell ''box'') = Ok (''hd-1'', None)
   \<and> (\<exists>n\<in>set (served (sample_runners [sample_runner ''hd-1'' ''box'' ROnline])). ns_network_id n = ''net-1'')"
proof -
  let ?p = "sample_runners [sample_runner ''hd-1'' ''box'' ROnline]"
  have "route_for ?p (pinned_cell ''box'') = Ok (RRunner ''hd-1'')"
    and pick: "pick_runner ?p (pinned_cell ''box'') = Ok (''hd-1'', None)"
    by (simp_all add: route_for_def pick_runner_def sample_placement home_trim is_dispatchable_def)
  from routed_where_picked [OF this] pick show ?thesis
    by (auto simp: served_def sample_runners_def)
qed

text \<open>C28. What a submit stores is what it checked: when names are unambiguous, every job of a plan that
  was accepted has its network written down, and is placed on the same network, host and VM, and
  routed to the same queue, as when the submit was accepted.\<close>

theorem assigned_plan_keeps_placement:
  assumes "unambiguous pool" "assign_network pool dflt p = Ok (p', ws)"
  shows "list_all2 (\<lambda>j j'. tg_network (jp_target j') \<noteq> None \<and> jp_key j' = jp_key j
      \<and> is_ok (place pool j')
      \<and> place pool j' = place pool (with_default_network dflt j)
      \<and> route_for pool j' = route_for pool (with_default_network dflt j)) (pl_jobs p) (pl_jobs p')"
proof -
  from assms(2) obtain js where js: "map_result (assign_job pool dflt) (pl_jobs p) = Ok js"
    and p': "pl_jobs p' = map fst js" by (auto simp: assign_network_def)
  have "tg_network (jp_target (fst jw)) \<noteq> None \<and> jp_key (fst jw) = jp_key j
      \<and> is_ok (place pool (fst jw))
      \<and> place pool (fst jw) = place pool (with_default_network dflt j)
      \<and> route_for pool (fst jw) = route_for pool (with_default_network dflt j)"
    if jw: "assign_job pool dflt j = Ok jw" for j jw
  proof -
    from jw obtain q where q: "place pool (with_default_network dflt j) = Ok q"
      "fst jw = canonical (with_default_network dflt j) q"
      by (cases jw) (auto simp: assign_job_Ok)
    with place_canonical [OF assms(1) q(1)] show ?thesis
      by (auto simp: route_for_def canonical_def with_default_network_def)
  qed
  with js show ?thesis
    unfolding p' map_result_Ok by (auto simp: list_all2_map2 elim!: list_all2_mono)
qed

theorem assigned_plan_keeps_placement_witness:
  "\<exists>p' ws. assign_network (sample_runners [sample_runner ''hd-1'' ''box'' ROnline]) None
       (sample_run_plan\<lparr>pl_jobs := [pinned_cell ''hd-1'']\<rparr>) = Ok (p', ws)
     \<and> list_all2 (\<lambda>j j'. jp_key j' = jp_key j) [pinned_cell ''hd-1''] (pl_jobs p')"
proof -
  let ?p = "sample_runners [sample_runner ''hd-1'' ''box'' ROnline]"
  have "unambiguous ?p"
    by (simp add: unambiguous_def sample_runners_def home_trim)
  moreover have "is_ok (assign_network ?p None (sample_run_plan\<lparr>pl_jobs := [pinned_cell ''hd-1'']\<rparr>))"
    by (simp add: Let_def assign_network_def assign_job_def with_default_network_def sample_placement home_trim)
  then obtain p' ws where a: "assign_network ?p None (sample_run_plan\<lparr>pl_jobs := [pinned_cell ''hd-1'']\<rparr>) = Ok (p', ws)"
    unfolding is_ok_iff by auto
  ultimately have "list_all2 (\<lambda>j j'. jp_key j' = jp_key j) [pinned_cell ''hd-1''] (pl_jobs p')"
    using assigned_plan_keeps_placement [of ?p None _ p' ws] by (fastforce elim!: list_all2_mono)
  with a show ?thesis by blast
qed

text \<open>Without that, the names written back lose the choice: a job pinned by id to the live one of two
  hosts with the same name is stored under the name and queued for the dead one.\<close>

definition twin_hosts :: runner_pool where
  "twin_hosts = sample_runners [sample_runner ''hd-1'' ''box'' ROffline, sample_runner ''hd-2'' ''box'' ROnline]"

lemma box_not_id: "\<not> eq_ignore_ascii_case ''box'' ''hd-2''"
  by code_simp

lemma pin_by_id_moves:
  "route_for twin_hosts (pinned_cell ''hd-2'') = Ok (RRunner ''hd-2'')"
  "assign_network twin_hosts None (sample_run_plan\<lparr>pl_jobs := [pinned_cell ''hd-2'']\<rparr>)
   = Ok (sample_run_plan\<lparr>pl_jobs := [pinned_cell ''box'']\<rparr>, [])"
  "route_for twin_hosts (pinned_cell ''box'') = Ok (RRunner ''hd-1'')"
  by (simp_all add: twin_hosts_def assign_network_def assign_job_def with_default_network_def canonical_def
      route_for_def sample_placement home_trim box_not_id offline_warning_def is_dispatchable_def Let_def)

end
