(* ===== verification/Schedule.thy ===== *)
theory Schedule
  imports Placement
begin

text \<open>
  The scheduler in \<^verbatim>\<open>src/src/dispatch.rs\<close>: \<^verbatim>\<open>advance_run\<close> publishes the jobs of a run that have become
  ready, \<^verbatim>\<open>nudge_stalled_runs\<close> runs it again for runs with pending jobs, and
  \<^verbatim>\<open>fail_jobs_waiting_for_a_runner\<close> gives up on jobs nobody took.

  The state is the database, the VM pool, the image catalog and what was published. The
  environment of a pass is a record: the clock, the pool snapshot, the subject prefix, whether
  JetStream acknowledges a subject, the decoder of stored plans and the printer of errors. A
  database that cannot be reached is not modelled: statements always succeed or report the
  constraint they violate.
\<close>

section \<open>State\<close>


record sys =
  sy_db :: db
  sy_pool :: vm_table
  sy_images :: image_table
  sy_bus :: "json bus_state"

record sched_env =
  se_now :: nat
  se_pool :: runner_pool
  se_prefix :: string
  se_acked :: "string \<Rightarrow> (string, unit) result"
  se_read_plan :: "job_plan \<Rightarrow> (string, job_plan) result"
  se_show :: "dispatch_error \<Rightarrow> string"
  se_lib :: json_lib

definition on_db :: "(db \<Rightarrow> db) \<Rightarrow> sys \<Rightarrow> sys" where
  "on_db f s = s\<lparr>sy_db := f (sy_db s)\<rparr>"

definition emit :: "sched_env \<Rightarrow> string \<Rightarrow> string \<Rightarrow> json \<Rightarrow> sys \<Rightarrow> sys" where
  "emit E run_id key ev s = s\<lparr>sy_bus := publish_event (se_prefix E) run_id key ev (sy_bus s)\<rparr>"

section \<open>Deciding whether a job runs\<close>

definition ci_scope :: "run_row option \<Rightarrow> json" where
  "ci_scope run =
     (case run of
        None \<Rightarrow> JObj []
      | Some r \<Rightarrow> JObj (bm_of [
          (''sha'', JStr (rn_sha r)),
          (''before'', JStr (rn_before_sha r)),
          (''ref'', JStr (rn_git_ref r)),
          (''branch'', JStr (case strip_prefix ''refs/heads/'' (rn_git_ref r) of
                               Some b \<Rightarrow> b | None \<Rightarrow> rn_git_ref r)),
          (''repository'', JStr (rn_repo_url r)),
          (''run_id'', JStr (rn_id r)),
          (''workflow'', JStr (rn_workflow_id r)),
          (''changed_files'', JArr (map JStr (changed_list (rn_changes r)))),
          (''changes_known'', JBool (is_known (rn_changes r))),
          (''changes_reason'', JStr (case change_reason (rn_changes r) of None \<Rightarrow> [] | Some t \<Rightarrow> t))]))"

fun json_field :: "json \<Rightarrow> string \<Rightarrow> json option" where
  "json_field (JObj kvs) k = map_of kvs k"
| "json_field _ k = None"

definition need_result :: "json \<Rightarrow> string \<Rightarrow> string option" where
  "need_result needs n =
     (case Option.bind (json_field needs n) (\<lambda>v. json_field v ''result'') of
        Some (JStr s) \<Rightarrow> Some s | _ \<Rightarrow> None)"

definition any_need_failed :: "job_plan \<Rightarrow> json \<Rightarrow> bool" where
  "any_need_failed p needs \<longleftrightarrow>
     list_ex (\<lambda>n. need_result needs n \<in> {Some ''failure'', Some ''cancelled''}) (jp_needs p)"

definition should_run :: "json_lib \<Rightarrow> job_plan \<Rightarrow> json \<Rightarrow> json \<Rightarrow> (dispatch_error, bool) result" where
  "should_run L p needs ci =
     (let failed = any_need_failed p needs in
      (case jp_condition p of
         None \<Rightarrow> Ok (\<not> failed)
       | Some c \<Rightarrow>
           map_err Condition
             (eval_condition L
               (set_status (set_scope (set_scope (base_context p) ''needs'' needs) ''ci'' ci)
                  (if failed then ''failure'' else ''success'')) c)))"

section \<open>One pass over a run\<close>

text \<open>The map from a job's base id to whether every cell of it so far has finished.\<close>

definition note_terminal :: "bool bmap \<Rightarrow> job_row \<Rightarrow> bool bmap" where
  "note_terminal m j =
     (let t = job_terminal (jr_status j) in
      bm_insert (jr_base_id j) (case bm_get m (jr_base_id j) of None \<Rightarrow> t | Some x \<Rightarrow> x \<and> t) m)"

definition terminal_map :: "job_row list \<Rightarrow> bool bmap" where
  "terminal_map jobs = foldl note_terminal [] jobs"

definition needs_done :: "bool bmap \<Rightarrow> job_plan \<Rightarrow> bool" where
  "needs_done m p \<longleftrightarrow> list_all (\<lambda>n. bm_get m n = Some True) (jp_needs p)"

definition enqueue :: "sched_env \<Rightarrow> string \<Rightarrow> job_row \<Rightarrow> job_plan \<Rightarrow> route \<Rightarrow> sys \<Rightarrow> sys" where
  "enqueue E run_id j p r s =
     (case queue_job (se_now E) (jr_id j) (sy_db s) of
        (False, d) \<Rightarrow> s\<lparr>sy_db := d\<rparr>
      | (True, d) \<Rightarrow>
          (case publish_job (se_prefix E) (se_acked E) r
                  \<lparr>jm_run_id = run_id, jm_job_id = jr_id j, jm_job_key = jp_key p\<rparr> (sy_bus s) of
             Ok b \<Rightarrow> s\<lparr>sy_db := d, sy_bus := b\<rparr>
           | Err _ \<Rightarrow> s\<lparr>sy_db := snd (unqueue_job (jr_id j) d)\<rparr>))"

definition advance_job :: "sched_env \<Rightarrow> string \<Rightarrow> json \<Rightarrow> json \<Rightarrow> bool bmap \<Rightarrow> sys \<Rightarrow> job_row \<Rightarrow> sys" where
  "advance_job E run_id needs ci done s j =
     (let fail = (\<lambda>m. on_db (set_job_status (se_now E) (jr_id j) JFailure (Some m)) s) in
      if jr_status j \<noteq> JPending then s
      else (case se_read_plan E (jr_plan j) of
              Err e \<Rightarrow> fail (''stored plan could not be read: '' @ e)
            | Ok p \<Rightarrow>
                if \<not> needs_done done p then s
                else (case should_run (se_lib E) p needs ci of
                        Err e \<Rightarrow> fail (''could not evaluate `if:` '' @ DASH @ '' '' @ se_show E e)
                      | Ok False \<Rightarrow>
                          emit E run_id (jp_key p) (JObj [(''status'', JStr ''skipped'')])
                            (on_db (set_job_status (se_now E) (jr_id j) JSkipped None) s)
                      | Ok True \<Rightarrow>
                          (case route_for (se_pool E) p of
                             Err e \<Rightarrow> fail (se_show E e)
                           | Ok r \<Rightarrow> enqueue E run_id j p r s))))"

definition advance_run :: "sched_env \<Rightarrow> string \<Rightarrow> sys \<Rightarrow> run_status \<times> sys" where
  "advance_run E run_id s =
     (let jobs = jobs_of run_id (sy_db s);
          needs = needs_context run_id (sy_db s);
          ci = ci_scope (get_run run_id (sy_db s));
          s' = foldl (advance_job E run_id needs ci (terminal_map jobs)) s jobs;
          (st, d) = roll_up_run (se_now E) run_id (sy_db s')
      in (st, s'\<lparr>sy_db := d\<rparr>))"

section \<open>Repair passes\<close>

definition NUDGE_BATCH :: nat where
  "NUDGE_BATCH = 100"

definition nudge_stalled_runs :: "sched_env \<Rightarrow> sys \<Rightarrow> sys" where
  "nudge_stalled_runs E s =
     foldl (\<lambda>s r. snd (advance_run E r s)) s (runs_with_pending_jobs NUDGE_BATCH (sy_db s))"

definition host_online :: "runner_pool \<Rightarrow> string option \<Rightarrow> bool" where
  "host_online pool host =
     (case Option.bind host (locate pool) of
        None \<Rightarrow> False
      | Some (_, r) \<Rightarrow> is_dispatchable (ru_status r))"

definition waiting_detail :: "nat \<Rightarrow> job_row \<Rightarrow> string" where
  "waiting_detail wait j =
     ''no runner took this job within '' @ nat_str wait @ ''s. It is pinned to ''
     @ (case coalesce (jr_runner_hd_id j) (jr_network j) of None \<Rightarrow> ''its network'' | Some w \<Rightarrow> w)
     @ '', which is not online '' @ DASH @ '' a pinned job waits for its own host rather than migrating, ''
     @ ''because the warm VM pool is host-local. Bring that host back, set `fallback: any` on the job, ''
     @ ''or point `uses:` elsewhere.''"

definition fail_waiting_job :: "sched_env \<Rightarrow> nat \<Rightarrow> sys \<Rightarrow> job_row \<Rightarrow> sys" where
  "fail_waiting_job E wait s j =
     (if host_online (se_pool E) (jr_runner_hd_id j) then s
      else snd (advance_run E (jr_run_id j)
             (on_db (set_job_status (se_now E) (jr_id j) JFailure (Some (waiting_detail wait j))) s)))"

definition fail_jobs_waiting_for_a_runner :: "sched_env \<Rightarrow> nat \<Rightarrow> sys \<Rightarrow> sys" where
  "fail_jobs_waiting_for_a_runner E wait s =
     foldl (fail_waiting_job E wait) s
       (jobs_waiting_longer_than (se_now E) wait NUDGE_BATCH (sy_db s))"

section \<open>What a pass decides\<close>

text \<open>The reference: each job of the run is decided on its own, from the state before the pass.\<close>

datatype decision = Leave | FailJob string | SkipJob | Enqueue route

definition publishable :: "sched_env \<Rightarrow> route \<Rightarrow> bool" where
  "publishable E r \<longleftrightarrow>
     (case subject_for (se_prefix E) r of Ok subject \<Rightarrow> is_ok (se_acked E subject) | Err _ \<Rightarrow> False)"

definition decide :: "sched_env \<Rightarrow> json \<Rightarrow> json \<Rightarrow> bool bmap \<Rightarrow> job_row \<Rightarrow> decision" where
  "decide E needs ci done j =
     (if jr_status j \<noteq> JPending then Leave
      else (case se_read_plan E (jr_plan j) of
              Err e \<Rightarrow> FailJob (''stored plan could not be read: '' @ e)
            | Ok p \<Rightarrow>
                if \<not> needs_done done p then Leave
                else (case should_run (se_lib E) p needs ci of
                        Err e \<Rightarrow> FailJob (''could not evaluate `if:` '' @ DASH @ '' '' @ se_show E e)
                      | Ok False \<Rightarrow> SkipJob
                      | Ok True \<Rightarrow>
                          (case route_for (se_pool E) p of
                             Err e \<Rightarrow> FailJob (se_show E e)
                           | Ok r \<Rightarrow> if publishable E r then Enqueue r else Leave))))"

fun decided_row :: "nat \<Rightarrow> decision \<Rightarrow> job_row \<Rightarrow> job_row" where
  "decided_row now Leave j = j"
| "decided_row now (FailJob m) j = set_job_row now JFailure (Some m) j"
| "decided_row now SkipJob j = set_job_row now JSkipped None j"
| "decided_row now (Enqueue r) j = queue_row now j"


section \<open>Lemmas\<close>

lemma bm_wf_note_terminal: "bm_wf m \<Longrightarrow> bm_wf (note_terminal m j)"
  by (simp add: note_terminal_def Let_def)

lemma terminal_fold:
  assumes "bm_wf m"
  shows "bm_get (foldl note_terminal m jobs) b =
    (if bm_get m b = None \<and> b \<notin> jr_base_id ` set jobs then None
     else Some (bm_get m b \<noteq> Some False \<and> (\<forall>j\<in>set jobs. jr_base_id j = b \<longrightarrow> job_terminal (jr_status j))))"
  using assms
proof (induction jobs arbitrary: m)
  case Nil
  then show ?case by (cases "bm_get m b") auto
next
  case (Cons j jobs)
  from Cons.IH [OF bm_wf_note_terminal [OF Cons.prems]] Cons.prems show ?case
    by (auto simp: note_terminal_def Let_def bm_get_insert split: option.splits)
qed

lemma needs_done_iff:
  "needs_done (terminal_map jobs) p \<longleftrightarrow>
   (\<forall>n\<in>set (jp_needs p). n \<in> jr_base_id ` set jobs
      \<and> (\<forall>j\<in>set jobs. jr_base_id j = n \<longrightarrow> job_terminal (jr_status j)))"
  by (auto simp: needs_done_def list_all_iff terminal_map_def terminal_fold)

lemma need_result_context:
  "need_result (needs_context run_id d) n = map_option fst (bm_get (needs_entries (jobs_of run_id d)) n)"
proof -
  have "map_of (map (\<lambda>(b, res, outs). (b, g res outs)) m) n = map_option (\<lambda>(res, outs). g res outs) (map_of m n)"
    for g :: "string \<Rightarrow> json bmap \<Rightarrow> json" and m :: "(string \<times> json bmap) bmap"
    by (induction m) auto
  then show ?thesis
    by (cases "map_of (needs_entries (jobs_of run_id d)) n") (auto simp: need_result_def needs_context_def)
qed

lemma set_jobs_of: "set (jobs_of run_id d) = {j \<in> set (db_jobs d). jr_run_id j = run_id}"
  by (auto simp: jobs_of_def)

lemma distinct_jobs_of: "distinct (map jr_id (db_jobs d)) \<Longrightarrow> distinct (map jr_id (jobs_of run_id d))"
proof -
  assume "distinct (map jr_id (db_jobs d))"
  moreover have "mset (map jr_id (jobs_of run_id d)) = mset (map jr_id (filter (\<lambda>j. jr_run_id j = run_id) (db_jobs d)))"
    by (simp add: jobs_of_def)
  ultimately show ?thesis by (metis distinct_map_filter mset_eq_imp_distinct_iff)
qed

text \<open>A statement on one job, on a table that has it.\<close>

lemma update_job_at:
  assumes "distinct (map jr_id (db_jobs d))" "j \<in> set (db_jobs d)" "\<And>x. jr_id (f x) = jr_id x"
  shows "update_job (jr_id j) g f d = (g j, d\<lparr>db_jobs := map (\<lambda>x. if x = j \<and> g j then f j else x) (db_jobs d)\<rparr>)"
proof -
  have "keyed_update jr_id f" by unfold_locales (rule assms(3))
  from keyed_update.update_by_key [OF this assms(1,2), of g]
  have "update_rows (\<lambda>x. jr_id x = jr_id j \<and> g x) f (db_jobs d)
      = map (\<lambda>x. if x = j \<and> g j then f j else x) (db_jobs d)" .
  moreover have "0 < affected (\<lambda>x. jr_id x = jr_id j \<and> g x) (db_jobs d) \<longleftrightarrow> g j"
  proof -
    have "x = j" if "x \<in> set (db_jobs d)" "jr_id x = jr_id j" for x
      using assms(1,2) that by (metis distinct_map inj_onD)
    then show ?thesis using assms(2) by (auto simp: affected_def filter_empty_conv)
  qed
  ultimately show ?thesis by (simp add: update_job_def)
qed

lemma publish_job_Ok:
  "publish_job (se_prefix E) (se_acked E) r msg b = Ok b' \<Longrightarrow>
   jm_job_id msg \<in> (jm_job_id \<circ> snd) ` set (bs_jobs b') \<and> set (bs_jobs b) \<subseteq> set (bs_jobs b')"
  unfolding publish_job_def
  by (cases "jm_job_id msg \<in> (jm_job_id \<circ> snd) ` set (bs_jobs b)") (auto simp: image_iff)

lemma publishable_iff: "publishable E r \<longleftrightarrow> (\<exists>b'. publish_job (se_prefix E) (se_acked E) r msg b = Ok b')"
  by (auto simp: publishable_def publish_job_def is_ok_iff split: result.splits)

lemma unqueue_queue: "job_row_ok j \<Longrightarrow> jr_status j = JPending \<Longrightarrow> unqueue_row (queue_row now j) = j"
  by (simp add: unqueue_row_def queue_row_def job_row_ok_def)

abbreviation set_jobs :: "sys \<Rightarrow> job_row list \<Rightarrow> db" where
  "set_jobs s rows \<equiv> (sy_db s)\<lparr>db_jobs := rows\<rparr>"

lemma decided_row_id [simp]: "jr_id (decided_row now dec j) = jr_id j"
  by (cases dec) (simp_all add: set_job_row_def queue_row_def)

lemma decided_row_run [simp]: "jr_run_id (decided_row now dec j) = jr_run_id j"
  by (cases dec) (simp_all add: set_job_row_def queue_row_def)

lemma finish_at:
  assumes "distinct (map jr_id (db_jobs d))" "j \<in> set (db_jobs d)"
  shows "set_job_status now (jr_id j) st err d
    = d\<lparr>db_jobs := map (\<lambda>x. if x = j then set_job_row now st err j else x) (db_jobs d)\<rparr>"
  using update_job_at [OF assms, of "set_job_row now st err" "\<lambda>_. True"]
  by (simp add: set_job_status_def finish_job.key_upd)

lemma enqueue_effect:
  assumes "jobs_ok (sy_db s)" "j \<in> set (db_jobs (sy_db s))" "jr_status j = JPending"
  shows "sy_db (enqueue E run_id j p r s)
      = set_jobs s (map (\<lambda>x. if x = j \<and> publishable E r then queue_row (se_now E) j else x) (db_jobs (sy_db s)))
    \<and> (publishable E r \<longrightarrow> jr_id j \<in> (jm_job_id \<circ> snd) ` set (bs_jobs (sy_bus (enqueue E run_id j p r s))))
    \<and> set (bs_jobs (sy_bus s)) \<subseteq> set (bs_jobs (sy_bus (enqueue E run_id j p r s)))"
proof -
  let ?d = "sy_db s" and ?q = "queue_row (se_now E) j"
  let ?d' = "set_jobs s (map (\<lambda>x. if x = j then ?q else x) (db_jobs ?d))"
  have dist: "distinct (map jr_id (db_jobs ?d))" and row: "job_row_ok j"
    using assms(1,2) by (auto simp: jobs_ok_def)
  have q: "queue_job (se_now E) (jr_id j) ?d = (True, ?d')"
    using update_job_at [OF dist assms(2), of "queue_row (se_now E)" "\<lambda>j. jr_status j = JPending"] assms(3)
    by (simp add: queue_job_def queue.key_upd)
  show ?thesis
  proof (cases "publish_job (se_prefix E) (se_acked E) r
      \<lparr>jm_run_id = run_id, jm_job_id = jr_id j, jm_job_key = jp_key p\<rparr> (sy_bus s)")
    case (Ok b)
    then have "publishable E r" using publishable_iff [of E r] by blast
    with Ok publish_job_Ok [OF Ok] q show ?thesis by (simp add: enqueue_def)
  next
    case (Err e)
    have "map jr_id (db_jobs ?d') = map jr_id (db_jobs ?d)" by (simp add: queue_row_def)
    with dist have dist': "distinct (map jr_id (db_jobs ?d'))" by presburger
    have mem: "?q \<in> set (db_jobs ?d')" and "jr_id ?q = jr_id j" "jr_status ?q = JQueued"
      using assms(2) by (auto simp: queue_row_def)
    with update_job_at [OF dist' mem, of unqueue_row "\<lambda>j. jr_status j = JQueued", OF unqueue.key_upd]
    have u: "snd (unqueue_job (jr_id j) ?d')
        = set_jobs s (map (\<lambda>x. if x = ?q then unqueue_row ?q else x) (map (\<lambda>x. if x = j then ?q else x) (db_jobs ?d)))"
      by (simp add: unqueue_job_def)
    have "x = j" if "x \<in> set (db_jobs ?d)" "x = ?q" for x
      using dist assms(2) that \<open>jr_id ?q = jr_id j\<close> by (metis distinct_map inj_onD)
    then have "map (\<lambda>x. if x = ?q then unqueue_row ?q else x) (map (\<lambda>x. if x = j then ?q else x) (db_jobs ?d)) = db_jobs ?d"
      using unqueue_queue [OF row assms(3), of "se_now E"] by (auto intro!: map_idI)
    moreover have "\<not> publishable E r"
      using Err publishable_iff [of E r] by (metis result.distinct(1))
    ultimately show ?thesis using u q Err by (simp add: enqueue_def)
  qed
qed


lemma advance_job_effect:
  assumes "jobs_ok (sy_db s)" "j \<in> set (db_jobs (sy_db s))"
  shows "sy_db (advance_job E run_id needs ci done s j)
      = set_jobs s (map (\<lambda>x. if x = j then decided_row (se_now E) (decide E needs ci done j) j else x) (db_jobs (sy_db s)))
    \<and> ((\<exists>r. decide E needs ci done j = Enqueue r) \<longrightarrow>
        jr_id j \<in> (jm_job_id \<circ> snd) ` set (bs_jobs (sy_bus (advance_job E run_id needs ci done s j))))
    \<and> set (bs_jobs (sy_bus s)) \<subseteq> set (bs_jobs (sy_bus (advance_job E run_id needs ci done s j)))"
    (is "?P (advance_job E run_id needs ci done s j)")
proof -
  have dist: "distinct (map jr_id (db_jobs (sy_db s)))" using assms(1) by (simp add: jobs_ok_def)
  note fin = finish_at [OF dist assms(2), of "se_now E"]
  have id: "set_jobs s (map (\<lambda>x. if x = j then j else x) (db_jobs (sy_db s))) = sy_db s" by simp
  have bus: "bs_jobs (sy_bus (emit E run_id k ev t)) = bs_jobs (sy_bus t)" for k ev t
    by (simp add: emit_def publish_event_def split: option.split)
  have db: "sy_db (emit E run_id k ev t) = sy_db t" for k ev t by (simp add: emit_def)
  show ?thesis
  proof (cases "jr_status j = JPending")
    case False
    then show ?thesis using id by (simp add: advance_job_def decide_def cong: if_cong)
  next
    case pend: True
    show ?thesis
    proof (cases "se_read_plan E (jr_plan j)")
      case (Err e)
      then show ?thesis by (simp add: advance_job_def decide_def pend fin on_db_def cong: if_cong)
    next
      case plan: (Ok p)
      show ?thesis
      proof (cases "needs_done done p")
        case False
        then show ?thesis using id by (simp add: advance_job_def decide_def pend plan cong: if_cong)
      next
        case nd: True
        show ?thesis
        proof (cases "should_run (se_lib E) p needs ci")
          case (Err e)
          then show ?thesis by (simp add: advance_job_def decide_def pend plan nd fin on_db_def cong: if_cong)
        next
          case run: (Ok b)
          show ?thesis
          proof (cases b)
            case False
            then show ?thesis
              by (simp add: advance_job_def decide_def pend plan nd run fin on_db_def bus db cong: if_cong)
          next
            case True
            then show ?thesis
              using enqueue_effect [OF assms pend, of E run_id p]
              by (cases "route_for (se_pool E) p")
                 (auto simp: advance_job_def decide_def pend plan nd run fin on_db_def id cong: if_cong)
          qed
        qed
      qed
    qed
  qed
qed

lemma decided_row_ok:
  "jr_status j = JPending \<or> decide E needs ci done j = Leave \<Longrightarrow> job_row_ok j \<Longrightarrow>
   job_row_ok (decided_row now (decide E needs ci done j) j)"
  by (cases "decide E needs ci done j") (auto intro: job_row_ok_steps simp: job_terminal_def)

lemma decide_pending: "jr_status j = JPending \<or> decide E needs ci done j = Leave"
  by (simp add: decide_def)

definition advanced_row :: "sched_env \<Rightarrow> json \<Rightarrow> json \<Rightarrow> bool bmap \<Rightarrow> job_row \<Rightarrow> job_row" where
  "advanced_row E needs ci done j = decided_row (se_now E) (decide E needs ci done j) j"

lemma advanced_row_id [simp]: "jr_id (advanced_row E needs ci done j) = jr_id j"
  by (simp add: advanced_row_def)

lemma advance_job_ok:
  assumes "jobs_ok (sy_db s)" "j \<in> set (db_jobs (sy_db s))"
  shows "jobs_ok (sy_db (advance_job E run_id needs ci done s j))"
proof -
  let ?rows = "db_jobs (sy_db s)" and ?r = "advanced_row E needs ci done j"
  have "map jr_id (map (\<lambda>x. if x = j then ?r else x) ?rows) = map jr_id ?rows" by simp
  then have "distinct (map jr_id (map (\<lambda>x. if x = j then ?r else x) ?rows))"
    using assms(1) unfolding jobs_ok_def by presburger
  moreover have "job_row_ok ?r"
    using decided_row_ok [OF decide_pending] assms by (auto simp: advanced_row_def jobs_ok_def)
  ultimately show ?thesis
    using assms(1) advance_job_effect [OF assms, of E run_id needs ci "done", folded advanced_row_def]
    by (auto simp: jobs_ok_def)
qed

lemma advance_jobs_effect:
  assumes "jobs_ok (sy_db s)" "set js \<subseteq> set (db_jobs (sy_db s))" "distinct (map jr_id js)"
  shows "sy_db (foldl (advance_job E run_id needs ci done) s js)
      = set_jobs s (map (\<lambda>x. if x \<in> set js then advanced_row E needs ci done x else x) (db_jobs (sy_db s)))
    \<and> (\<forall>j\<in>set js. (\<exists>r. decide E needs ci done j = Enqueue r) \<longrightarrow>
        jr_id j \<in> (jm_job_id \<circ> snd) ` set (bs_jobs (sy_bus (foldl (advance_job E run_id needs ci done) s js))))
    \<and> set (bs_jobs (sy_bus s)) \<subseteq> set (bs_jobs (sy_bus (foldl (advance_job E run_id needs ci done) s js)))"
  using assms
proof (induction js arbitrary: s)
  case (Cons j js)
  let ?t = "advance_job E run_id needs ci done s j" and ?rows = "db_jobs (sy_db s)"
  let ?dec = "advanced_row E needs ci done"
  from Cons.prems have jm: "j \<in> set ?rows" by simp
  note step = advance_job_effect [OF Cons.prems(1) jm, of E run_id needs ci "done", folded advanced_row_def]
  have t: "sy_db ?t = set_jobs s (map (\<lambda>x. if x = j then ?dec j else x) ?rows)"
    using step by blast
  have notin: "j \<notin> set js" "?dec j \<notin> set js"
    using Cons.prems(3) by (auto simp: image_iff)
  have "set js \<subseteq> set (db_jobs (sy_db ?t))" using Cons.prems(2) notin by (auto simp: t)
  note IH = Cons.IH [OF advance_job_ok [OF Cons.prems(1) jm] this]
  have "map (\<lambda>x. if x \<in> set js then ?dec x else x) (map (\<lambda>x. if x = j then ?dec j else x) ?rows)
      = map (\<lambda>x. if x \<in> set (j # js) then ?dec x else x) ?rows"
    using notin by auto
  with IH Cons.prems(3) t
  have "sy_db (foldl (advance_job E run_id needs ci done) ?t js)
      = set_jobs s (map (\<lambda>x. if x \<in> set (j # js) then ?dec x else x) ?rows)" by simp
  moreover have "set (bs_jobs (sy_bus ?t)) \<subseteq> set (bs_jobs (sy_bus (foldl (advance_job E run_id needs ci done) ?t js)))"
    "\<forall>i\<in>set js. (\<exists>r. decide E needs ci done i = Enqueue r) \<longrightarrow>
       jr_id i \<in> (jm_job_id \<circ> snd) ` set (bs_jobs (sy_bus (foldl (advance_job E run_id needs ci done) ?t js)))"
    using IH Cons.prems(3) by auto
  ultimately show ?case using step by (simp, blast)
qed simp

abbreviation run_needs :: "string \<Rightarrow> sys \<Rightarrow> json" where
  "run_needs run_id s \<equiv> needs_context run_id (sy_db s)"

abbreviation run_scope :: "string \<Rightarrow> sys \<Rightarrow> json" where
  "run_scope run_id s \<equiv> ci_scope (get_run run_id (sy_db s))"

abbreviation run_done :: "string \<Rightarrow> sys \<Rightarrow> bool bmap" where
  "run_done run_id s \<equiv> terminal_map (jobs_of run_id (sy_db s))"

abbreviation run_decision :: "sched_env \<Rightarrow> string \<Rightarrow> sys \<Rightarrow> job_row \<Rightarrow> decision" where
  "run_decision E run_id s \<equiv> decide E (run_needs run_id s) (run_scope run_id s) (run_done run_id s)"

lemma advance_run_effect:
  assumes "jobs_ok (sy_db s)" "advance_run E run_id s = (st, s')"
  shows "db_jobs (sy_db s') = map (\<lambda>j. if jr_run_id j = run_id
        then decided_row (se_now E) (run_decision E run_id s j) j else j) (db_jobs (sy_db s))
    \<and> st = roll_up_status (job_statuses run_id (sy_db s'))
    \<and> (\<forall>j\<in>set (db_jobs (sy_db s)). jr_run_id j = run_id \<and> (\<exists>r. run_decision E run_id s j = Enqueue r) \<longrightarrow>
          jr_id j \<in> (jm_job_id \<circ> snd) ` set (bs_jobs (sy_bus s')))"
proof -
  let ?js = "jobs_of run_id (sy_db s)"
  define t where "t = foldl (advance_job E run_id (run_needs run_id s) (run_scope run_id s) (run_done run_id s)) s ?js"
  from assms(2) have st: "st = roll_up_status (job_statuses run_id (sy_db t))"
    and s': "s' = t\<lparr>sy_db := set_run_status (se_now E) run_id st None (sy_db t)\<rparr>"
    by (auto simp: advance_run_def Let_def t_def roll_up_run_def)
  have "distinct (map jr_id ?js)" using assms(1) by (intro distinct_jobs_of) (simp add: jobs_ok_def)
  moreover have "set ?js \<subseteq> set (db_jobs (sy_db s))" by (auto simp: set_jobs_of)
  ultimately have eff: "sy_db t = set_jobs s (map (\<lambda>x. if x \<in> set ?js
      then decided_row (se_now E) (run_decision E run_id s x) x else x) (db_jobs (sy_db s)))"
    "\<forall>j\<in>set ?js. (\<exists>r. run_decision E run_id s j = Enqueue r) \<longrightarrow> jr_id j \<in> (jm_job_id \<circ> snd) ` set (bs_jobs (sy_bus t))"
    unfolding t_def using advance_jobs_effect [OF assms(1), unfolded advanced_row_def] by blast+
  have "db_jobs (sy_db s') = db_jobs (sy_db t)" "sy_bus s' = sy_bus t" by (simp_all add: s' set_run_status_def)
  moreover from this(1) have "job_statuses run_id (sy_db s') = job_statuses run_id (sy_db t)"
    by (simp add: job_statuses_def)
  ultimately show ?thesis using eff st by (auto simp: set_jobs_of)
qed


lemma decide_Enqueue:
  assumes "decide E needs ci done j = Enqueue r"
  obtains p where "jr_status j = JPending" "se_read_plan E (jr_plan j) = Ok p" "needs_done done p"
    "should_run (se_lib E) p needs ci = Ok True" "route_for (se_pool E) p = Ok r" "publishable E r"
  using assms by (auto simp: decide_def split: if_splits result.splits bool.splits)

lemma decided_queued: "jr_status (decided_row now dec j) = JQueued \<Longrightarrow> jr_status j = JPending \<Longrightarrow> \<exists>r. dec = Enqueue r"
  by (cases dec) (auto simp: set_job_row_def)

text \<open>When the result of a need is neither a failure nor a cancellation and all its cells are finished,
  every cell succeeded or was skipped.\<close>

lemma need_not_failed:
  assumes "\<forall>c\<in>set jobs. jr_base_id c = n \<longrightarrow> job_terminal (jr_status c)" "n \<in> jr_base_id ` set jobs"
    and "map_option fst (bm_get (needs_entries jobs) n) \<notin> {Some ''failure'', Some ''cancelled''}"
    and "c \<in> set jobs" "jr_base_id c = n"
  shows "jr_status c \<in> {JSuccess, JSkipped}"
proof -
  let ?strs = "map (\<lambda>j. job_status_str (jr_status j)) (filter (\<lambda>j. jr_base_id j = n) jobs)"
  let ?res = "foldl worse_of ''success'' ?strs"
  have "?res \<notin> {''failure'', ''cancelled''}" using assms(2,3) by (auto simp: needs_entries_base)
  moreover have "?res \<in> insert ''success'' (set ?strs)" by (rule worse.fold_member)
  moreover have "x \<in> {''success'', ''failure'', ''skipped'', ''cancelled''}" if "x \<in> set ?strs" for x
    using that assms(1) by (auto simp: job_terminal_def)
  ultimately have "?res \<in> {''success'', ''skipped''}" by blast
  then have "status_rank ?res \<le> 1" by (auto simp: status_rank_def)
  moreover have "job_status_str (jr_status c) \<in> set ?strs" using assms(4,5) by auto
  then have "status_rank (job_status_str (jr_status c)) \<le> status_rank ?res"
    using worse.rank_fold_bounds [of "''success''" ?strs] by blast
  ultimately have "status_rank (job_status_str (jr_status c)) \<le> 1" by linarith
  moreover have "job_terminal (jr_status c)" using assms(1,4,5) by blast
  ultimately show ?thesis by (cases "jr_status c") (auto simp: status_rank_def job_terminal_def)
qed

section \<open>Properties\<close>

text \<open>C6. A pass over a run decides every job of it independently, from the state before the pass:
  pending jobs whose needs have all finished are queued with a message published for them, skipped,
  or failed with a reason, a job whose message could not be published is exactly as before, and
  every other job, of this run or another, is untouched. The run then has the status its jobs
  give it.\<close>

theorem advance_run_decides:
  assumes "jobs_ok (sy_db s)" "advance_run E run_id s = (st, s')"
  shows "db_jobs (sy_db s') = map (\<lambda>j. if jr_run_id j = run_id
        then decided_row (se_now E) (run_decision E run_id s j) j else j) (db_jobs (sy_db s))
    \<and> st = roll_up_status (job_statuses run_id (sy_db s'))
    \<and> (\<forall>j\<in>set (db_jobs (sy_db s)). jr_run_id j = run_id \<and> (\<exists>r. run_decision E run_id s j = Enqueue r) \<longrightarrow>
          jr_id j \<in> (jm_job_id \<circ> snd) ` set (bs_jobs (sy_bus s')))"
  using assms by (rule advance_run_effect)

definition sample_env :: sched_env where
  "sample_env = \<lparr>se_now = 9, se_pool = sample_runners [sample_runner ''hd-1'' ''box'' ROnline],
     se_prefix = ''ci'', se_acked = (\<lambda>_. Ok ()), se_read_plan = (\<lambda>p. Ok p), se_show = (\<lambda>_. ''error''),
     se_lib = no_json\<rparr>"

definition sample_sys :: sys where
  "sample_sys = \<lparr>sy_db = sample_db, sy_pool = [], sy_images = [],
     sy_bus = \<lparr>bs_jobs = [], bs_events = []\<rparr>\<rparr>"

lemma sample_sys_ok: "jobs_ok (sy_db sample_sys)"
  by (simp add: sample_sys_def sample_db_def empty_db_def jobs_ok_def job_row_ok_steps)

lemma sample_cell_simps: "jp_needs sample_cell = []" "jp_condition sample_cell = None"
  by (simp_all add: sample_cell_def plan_cell_def sample_job_def substitute_matrix_def Let_def)

abbreviation sample_pending :: job_row where
  "sample_pending \<equiv> new_job_row 1 ''r'' sample_cell"

lemma sample_pending_row:
  "sample_pending \<in> set (db_jobs (sy_db sample_sys))" "jr_run_id sample_pending = ''r''"
  "jr_status sample_pending = JPending" "jr_plan sample_pending = sample_cell"
  by (simp_all add: sample_sys_def sample_db_def new_job_row_def)

lemma sample_decision: "run_decision sample_env ''r'' sample_sys sample_pending = Enqueue (RNetwork ''net-1'')"
proof -
  have run: "should_run no_json sample_cell (run_needs ''r'' sample_sys) (run_scope ''r'' sample_sys) = Ok True"
    by (simp add: should_run_def any_need_failed_def sample_cell_simps)
  have tgt: "jp_target sample_cell = target_any"
    by (simp add: sample_cell_def plan_cell_def substitute_matrix_def Let_def target_any_def)
  have route: "route_for (se_pool sample_env) sample_cell = Ok (RNetwork ''net-1'')"
    by (simp add: route_for_def place_def network_of_def tgt target_any_def sample_env_def sample_runners_def
        default_set_def ok_or_def)
  have "is_subject_token ''net-1''" by code_simp
  then have pub: "publishable sample_env (RNetwork ''net-1'')"
    by (simp add: publishable_def subject_for_def sample_env_def check_token_def)
  show ?thesis
    using run route pub sample_pending_row(3,4)
    by (simp add: decide_def needs_done_def sample_cell_simps sample_env_def)
qed

theorem advance_run_decides_witness:
  "queue_row 9 sample_pending \<in> set (db_jobs (sy_db (snd (advance_run sample_env ''r'' sample_sys))))"
proof -
  obtain st s' where a: "advance_run sample_env ''r'' sample_sys = (st, s')" by fastforce
  have "queue_row 9 sample_pending \<in> set (db_jobs (sy_db s'))"
    using advance_run_decides [OF sample_sys_ok a] sample_decision sample_pending_row
    by (force simp: sample_env_def)
  then show ?thesis by (simp add: a)
qed

text \<open>C7. Nothing is started before what it needs: a job that a pass moves to the queue has, for each of
  its needs, at least one cell, all of them finished, and unless the job has a condition of its own
  every one of them succeeded or was skipped.\<close>

theorem queued_only_when_ready:
  assumes "jobs_ok (sy_db s)" "advance_run E run_id s = (st, s')"
    and "j \<in> set (db_jobs (sy_db s))" "jr_run_id j = run_id" "jr_status j = JPending"
    and "j' \<in> set (db_jobs (sy_db s'))" "jr_id j' = jr_id j" "jr_status j' = JQueued"
  shows "\<exists>p. se_read_plan E (jr_plan j) = Ok p
    \<and> (\<forall>n\<in>set (jp_needs p).
        (\<exists>c\<in>set (db_jobs (sy_db s)). jr_run_id c = run_id \<and> jr_base_id c = n)
        \<and> (\<forall>c\<in>set (db_jobs (sy_db s)). jr_run_id c = run_id \<and> jr_base_id c = n \<longrightarrow>
             job_terminal (jr_status c) \<and> (jp_condition p = None \<longrightarrow> jr_status c \<in> {JSuccess, JSkipped})))"
proof -
  note eff = advance_run_effect [OF assms(1,2)]
  from eff assms(6) obtain x where x: "x \<in> set (db_jobs (sy_db s))"
    "j' = (if jr_run_id x = run_id then decided_row (se_now E) (run_decision E run_id s x) x else x)"
    by auto
  then have "jr_id x = jr_id j" using assms(7) by (auto split: if_splits)
  then have "x = j"
    using x(1) assms(1,3) by (auto simp: jobs_ok_def dest: distinct_map [THEN iffD1, THEN conjunct2, THEN inj_onD])
  with x(2) assms(4,5,8) decided_queued obtain r where "run_decision E run_id s j = Enqueue r" by metis
  then obtain p where p: "se_read_plan E (jr_plan j) = Ok p" "needs_done (run_done run_id s) p"
    "should_run (se_lib E) p (run_needs run_id s) (run_scope run_id s) = Ok True"
    by (rule decide_Enqueue)
  let ?jobs = "jobs_of run_id (sy_db s)"
  have fin: "\<forall>n\<in>set (jp_needs p). n \<in> jr_base_id ` set ?jobs
      \<and> (\<forall>c\<in>set ?jobs. jr_base_id c = n \<longrightarrow> job_terminal (jr_status c))"
    using p(2) by (simp add: needs_done_iff)
  moreover have "jr_status c \<in> {JSuccess, JSkipped}"
    if n: "n \<in> set (jp_needs p)" "jp_condition p = None" "c \<in> set ?jobs" "jr_base_id c = n" for n c
  proof (rule need_not_failed [OF _ _ _ n(3,4)])
    show "\<forall>c\<in>set ?jobs. jr_base_id c = n \<longrightarrow> job_terminal (jr_status c)" "n \<in> jr_base_id ` set ?jobs"
      using fin n(1) by auto
    show "map_option fst (bm_get (needs_entries ?jobs) n) \<notin> {Some ''failure'', Some ''cancelled''}"
      using p(3) n(1,2)
      by (auto simp: should_run_def any_need_failed_def list_ex_iff need_result_context)
  qed
  ultimately show ?thesis using p(1) by (fastforce simp: set_jobs_of)
qed

theorem queued_only_when_ready_witness:
  "\<exists>p. se_read_plan sample_env sample_cell = Ok p \<and> jp_needs p = []"
proof -
  obtain st s' where a: "advance_run sample_env ''r'' sample_sys = (st, s')" by fastforce
  have "queue_row 9 sample_pending \<in> set (db_jobs (sy_db s'))"
    using advance_run_effect [OF sample_sys_ok a] sample_decision sample_pending_row
    by (force simp: sample_env_def)
  from queued_only_when_ready [OF sample_sys_ok a sample_pending_row(1-3) this] sample_pending_row(4)
  show ?thesis by (auto simp: queue_row_def sample_env_def sample_cell_simps)
qed

lemma decided_not_cancelled: "jr_status (decided_row now dec x) = JCancelled \<Longrightarrow> jr_status x = JCancelled"
  by (cases dec) (auto simp: set_job_row_def queue_row_def)

lemma set_run_status_row:
  "\<forall>r\<in>set (db_runs (set_run_status now run_id st err d)). rn_id r = run_id \<longrightarrow> rn_status r = st"
  by (simp add: set_run_status_def ball_update_rows set_run_row_def)

lemma advance_run_status:
  assumes "advance_run E run_id s = (st, s')"
  shows "\<forall>r\<in>set (db_runs (sy_db s')). rn_id r = run_id \<longrightarrow> rn_status r = st"
proof -
  from assms obtain d where "sy_db s' = set_run_status (se_now E) run_id st None d"
    by (auto simp: advance_run_def Let_def roll_up_run_def)
  then show ?thesis by (simp add: set_run_status_row)
qed

text \<open>After a failure the dependents of a skipped job are stranded: a pending job whose need has a cell
  that was not finished when the pass began stays pending, the run is rolled up as failed, and the
  pass that looks for stalled runs never returns to it.\<close>

lemma stranded_dependent:
  assumes "jobs_ok (sy_db s)" "advance_run E run_id s = (st, s')"
    and "a \<in> set (db_jobs (sy_db s))" "jr_run_id a = run_id" "jr_status a = JFailure"
    and "\<forall>x\<in>set (db_jobs (sy_db s)). jr_run_id x = run_id \<longrightarrow> jr_status x \<noteq> JCancelled"
    and "b \<in> set (db_jobs (sy_db s))" "jr_run_id b = run_id" "\<not> job_terminal (jr_status b)"
    and "c \<in> set (db_jobs (sy_db s))" "jr_run_id c = run_id" "jr_status c = JPending"
    and "se_read_plan E (jr_plan c) = Ok p" "jr_base_id b \<in> set (jp_needs p)"
  shows "c \<in> set (db_jobs (sy_db s'))" "st = RFailure" "run_id \<notin> set (runs_with_pending_jobs k (sy_db s'))"
proof -
  note eff = advance_run_effect [OF assms(1,2)]
  have "run_decision E run_id s c = Leave"
    using assms(7-9,12-14) by (auto simp: decide_def needs_done_iff set_jobs_of)
  then show "c \<in> set (db_jobs (sy_db s'))" using eff assms(10,11) by force
  have "run_decision E run_id s a = Leave" using assms(5) by (simp add: decide_def)
  then have "a \<in> set (db_jobs (sy_db s'))" using eff assms(3,4) by force
  then have "JFailure \<in> set (job_statuses run_id (sy_db s'))"
    using assms(4,5) by (force simp: job_statuses_def)
  moreover have "\<forall>x\<in>set (db_jobs (sy_db s')). jr_run_id x = run_id \<longrightarrow> jr_status x \<noteq> JCancelled"
  proof (intro ballI impI notI)
    fix x assume "x \<in> set (db_jobs (sy_db s'))" "jr_run_id x = run_id" "jr_status x = JCancelled"
    moreover obtain y where "y \<in> set (db_jobs (sy_db s))"
      "x = (if jr_run_id y = run_id then decided_row (se_now E) (run_decision E run_id s y) y else y)"
      using calculation(1) unfolding conjunct1 [OF eff] by auto
    ultimately show False
      using assms(6) decided_not_cancelled [of "se_now E" "run_decision E run_id s y" y] by (auto split: if_splits)
  qed
  then have "JCancelled \<notin> set (job_statuses run_id (sy_db s'))" by (auto simp: job_statuses_def)
  ultimately show st: "st = RFailure"
    using eff by (auto simp: roll_up_status_def list_ex_iff)
  have "\<forall>r\<in>set (db_runs (sy_db s')). rn_id r = run_id \<longrightarrow> rn_status r = RFailure"
    using advance_run_status [OF assms(2)] st by blast
  then show "run_id \<notin> set (runs_with_pending_jobs k (sy_db s'))"
    by (auto simp: runs_with_pending_jobs_def terminal_simps dest!: in_set_takeD)
qed

text \<open>The check whether a waiting job's host came back never helps: a queued job has no host yet.\<close>

lemma waiting_job_never_online:
  assumes "jobs_ok d" "j \<in> set (jobs_waiting_longer_than now wait k d)"
  shows "\<not> host_online pool (jr_runner_hd_id j)"
proof -
  from assms(2) have "j \<in> set (db_jobs d)" "jr_status j = JQueued"
    by (auto simp: jobs_waiting_longer_than_def dest!: in_set_takeD)
  with assms(1) have "jr_runner_hd_id j = None" by (auto simp: jobs_ok_def job_row_ok_def)
  then show ?thesis by (simp add: host_online_def)
qed

end
