(* ===== verification/Artifacts.thy ===== *)
theory Artifacts
  imports VmPool
begin

text \<open>
  \<^verbatim>\<open>src/src/artifacts.rs\<close>: the names artifacts get, the three sinks and the request sequence of the
  content-addressed store.

  The file system, the store behind HTTP and the hash are outside the program: what they answer is
  in an argument, and the requests a put makes are part of its result.
\<close>

section \<open>Names\<close>

record artifact_ref =
  af_run_id :: string
  af_job_key :: string
  af_workflow_id :: string
  af_name :: string

record stored_artifact =
  st_sink :: string
  st_digest :: "string option"
  st_size_bytes :: nat
  st_uri :: string

definition safe_char :: "char \<Rightarrow> char" where
  "safe_char c =
     (if is_ascii_alphanumeric c \<or> c \<in> {CHR ''-'', CHR ''_'', CHR ''.''} then c else CHR ''-'')"

definition safe :: "string \<Rightarrow> string" where
  "safe s =
     (let out = map safe_char s
      in if list_all (\<lambda>c. c = CHR ''.'') out then ''-'' else out)"

definition tag_for :: "artifact_ref \<Rightarrow> string" where
  "tag_for r =
     (let raw = ''ci-'' @ safe (af_workflow_id r) @ ''-'' @ safe (af_run_id r) @ ''-''
                @ safe (af_job_key r) @ ''-'' @ safe (af_name r);
          tag = dropWhile (\<lambda>c. c = CHR ''-'' \<or> c = CHR ''.'') (take 64 raw)
      in if tag = [] then ''ci-artifact'' else tag)"

definition manifest_for :: "artifact_ref \<Rightarrow> string \<Rightarrow> nat \<Rightarrow> json" where
  "manifest_for r digest bytes =
     JObj (bm_of [
       (''schema'', JNum (NInt 1)),
       (''kind'', JStr ''generic''),
       (''entries'', JArr [JObj (bm_of [(''name'', JStr (af_name r)), (''digest'', JStr digest),
                                         (''size'', JNum (NInt (int bytes)))])]),
       (''annotations'', JObj (bm_of [(''ci.workflow'', JStr (af_workflow_id r)),
          (''ci.run'', JStr (af_run_id r)), (''ci.job'', JStr (af_job_key r)),
          (''ci.name'', JStr (af_name r))]))])"

section \<open>Sinks\<close>

datatype artifact_error =
    Misconfigured string
  | ArtifactIo string
  | ArtifactTransport string
  | StoreRefused string nat string string
  | NotImplemented string string

datatype artifact_sink_kind = DiskKind | S3Kind | ArtifactsKind

definition parse_sink_kind :: "string \<Rightarrow> artifact_sink_kind option" where
  "parse_sink_kind raw =
     (let k = to_ascii_lowercase (trim raw) in
      if k \<in> {''disk'', ''file'', ''local''} then Some DiskKind
      else if k = ''s3'' then Some S3Kind
      else if k \<in> {''artifacts'', ''art''} then Some ArtifactsKind
      else None)"

record artifact_config =
  ac_sink :: artifact_sink_kind
  ac_dir :: string
  ac_s3 :: "(string \<times> string) option"
  ac_url :: "string option"

text \<open>A sink: a directory, a bucket with a key prefix, or the URL of a store.\<close>

datatype artifact_sink = DiskSink string | S3Sink string string | ArtifactsSink string

definition sink_for :: "artifact_config \<Rightarrow> (artifact_error, artifact_sink) result" where
  "sink_for cfg =
     (case ac_sink cfg of
        DiskKind \<Rightarrow> Ok (DiskSink (ac_dir cfg))
      | S3Kind \<Rightarrow>
          (case ac_s3 cfg of
             None \<Rightarrow> Err (Misconfigured ''CI_S3_BUCKET is not set'')
           | Some (bucket, pre) \<Rightarrow> Ok (S3Sink bucket pre))
      | ArtifactsKind \<Rightarrow>
          (case ac_url cfg of
             None \<Rightarrow> Err (Misconfigured ''CI_ARTIFACT_URL is not set'')
           | Some url \<Rightarrow> Ok (ArtifactsSink url)))"

definition disk_dir :: "string \<Rightarrow> artifact_ref \<Rightarrow> string" where
  "disk_dir root r = path_join (path_join root (safe (af_run_id r))) (safe (af_job_key r))"

definition key_for :: "string \<Rightarrow> artifact_ref \<Rightarrow> string" where
  "key_for pre r =
     trim_end_char (CHR ''/'') (trim_start_char (CHR ''/'') pre) @ ''/'' @ safe (af_run_id r) @ ''/''
     @ safe (af_job_key r) @ ''/'' @ safe (af_name r)"

section \<open>Requests\<close>

text \<open>An answer over HTTP is a transport error or a status with the body decoded as JSON, if it can be.\<close>

type_synonym answer = "(string, nat \<times> (string, json) result) result"

datatype request =
    MakeDir string
  | WriteFile string string
  | HeadBlob string
  | PutBlob string string
  | PutManifest string json
  | PutTag string string

definition is_success :: "nat \<Rightarrow> bool" where
  "is_success status \<longleftrightarrow> 200 \<le> status \<and> status < 300"

fun json_str_field :: "json \<Rightarrow> string \<Rightarrow> string option" where
  "json_str_field (JObj kvs) k = (case map_of kvs k of Some (JStr s) \<Rightarrow> Some s | _ \<Rightarrow> None)"
| "json_str_field _ k = None"

definition check_response :: "string \<Rightarrow> answer \<Rightarrow> (artifact_error, (string, json) result) result" where
  "check_response what a =
     (case a of
        Err e \<Rightarrow> Err (ArtifactTransport e)
      | Ok (status, body) \<Rightarrow>
          if is_success status then Ok body
          else
            (let b = (case body of Ok v \<Rightarrow> v | Err _ \<Rightarrow> JNull) in
             Err (StoreRefused what status
               (case json_str_field b ''error'' of Some s \<Rightarrow> s | None \<Rightarrow> [])
               (case json_str_field b ''message'' of Some s \<Rightarrow> s | None \<Rightarrow> ''no detail''))))"

text \<open>What the outside answers to a request, and the hash.\<close>

record artifact_env =
  ae_io :: "request \<Rightarrow> (string, unit) result"
  ae_http :: "request \<Rightarrow> answer"
  ae_sha :: "string \<Rightarrow> string"

definition blob_requests :: "artifact_env \<Rightarrow> string \<Rightarrow> string \<Rightarrow> string
    \<Rightarrow> request list \<times> (artifact_error, unit) result" where
  "blob_requests env base digest bytes =
     (let head = HeadBlob (base @ ''/blobs/'' @ digest);
          put = PutBlob (base @ ''/blobs/'' @ digest) bytes in
      (case ae_http env head of
         Err e \<Rightarrow> ([head], Err (ArtifactTransport e))
       | Ok (status, _) \<Rightarrow>
           if is_success status then ([head], Ok ())
           else ([head, put],
                 and_then (check_response ''uploading a blob'' (ae_http env put)) (\<lambda>_. Ok ()))))"

definition manifest_digest :: "string \<Rightarrow> json \<Rightarrow> string" where
  "manifest_digest digest body =
     (case json_str_field body ''digest'' of Some d \<Rightarrow> d | None \<Rightarrow> digest)"

definition store_put :: "artifact_env \<Rightarrow> string \<Rightarrow> artifact_ref \<Rightarrow> string
    \<Rightarrow> request list \<times> (artifact_error, stored_artifact) result" where
  "store_put env base r bytes =
     (let digest = hex_encode (ae_sha env bytes);
          (blob, b) = blob_requests env base digest bytes;
          man = PutManifest (base @ ''/manifests'') (manifest_for r digest (length bytes)) in
      (case b of
         Err e \<Rightarrow> (blob, Err e)
       | Ok _ \<Rightarrow>
           (case and_then (check_response ''storing a manifest'' (ae_http env man)) (map_err ArtifactTransport) of
              Err e \<Rightarrow> (blob @ [man], Err e)
            | Ok body \<Rightarrow>
                (let tag = PutTag (base @ ''/tags/'' @ tag_for r) (manifest_digest digest body) in
                 (blob @ [man, tag],
                  and_then (check_response ''setting a tag'' (ae_http env tag)) (\<lambda>_.
                    Ok \<lparr>st_sink = ''artifacts'', st_digest = Some digest,
                        st_size_bytes = length bytes, st_uri = tag_for r\<rparr>))))))"

definition disk_put :: "artifact_env \<Rightarrow> string \<Rightarrow> artifact_ref \<Rightarrow> string
    \<Rightarrow> request list \<times> (artifact_error, stored_artifact) result" where
  "disk_put env root r bytes =
     (let dir = disk_dir root r; path = path_join dir (safe (af_name r));
          mk = MakeDir dir; wr = WriteFile path bytes in
      (case ae_io env mk of
         Err e \<Rightarrow> ([mk], Err (ArtifactIo (dir @ '': '' @ e)))
       | Ok _ \<Rightarrow>
           ([mk, wr],
            (case ae_io env wr of
               Err e \<Rightarrow> Err (ArtifactIo (path @ '': '' @ e))
             | Ok _ \<Rightarrow> Ok \<lparr>st_sink = ''disk'', st_digest = None, st_size_bytes = length bytes,
                          st_uri = path\<rparr>))))"

fun put_artifact :: "artifact_env \<Rightarrow> artifact_sink \<Rightarrow> artifact_ref \<Rightarrow> string
    \<Rightarrow> request list \<times> (artifact_error, stored_artifact) result" where
  "put_artifact env (DiskSink root) r bytes = disk_put env root r bytes"
| "put_artifact env (S3Sink bucket pre) r bytes =
     ([], Err (NotImplemented ''s3''
            (''would upload '' @ af_name r @ '' to s3://'' @ bucket @ ''/'' @ key_for pre r)))"
| "put_artifact env (ArtifactsSink base) r bytes = store_put env base r bytes"

section \<open>Names are safe\<close>

definition store_char :: "char \<Rightarrow> bool" where
  "store_char c \<longleftrightarrow> is_ascii_alphanumeric c \<or> c \<in> {CHR ''-'', CHR ''_'', CHR ''.''}"

definition safe_component :: "string \<Rightarrow> bool" where
  "safe_component s \<longleftrightarrow> s \<noteq> [] \<and> s \<noteq> ''.'' \<and> s \<noteq> ''..'' \<and> CHR ''/'' \<notin> set s"

lemma store_char_safe: "store_char (safe_char c)"
  by (auto simp: store_char_def safe_char_def)

lemma safe_store_chars: "\<forall>c\<in>set (safe s). store_char c"
  using store_char_safe by (auto simp: safe_def Let_def) (simp add: store_char_def)

lemma store_char_not_slash: "store_char c \<Longrightarrow> c \<noteq> CHR ''/''"
  by (auto simp: store_char_def is_ascii_alphanumeric_def is_ascii_digit_def is_ascii_lower_def
      is_ascii_upper_def less_eq_char_def)

lemma safe_safe_component: "safe_component (safe s)"
proof -
  have "safe s \<noteq> []" "safe s \<noteq> ''.''" "safe s \<noteq> ''..''"
    by (auto simp: safe_def Let_def)
  moreover have "CHR ''/'' \<notin> set (safe s)" using safe_store_chars store_char_not_slash by blast
  ultimately show ?thesis by (simp add: safe_component_def)
qed

lemma tag_for_prefix: "prefix ''ci-'' (tag_for r)"
  by (simp add: tag_for_def Let_def)

lemma tag_for_chars: "list_all store_char (tag_for r)" "length (tag_for r) \<le> 64"
proof -
  have "list_all store_char (safe s)" for s using safe_store_chars by (simp add: list_all_iff)
  moreover have "list_all store_char (take n xs)" if "list_all store_char xs" for n xs
    using that by (auto simp: list_all_iff dest: in_set_takeD)
  ultimately show "list_all store_char (tag_for r)"
    by (simp add: tag_for_def Let_def) (simp add: store_char_def is_ascii_alphanumeric_def
        is_ascii_lower_def less_eq_char_def)
  show "length (tag_for r) \<le> 64" by (simp add: tag_for_def Let_def)
qed

lemma split_on_path_join:
  assumes "root \<noteq> []" "last root \<noteq> CHR ''/''" "CHR ''/'' \<notin> set c"
  shows "split_on (CHR ''/'') (path_join root c) = split_on (CHR ''/'') root @ [c]"
proof -
  have "split_on d (a @ d # c) = split_on d a @ [c]" if "d \<notin> set c" for d a
  proof (induction a)
    case (Cons x a)
    then show ?case by (cases "split_on d a") auto
  qed (simp add: split_on_single [OF that])
  with assms show ?thesis by (simp add: path_join_def)
qed

lemma path_join_end: "c \<noteq> [] \<Longrightarrow> CHR ''/'' \<notin> set c \<Longrightarrow> path_join root c \<noteq> [] \<and> last (path_join root c) \<noteq> CHR ''/''"
  using last_in_set [of c] by (metis append_is_Nil_conv last_appendR list.distinct(1) path_join_def)

abbreviation accepted :: "artifact_env \<Rightarrow> request \<Rightarrow> bool" where
  "accepted env q \<equiv> case ae_http env q of Ok (status, _) \<Rightarrow> is_success status | Err _ \<Rightarrow> False"

lemma check_response_Ok: "check_response what q = Ok x \<Longrightarrow> \<exists>status. q = Ok (status, x) \<and> is_success status"
  by (auto simp: check_response_def Let_def split: result.splits prod.splits if_splits)

lemma blob_requests_Ok:
  "blob_requests env base d bytes = (blob, Ok ()) \<Longrightarrow>
     (last blob = HeadBlob (base @ ''/blobs/'' @ d) \<or> last blob = PutBlob (base @ ''/blobs/'' @ d) bytes)
     \<and> accepted env (last blob)"
  by (auto simp: blob_requests_def Let_def split: result.splits if_splits dest!: check_response_Ok)

section \<open>Properties\<close>

text \<open>C35. Whatever an artifact, a job or a workflow is called, the tag has 1 to 64 characters of the
  store's alphabet and starts with neither a dash nor a dot, and on disk the file is exactly three
  directories below the root: no part of its path is empty, \<^verbatim>\<open>.\<close>, \<^verbatim>\<open>..\<close> or contains a slash.\<close>

theorem artifact_names_safe:
  assumes "root \<noteq> []" "last root \<noteq> CHR ''/''"
  shows "list_all store_char (tag_for r) \<and> 1 \<le> length (tag_for r) \<and> length (tag_for r) \<le> 64
    \<and> hd (tag_for r) \<noteq> CHR ''-'' \<and> hd (tag_for r) \<noteq> CHR ''.''
    \<and> (\<exists>a b c. split_on (CHR ''/'') (path_join (disk_dir root r) (safe (af_name r)))
                = split_on (CHR ''/'') root @ [a, b, c]
         \<and> safe_component a \<and> safe_component b \<and> safe_component c)"
proof -
  obtain rest where tag: "tag_for r = ''ci-'' @ rest" using tag_for_prefix by (auto simp: prefix_def)
  have slash: "CHR ''/'' \<notin> set (safe s)" "safe s \<noteq> []" for s
    using safe_safe_component by (auto simp: safe_component_def)
  have "split_on (CHR ''/'') (path_join (disk_dir root r) (safe (af_name r)))
      = split_on (CHR ''/'') root @ [safe (af_run_id r), safe (af_job_key r), safe (af_name r)]"
    unfolding disk_dir_def using assms by (simp add: split_on_path_join slash path_join_end)
  then show ?thesis using tag_for_chars [of r] safe_safe_component by (auto simp: tag)
qed

definition sample_ref :: artifact_ref where
  "sample_ref = \<lparr>af_run_id = ''r1'', af_job_key = ''..'', af_workflow_id = ''app'', af_name = ''../x''\<rparr>"

theorem artifact_names_safe_witness:
  "length (tag_for sample_ref) \<le> 64
   \<and> path_join (disk_dir ''out'' sample_ref) (safe (af_name sample_ref)) = ''out/r1/-/..-x''"
proof -
  have "length (tag_for sample_ref) \<le> 64" using artifact_names_safe [of "''out''" sample_ref] by simp
  moreover have "path_join (disk_dir ''out'' sample_ref) (safe (af_name sample_ref)) = ''out/r1/-/..-x''"
    by code_simp
  ultimately show ?thesis by blast
qed

text \<open>An artifact is reported stored only when it is: on disk its bytes were written to the reported
  path, in the store the blob was there or accepted, then a manifest that names its digest and size
  was accepted, and then the reported tag, in this order. The S3 sink never reports success.\<close>

theorem put_artifact_stored:
  assumes "put_artifact env sink r bytes = (reqs, Ok a)"
  shows "st_size_bytes a = length bytes
    \<and> (case sink of
         DiskSink root \<Rightarrow> last reqs = WriteFile (st_uri a) bytes \<and> ae_io env (last reqs) = Ok ()
       | S3Sink bucket pre \<Rightarrow> False
       | ArtifactsSink base \<Rightarrow>
           (\<exists>d blob man tag.
              st_digest a = Some d \<and> d = hex_encode (ae_sha env bytes)
              \<and> reqs = blob @ [PutManifest (base @ ''/manifests'') man, PutTag (base @ ''/tags/'' @ st_uri a) tag]
              \<and> man = manifest_for r d (length bytes)
              \<and> (last blob = HeadBlob (base @ ''/blobs/'' @ d) \<or> last blob = PutBlob (base @ ''/blobs/'' @ d) bytes)
              \<and> list_all (accepted env) [last blob, PutManifest (base @ ''/manifests'') man, PutTag (base @ ''/tags/'' @ st_uri a) tag]))"
proof (cases sink)
  case (DiskSink root)
  with assms show ?thesis by (auto simp: disk_put_def Let_def split: result.splits)
next
  case (S3Sink bucket pre)
  with assms show ?thesis by simp
next
  case (ArtifactsSink base)
  let ?d = "hex_encode (ae_sha env bytes)"
  obtain blob b where blob: "blob_requests env base ?d bytes = (blob, b)" by fastforce
  with assms ArtifactsSink obtain body where ok: "b = Ok ()"
    and man: "check_response ''storing a manifest'' (ae_http env (PutManifest (base @ ''/manifests'')
        (manifest_for r ?d (length bytes)))) = Ok (Ok body)"
    and reqs: "reqs = blob @ [PutManifest (base @ ''/manifests'') (manifest_for r ?d (length bytes)),
        PutTag (base @ ''/tags/'' @ tag_for r) (manifest_digest ?d body)]"
    and tag: "\<exists>x. check_response ''setting a tag'' (ae_http env (PutTag (base @ ''/tags/'' @ tag_for r)
        (manifest_digest ?d body))) = Ok x"
    and a: "a = \<lparr>st_sink = ''artifacts'', st_digest = Some ?d, st_size_bytes = length bytes, st_uri = tag_for r\<rparr>"
    by (auto simp: store_put_def Let_def split: result.splits)
  from blob ok have "(last blob = HeadBlob (base @ ''/blobs/'' @ ?d) \<or> last blob = PutBlob (base @ ''/blobs/'' @ ?d) bytes)
     \<and> accepted env (last blob)" by (intro blob_requests_Ok) simp
  moreover from check_response_Ok [OF man] tag have
    "accepted env (PutManifest (base @ ''/manifests'') (manifest_for r ?d (length bytes)))"
    "accepted env (PutTag (base @ ''/tags/'' @ tag_for r) (manifest_digest ?d body))"
    by (auto dest!: check_response_Ok)
  ultimately show ?thesis unfolding ArtifactsSink a reqs by simp
qed

definition sample_store :: artifact_env where
  "sample_store = \<lparr>ae_io = (\<lambda>_. Ok ()),
     ae_http = (\<lambda>q. Ok (case q of HeadBlob _ \<Rightarrow> 404 | _ \<Rightarrow> 201, Ok JNull)), ae_sha = (\<lambda>_. ''x'')\<rparr>"

theorem put_artifact_stored_witness:
  "\<exists>reqs a. put_artifact sample_store (ArtifactsSink ''http://s'') sample_ref ''data'' = (reqs, Ok a)
     \<and> st_size_bytes a = 4 \<and> length reqs = 4"
proof -
  obtain reqs a where put: "put_artifact sample_store (ArtifactsSink ''http://s'') sample_ref ''data'' = (reqs, Ok a)"
    and len: "length reqs = 4"
    by (simp add: store_put_def blob_requests_def Let_def sample_store_def is_success_def check_response_def)
  from put_artifact_stored [OF put] put len show ?thesis by simp
qed

end
