(* ===== verification/Steps.thy ===== *)
theory Steps
  imports Schedule Secrets Artifacts
begin

text \<open>
  Running the steps of a job in a VM (\<^verbatim>\<open>run_steps\<close>, \<^verbatim>\<open>run_action\<close> and the helpers at the end of
  \<^verbatim>\<open>src/src/dispatch.rs\<close>).

  The guest is outside the program. A record holds what the daemon answers to an exec request, what
  other processes do to the database before a step begins (a run may be cancelled at any time), the
  times of the database's clock, the secret store, the artifact store, the base64 decoder and the
  printers of errors. Log files are the list of texts appended to them, in order.
\<close>

section \<open>Shell text\<close>

definition DEFAULT_WORKDIR :: string where
  "DEFAULT_WORKDIR = ''/workspace''"

text \<open>Seconds.\<close>

definition DEFAULT_STEP_TIMEOUT :: nat where
  "DEFAULT_STEP_TIMEOUT = 30 * 60"

definition NL :: char where
  "NL = CHR 0x0A"

definition shell_quote :: "string \<Rightarrow> string" where
  "shell_quote s = [SQ] @ replace_all [SQ] [SQ, BS, SQ, SQ] s @ [SQ]"

definition output_marker :: "string \<Rightarrow> string" where
  "output_marker sid = ''::ci-output::'' @ sid @ ''::''"

definition wrap_command :: "string \<Rightarrow> step \<Rightarrow> string \<Rightarrow> string \<Rightarrow> string" where
  "wrap_command script st sid default_wd =
     (let wd = (case sp_working_directory st of Some w \<Rightarrow> w | None \<Rightarrow> default_wd);
          cd = ''cd '' @ shell_quote wd @ '' && '' in
      ''export CI_OUTPUT=\"${CI_OUTPUT:-/tmp/ci-output-'' @ sid @ ''}\"; : > \"$CI_OUTPUT\"; '' @ cd
      @ ''{ '' @ script @ [NL] @ ''}; __ci_rc=$?; printf '' @ [SQ, BS] @ ''n%s'' @ [BS] @ ''n'' @ [SQ]
      @ '' '' @ [SQ] @ output_marker sid @ [SQ]
      @ ''; cat \"$CI_OUTPUT\" 2>/dev/null; exit $__ci_rc'')"

definition output_line :: "json bmap \<Rightarrow> string \<Rightarrow> json bmap" where
  "output_line m line =
     (case split_once (CHR ''='') line of
        None \<Rightarrow> m
      | Some (k, v) \<Rightarrow> if trim k = [] then m else bm_insert (trim k) (JStr v) m)"

definition split_outputs :: "exec_output \<Rightarrow> string \<Rightarrow> string \<times> json" where
  "split_outputs out sid =
     (let text' = combined out; marker = output_marker sid in
      (case rfind_sub marker text' of
         None \<Rightarrow> (text', JObj [])
       | Some pos \<Rightarrow>
           (let tail = drop (pos + length marker) text'
            in (trim_end (take pos text'), JObj (foldl output_line [] (str_lines tail))))))"

section \<open>The environment of a step\<close>

definition config_env :: "job_plan \<Rightarrow> string bmap" where
  "config_env p = bm_of [(''CI'', ''true''), (''CI_JOB'', jp_base_id p), (''CI_JOB_KEY'', jp_key p)]"

definition put_env :: "(string \<Rightarrow> string) \<Rightarrow> string bmap \<Rightarrow> string bmap \<Rightarrow> string bmap" where
  "put_env f kvs env = foldl (\<lambda>m (k, v). bm_insert k (f v) m) env kvs"

definition step_env :: "json_lib \<Rightarrow> job_plan \<Rightarrow> step \<Rightarrow> expr_ctx \<Rightarrow> string bmap" where
  "step_env L p st ctx =
     put_env (substitute L ctx) (sp_env st)
       (put_env (substitute L ctx) (jp_env p) (put_env id (config_env p) []))"

section \<open>The outside, and what a job leaves behind\<close>

text \<open>\<open>gu_start\<close> is the answer to starting an operation, \<open>gu_polls\<close> the answers to the polls before the
  deadline with the time each came, \<open>gu_last\<close> the first answer at or after it.\<close>

record guest =
  gu_vm :: string
  gu_start :: "string \<Rightarrow> string \<Rightarrow> string bmap \<Rightarrow> nat \<Rightarrow> (heyo_error, exec_record) result"
  gu_polls :: "string \<Rightarrow> (nat \<times> (heyo_error, exec_record) result) list"
  gu_last :: "string \<Rightarrow> (heyo_error, exec_record) result"
  gu_others :: "string \<Rightarrow> db \<Rightarrow> db"
  gu_started :: "string \<Rightarrow> nat"
  gu_finished :: "string \<Rightarrow> nat"
  gu_log_root :: string
  gu_configured :: bool
  gu_list :: "string \<Rightarrow> (secrets_error, secret_meta list) result"
  gu_read :: "string \<Rightarrow> (secrets_error, string) result"
  gu_show_secrets :: "secrets_error \<Rightarrow> string"
  gu_show :: "dispatch_error \<Rightarrow> string"
  gu_quote :: "string \<Rightarrow> string"
  gu_unbase64 :: "string \<Rightarrow> (string, string) result"
  gu_artifact_id :: "string \<Rightarrow> string"
  gu_sink :: artifact_sink
  gu_artifacts :: artifact_env
  gu_show_artifact :: "artifact_error \<Rightarrow> string"

record job_io =
  io_db :: db
  io_logs :: "(string \<times> string) list"

definition vm_exec ::
    "guest \<Rightarrow> string \<Rightarrow> string \<Rightarrow> string bmap \<Rightarrow> nat \<Rightarrow> (vm_error, exec_output) result" where
  "vm_exec G op command env timeout =
     (let deadline = timeout + POLL_SLACK in
      (case exec (gu_vm G) op timeout 0 (gu_start G op command env timeout)
              (gu_polls G op @ [(deadline, gu_last G op)]) of
         Some r \<Rightarrow> r
       | None \<Rightarrow> Err (ExecTimeout (gu_vm G) op deadline)))"

definition log_path :: "string \<Rightarrow> string \<Rightarrow> string \<Rightarrow> int \<Rightarrow> string \<Rightarrow> string" where
  "log_path root run_id key idx sid = foldl path_join root (log_components run_id key idx sid)"

definition write_log :: "string \<Rightarrow> string \<Rightarrow> string \<Rightarrow> job_io \<Rightarrow> job_io" where
  "write_log sid path text' io =
     io\<lparr>io_db := append_log sid path text' (io_db io), io_logs := io_logs io @ [(path, text')]\<rparr>"

definition end_step :: "guest \<Rightarrow> string \<Rightarrow> step_status \<Rightarrow> int option \<Rightarrow> string option \<Rightarrow> job_io \<Rightarrow> job_io" where
  "end_step G sid st code err io = io\<lparr>io_db := finish_step (gu_finished G sid) sid st code err (io_db io)\<rparr>"

section \<open>Actions\<close>

definition with_arg :: "json_lib \<Rightarrow> step \<Rightarrow> expr_ctx \<Rightarrow> string \<Rightarrow> string option" where
  "with_arg L st ctx k = map_option (substitute L ctx) (bm_get (sp_with st) k)"

definition collect_script :: "job_plan \<Rightarrow> string \<Rightarrow> string" where
  "collect_script p path =
     ''cd '' @ shell_quote (case vm_working_directory (jp_vm p) of Some w \<Rightarrow> w | None \<Rightarrow> DEFAULT_WORKDIR)
     @ '' && tar -czf - '' @ shell_quote path @ '' | base64; echo''"

text \<open>The integer of an exit code as \<^verbatim>\<open>{}\<close> prints it.\<close>

definition int_str :: "int \<Rightarrow> string" where
  "int_str i = (if i < 0 then CHR ''-'' # nat_str (nat (- i)) else nat_str (nat i))"

definition upload_artifact ::
    "guest \<Rightarrow> job_message \<Rightarrow> job_plan \<Rightarrow> string \<Rightarrow> string \<Rightarrow> string \<Rightarrow> job_io \<Rightarrow> (dispatch_error, string) result \<times> job_io" where
  "upload_artifact G msg p sid name path io =
     (case vm_exec G (sid @ ''.a'') (collect_script p path) [] 600000 of
        Err e \<Rightarrow> (Err (DVm e), io)
      | Ok out \<Rightarrow>
          if \<not> succeeded out then
            (Err (Artifact (''collecting '' @ gu_quote G path @ '' exited '' @ int_str (exit_code out)
                            @ '': '' @ trim (combined out))), io)
          else
            (case gu_unbase64 G (filter (\<lambda>c. \<not> is_whitespace c) (combined out)) of
               Err e \<Rightarrow> (Err (Artifact (''the guest returned unreadable data: '' @ e)), io)
             | Ok bytes \<Rightarrow>
                 (let workflow = (case get_run (jm_run_id msg) (io_db io) of
                                    Some r \<Rightarrow> rn_workflow_id r | None \<Rightarrow> []);
                      aref = \<lparr>af_run_id = jm_run_id msg, af_job_key = jp_key p,
                              af_workflow_id = workflow, af_name = name\<rparr> in
                  (case snd (put_artifact (gu_artifacts G) (gu_sink G) aref bytes) of
                     Err e \<Rightarrow> (Err (Artifact (gu_show_artifact G e)), io)
                   | Ok stored \<Rightarrow>
                       (case record_artifact (gu_finished G sid) (gu_artifact_id G sid) (jm_run_id msg)
                               (jm_job_id msg) name (st_sink stored) (st_digest stored)
                               (st_size_bytes stored) (st_uri stored) (io_db io) of
                          Err e \<Rightarrow> (Err (DStore e), io)
                        | Ok d \<Rightarrow>
                            (Ok (''[ci] stored artifact '' @ gu_quote G name @ '' (''
                                 @ nat_str (st_size_bytes stored) @ '' bytes) in the '' @ st_sink stored
                                 @ '' sink as '' @ st_uri stored @ [NL]), io\<lparr>io_db := d\<rparr>))))))"

definition run_action ::
    "guest \<Rightarrow> json_lib \<Rightarrow> job_message \<Rightarrow> job_plan \<Rightarrow> string \<Rightarrow> step \<Rightarrow> expr_ctx \<Rightarrow> string \<Rightarrow> job_io
     \<Rightarrow> (dispatch_error, string) result \<times> job_io" where
  "run_action G L msg p action st ctx sid io =
     (if action = ''ci/upload-artifact'' then
        (case (with_arg L st ctx ''name'', with_arg L st ctx ''path'') of
           (None, _) \<Rightarrow> (Err (Artifact ''ci/upload-artifact needs `with.name`''), io)
         | (Some _, None) \<Rightarrow> (Err (Artifact ''ci/upload-artifact needs `with.path`''), io)
         | (Some name, Some path) \<Rightarrow> upload_artifact G msg p sid name path io)
      else (Err (Artifact (''`uses: '' @ action @ ''` is not a built-in action. Available: ci/upload-artifact. Composite actions from a repository are not supported.'')), io))"

section \<open>One step\<close>

text \<open>What is the same for every step of the job: its needs, the \<^verbatim>\<open>ci\<close> scope and its secrets.\<close>

record job_scope =
  sc_needs :: json
  sc_ci :: json
  sc_resolved :: resolved

definition job_context :: "job_plan \<Rightarrow> job_scope \<Rightarrow> json bmap \<Rightarrow> expr_ctx" where
  "job_context p S outs =
     (let c0 = base_context p;
          c1 = set_scope c0 ''needs'' (sc_needs S);
          c2 = set_scope c1 ''steps'' (JObj outs);
          c3 = set_scope c2 ''secrets'' (fst (scopes (sc_resolved S)));
          c4 = set_scope c3 ''vars'' (snd (scopes (sc_resolved S)))
      in set_scope c4 ''ci'' (sc_ci S))"

text \<open>How a step leaves the loop: the next step with the outputs so far, out of the loop with a reason,
  or out of the function with an error.\<close>

datatype step_flow = NextStep "json bmap" | BreakWith string | Return dispatch_error

text \<open>Seconds; the product is a 64-bit one.\<close>

definition step_timeout :: "job_plan \<Rightarrow> step \<Rightarrow> nat" where
  "step_timeout p st =
     min (case sp_timeout_minutes st of Some m \<Rightarrow> m * 60 mod 2 ^ 64 | None \<Rightarrow> DEFAULT_STEP_TIMEOUT)
       (jp_timeout p)"

definition step_result :: "json \<Rightarrow> bool \<Rightarrow> json" where
  "step_result outputs ok =
     JObj [(''outcome'', JStr (if ok then ''success'' else ''failure'')), (''outputs'', outputs)]"

definition do_action ::
    "guest \<Rightarrow> json_lib \<Rightarrow> job_message \<Rightarrow> job_plan \<Rightarrow> job_scope \<Rightarrow> step \<Rightarrow> expr_ctx \<Rightarrow> string \<Rightarrow> string
     \<Rightarrow> json bmap \<Rightarrow> job_io \<Rightarrow> step_flow \<times> job_io" where
  "do_action G L msg p S st ctx sid path outs io =
     (let action = (case sp_uses st of Some u \<Rightarrow> u | None \<Rightarrow> []);
          m = mask (masker (sc_resolved S)) in
      (case run_action G L msg p action st ctx sid
              (io\<lparr>io_db := start_step (gu_started G sid) sid sid (io_db io)\<rparr>) of
         (Ok text', io') \<Rightarrow>
           (NextStep outs, end_step G sid SSuccess (Some 0) None (write_log sid path (m text') io'))
       | (Err e, io') \<Rightarrow>
           (let detail = m (gu_show G e) in
            (if sp_continue_on_error st then NextStep outs else BreakWith detail,
             end_step G sid SFailure None (Some detail)
               (write_log sid path (''[ci] '' @ detail @ [NL]) io')))))"

definition do_command ::
    "guest \<Rightarrow> json_lib \<Rightarrow> job_plan \<Rightarrow> job_scope \<Rightarrow> nat \<Rightarrow> step \<Rightarrow> string \<Rightarrow> expr_ctx \<Rightarrow> string \<Rightarrow> string
     \<Rightarrow> json bmap \<Rightarrow> job_io \<Rightarrow> step_flow \<times> job_io" where
  "do_command G L p S idx st run ctx sid path outs io =
     (let m = mask (masker (sc_resolved S));
          io1 = io\<lparr>io_db := start_step (gu_started G sid) sid sid (io_db io)\<rparr>;
          command = wrap_command (substitute L ctx run) st sid
            (case vm_working_directory (jp_vm p) of Some w \<Rightarrow> w | None \<Rightarrow> DEFAULT_WORKDIR) in
      (case vm_exec G sid command (step_env L p st ctx) (1000 * step_timeout p st) of
         Ok out \<Rightarrow>
           (let (text', outputs) = split_outputs out sid;
                ok = succeeded out;
                outs' = (case sp_id st of
                           Some i \<Rightarrow> bm_insert i (step_result outputs ok) outs | None \<Rightarrow> outs)
            in (if \<not> ok \<and> \<not> sp_continue_on_error st
                then BreakWith (''step '' @ gu_quote G (step_label st idx) @ '' exited '' @ int_str (exit_code out))
                else NextStep outs',
                end_step G sid (if ok then SSuccess else SFailure) (Some (exit_code out)) None
                  (write_log sid path (m text') io1)))
       | Err e \<Rightarrow>
           (let detail = m (gu_show G (DVm e)) in
            (BreakWith detail,
             end_step G sid SFailure None (Some detail)
               (write_log sid path ([NL] @ ''[ci] '' @ detail @ [NL]) io1)))))"

definition step_should_run :: "json_lib \<Rightarrow> expr_ctx \<Rightarrow> step \<Rightarrow> bool \<Rightarrow> (dispatch_error, bool) result" where
  "step_should_run L ctx st failed =
     (case sp_condition st of
        Some c \<Rightarrow> map_err Condition (eval_condition L ctx c)
      | None \<Rightarrow> Ok (\<not> failed))"

definition run_step ::
    "guest \<Rightarrow> json_lib \<Rightarrow> job_message \<Rightarrow> job_plan \<Rightarrow> job_scope \<Rightarrow> string option \<Rightarrow> json bmap \<Rightarrow> nat \<Rightarrow> step
     \<Rightarrow> job_io \<Rightarrow> step_flow \<times> job_io" where
  "run_step G L msg p S failed outs idx st io0 =
     (let sid = step_id (jm_job_id msg) idx;
          io = io0\<lparr>io_db := gu_others G sid (io_db io0)\<rparr> in
      if is_job_cancelled (jm_job_id msg) (io_db io) then (Return (CancelledJob (jp_key p)), io)
      else (case create_step sid (jm_job_id msg) (int idx) (step_label st idx) (sp_uses st) (io_db io) of
              Err e \<Rightarrow> (Return (DStore e), io)
            | Ok d \<Rightarrow>
                (let io1 = io\<lparr>io_db := d\<rparr>;
                     path = log_path (gu_log_root G) (jm_run_id msg) (jp_key p) (int idx) sid;
                     ctx = set_status (job_context p S outs)
                             (if failed \<noteq> None then ''failure'' else ''success'') in
                 (case step_should_run L ctx st (failed \<noteq> None) of
                    Err e \<Rightarrow> (Return e, io1)
                  | Ok False \<Rightarrow> (NextStep outs, end_step G sid SSkipped None None io1)
                  | Ok True \<Rightarrow>
                      (case sp_run st of
                         None \<Rightarrow> do_action G L msg p S st ctx sid path outs io1
                       | Some run \<Rightarrow> do_command G L p S idx st run ctx sid path outs io1)))))"

section \<open>All steps\<close>

text \<open>The loop: the outputs collected when it ends, the reason it broke if it did, or the error it
  returned.\<close>

fun step_loop ::
    "guest \<Rightarrow> json_lib \<Rightarrow> job_message \<Rightarrow> job_plan \<Rightarrow> job_scope \<Rightarrow> string option \<Rightarrow> json bmap
     \<Rightarrow> (nat \<times> step) list \<Rightarrow> job_io \<Rightarrow> (dispatch_error, json bmap \<times> string option) result \<times> job_io" where
  "step_loop G L msg p S failed outs [] io = (Ok (outs, failed), io)"
| "step_loop G L msg p S failed outs ((idx, st) # rest) io =
     (case run_step G L msg p S failed outs idx st io of
        (NextStep outs', io') \<Rightarrow> step_loop G L msg p S failed outs' rest io'
      | (BreakWith reason, io') \<Rightarrow> (Ok (outs, Some reason), io')
      | (Return e, io') \<Rightarrow> (Err e, io'))"

definition secrets_of :: "guest \<Rightarrow> job_plan \<Rightarrow> run_row option \<Rightarrow> (dispatch_error, resolved) result" where
  "secrets_of G p run =
     (let workflow = (case run of Some r \<Rightarrow> rn_workflow_id r | None \<Rightarrow> []);
          environment = (case bm_get (jp_env p) ''CI_ENVIRONMENT'' of Some e \<Rightarrow> e | None \<Rightarrow> ''default'');
          pre = secrets_prefix workflow environment
      in map_err (\<lambda>e. SecretsErr (''resolving '' @ pre @ '': '' @ gu_show_secrets G e))
           (resolve (gu_configured G) (gu_list G) (gu_read G) pre))"

definition job_outputs :: "json_lib \<Rightarrow> job_plan \<Rightarrow> job_scope \<Rightarrow> json bmap \<Rightarrow> json" where
  "job_outputs L p S outs =
     JObj (bm_of (map (\<lambda>(k, v).
       (k, JStr (mask (masker (sc_resolved S)) (substitute L (job_context p S outs) v)))) (jp_outputs p)))"

definition run_steps ::
    "guest \<Rightarrow> json_lib \<Rightarrow> job_message \<Rightarrow> job_plan \<Rightarrow> job_io \<Rightarrow> (dispatch_error, json) result \<times> job_io" where
  "run_steps G L msg p io =
     (let run = get_run (jm_run_id msg) (io_db io) in
      (case secrets_of G p run of
         Err e \<Rightarrow> (Err e, io)
       | Ok resolved \<Rightarrow>
           (let S = \<lparr>sc_needs = needs_context (jm_run_id msg) (io_db io), sc_ci = ci_scope run,
                     sc_resolved = resolved\<rparr> in
            (case step_loop G L msg p S None [] (enumerate 0 (jp_steps p)) io of
               (Err e, io') \<Rightarrow> (Err e, io')
             | (Ok (outs, Some reason), io') \<Rightarrow> (Err (StepFailed reason), io')
             | (Ok (outs, None), io') \<Rightarrow> (Ok (job_outputs L p S outs), io')))))"

section \<open>An operation ends\<close>

lemma poll_loop_ends:
  "deadline \<le> now \<Longrightarrow> poll_loop vid op timeout deadline (polls @ [(now, a)]) \<noteq> None"
  by (induction polls) (auto split: result.splits)

text \<open>Since an answer comes at or after the deadline, every operation returns.\<close>

lemma exec_ends:
  "exec (gu_vm G) op timeout 0 start (gu_polls G op @ [(timeout + POLL_SLACK, gu_last G op)]) \<noteq> None"
  using poll_loop_ends [of "timeout + POLL_SLACK" "timeout + POLL_SLACK"]
  by (auto simp: exec_def split: result.splits)

section \<open>Step rows\<close>

definition step_status_of :: "string \<Rightarrow> nat \<Rightarrow> db \<Rightarrow> step_status option" where
  "step_status_of jid i d = map_option sr_status (find (\<lambda>s. sr_id s = step_id jid i) (db_steps d))"

text \<open>The ids of a job's step rows are derived from its id and the index.\<close>

definition rows_derived :: "string \<Rightarrow> db \<Rightarrow> bool" where
  "rows_derived jid d \<longleftrightarrow>
     (\<forall>s\<in>set (db_steps d). \<forall>i. (sr_job_id s = jid \<and> sr_idx s = int i) \<longleftrightarrow> sr_id s = step_id jid i)"

definition settled :: "step \<Rightarrow> step_status option \<Rightarrow> bool" where
  "settled st s \<longleftrightarrow>
     s = Some SSuccess \<or> s = Some SSkipped \<or> (s = Some SFailure \<and> sp_continue_on_error st)"

lemma step_id_inj [simp]: "step_id jid i = step_id jid k \<longleftrightarrow> i = k"
  by (simp add: step_id_def)

text \<open>An update of the step with a given id that leaves the keys of a row alone.\<close>

definition touches_step :: "string \<Rightarrow> nat \<Rightarrow> (step_row \<Rightarrow> step_row) \<Rightarrow> db \<Rightarrow> db \<Rightarrow> bool" where
  "touches_step jid i f d d' \<longleftrightarrow>
     (\<forall>s. sr_id (f s) = sr_id s \<and> sr_job_id (f s) = sr_job_id s \<and> sr_idx (f s) = sr_idx s)
     \<and> db_steps d' = update_rows (\<lambda>s. sr_id s = step_id jid i) f (db_steps d)"

lemma find_update_rows:
  assumes "\<And>r. key (f r) = key r"
  shows "find (\<lambda>r. key r = k) (update_rows (\<lambda>r. key r = k') f rows) =
    (if k = k' then map_option f (find (\<lambda>r. key r = k) rows) else find (\<lambda>r. key r = k) rows)"
  using assms by (induction rows) (auto simp: update_rows_def)

lemma touches_derived: "touches_step jid i f d d' \<Longrightarrow> rows_derived jid d \<Longrightarrow> rows_derived jid d'"
  by (simp add: touches_step_def rows_derived_def ball_update_rows)

lemma touches_status:
  "touches_step jid i f d d' \<Longrightarrow> step_status_of jid k d' =
     (if k = i then map_option (\<lambda>s. sr_status (f s)) (find (\<lambda>s. sr_id s = step_id jid i) (db_steps d))
      else step_status_of jid k d)"
  by (simp add: touches_step_def step_status_of_def find_update_rows option.map_comp comp_def)

lemma create_step_row:
  assumes "rows_derived jid d" "create_step (step_id jid i) jid (int i) name uses d = Ok d'"
  shows "rows_derived jid d'" "find (\<lambda>s. sr_id s = step_id jid i) (db_steps d') \<noteq> None"
    "k \<noteq> i \<Longrightarrow> step_status_of jid k d' = step_status_of jid k d"
  using assms
  by (auto simp: create_step_def rows_derived_def step_status_of_def list_ex_iff find_None_iff
      find_append split: if_splits option.splits)

lemma start_step_touches:
  "touches_step jid i (\<lambda>s. s\<lparr>sr_status := SRunning, sr_operation_id := Some op,
     sr_started_at := coalesce (sr_started_at s) (Some now)\<rparr>) d (start_step now (step_id jid i) op d)"
  by (simp add: touches_step_def start_step_def)

lemma finish_step_touches:
  "touches_step jid i (\<lambda>s. s\<lparr>sr_status := st, sr_exit_code := code, sr_error := err,
     sr_finished_at := Some now\<rparr>) d (finish_step now (step_id jid i) st code err d)"
  by (simp add: touches_step_def finish_step_def)

lemma append_log_touches:
  "touches_step jid i (\<lambda>s. s\<lparr>sr_log_path := Some path, sr_log_bytes := sr_log_bytes s + length text'\<rparr>) d
     (append_log (step_id jid i) path text' d)"
  by (simp add: touches_step_def append_log_def)

text \<open>How a step that ends leaves the rows: the others as they were, its own with a status.\<close>

definition leaves :: "string \<Rightarrow> nat \<Rightarrow> db \<Rightarrow> step_status \<Rightarrow> db \<Rightarrow> bool" where
  "leaves jid i d st d' \<longleftrightarrow> rows_derived jid d' \<and> step_status_of jid i d' = Some st
     \<and> (\<forall>k. k \<noteq> i \<longrightarrow> step_status_of jid k d' = step_status_of jid k d)"

definition has_row :: "string \<Rightarrow> nat \<Rightarrow> db \<Rightarrow> db \<Rightarrow> bool" where
  "has_row jid i d d' \<longleftrightarrow> rows_derived jid d' \<and> find (\<lambda>s. sr_id s = step_id jid i) (db_steps d') \<noteq> None
     \<and> (\<forall>k. k \<noteq> i \<longrightarrow> step_status_of jid k d' = step_status_of jid k d)"

lemma has_row_touched: "has_row jid i d d' \<Longrightarrow> touches_step jid i f d' d'' \<Longrightarrow> has_row jid i d d''"
  unfolding has_row_def
  by (auto simp: touches_derived touches_status) (auto simp: touches_step_def find_update_rows)

lemma has_row_steps: "has_row jid i d d' \<Longrightarrow> db_steps d'' = db_steps d' \<Longrightarrow> has_row jid i d d''"
  by (simp add: has_row_def rows_derived_def step_status_of_def)

lemma has_row_finished:
  "has_row jid i d (io_db io) \<Longrightarrow> leaves jid i d st (io_db (end_step G (step_id jid i) st code err io))"
  unfolding has_row_def leaves_def end_step_def
  by (auto simp: touches_derived [OF finish_step_touches] touches_status [OF finish_step_touches])

lemma has_row_write_log:
  "has_row jid i d (io_db io) \<Longrightarrow> has_row jid i d (io_db (write_log (step_id jid i) path text' io))"
  by (simp add: write_log_def has_row_touched [OF _ append_log_touches])

lemma has_row_start:
  "has_row jid i d (io_db io) \<Longrightarrow>
     has_row jid i d (io_db (io\<lparr>io_db := start_step now (step_id jid i) op (io_db io)\<rparr>))"
  by (simp add: has_row_touched [OF _ start_step_touches])

lemma run_action_steps:
  "run_action G L msg p action st ctx sid io = (r, io') \<Longrightarrow> db_steps (io_db io') = db_steps (io_db io)"
  by (auto simp: run_action_def upload_artifact_def record_artifact_def Let_def
      split: if_splits option.splits result.splits)

lemma do_action_leaves:
  assumes "has_row jid i d (io_db io)" "do_action G L msg p S st ctx (step_id jid i) path outs io = (flow, io')"
  shows "\<exists>s. leaves jid i d s (io_db io')
    \<and> (case flow of NextStep _ \<Rightarrow> settled st (Some s) | BreakWith _ \<Rightarrow> s = SFailure | Return _ \<Rightarrow> False)"
proof -
  let ?io = "io\<lparr>io_db := start_step (gu_started G (step_id jid i)) (step_id jid i) (step_id jid i) (io_db io)\<rparr>"
  obtain r io1 where r: "run_action G L msg p (case sp_uses st of Some u \<Rightarrow> u | None \<Rightarrow> []) st ctx (step_id jid i) ?io = (r, io1)"
    by fastforce
  have "has_row jid i d (io_db io1)"
    by (rule has_row_steps [OF has_row_start [OF assms(1)] run_action_steps [OF r]])
  note kept = has_row_finished [OF has_row_write_log [OF this]]
  show ?thesis
  proof (cases r)
    case (Ok t)
    with assms(2) r kept show ?thesis by (fastforce simp: do_action_def Let_def settled_def)
  next
    case (Err e)
    with assms(2) r kept show ?thesis
      by (intro exI [of _ SFailure]) (auto simp: do_action_def Let_def settled_def)
  qed
qed

lemma do_command_leaves:
  assumes "has_row jid i d (io_db io)"
    and "do_command G L p S idx st run ctx (step_id jid i) path outs io = (flow, io')"
  shows "\<exists>s. leaves jid i d s (io_db io')
    \<and> (case flow of NextStep _ \<Rightarrow> settled st (Some s) | BreakWith _ \<Rightarrow> s = SFailure | Return _ \<Rightarrow> False)"
  using assms(2) has_row_finished [OF has_row_write_log [OF has_row_start [OF assms(1)]]]
  by (fastforce simp: do_command_def Let_def settled_def split: result.splits prod.splits)


text \<open>What a step does to the rows, whichever way it leaves the loop.\<close>

definition step_left :: "string \<Rightarrow> nat \<Rightarrow> step \<Rightarrow> db \<Rightarrow> step_flow \<Rightarrow> db \<Rightarrow> bool" where
  "step_left jid i st d flow d' \<longleftrightarrow> rows_derived jid d'
     \<and> (\<forall>k. k \<noteq> i \<longrightarrow> step_status_of jid k d' = step_status_of jid k d)
     \<and> (case flow of
          NextStep _ \<Rightarrow> settled st (step_status_of jid i d')
        | BreakWith _ \<Rightarrow> step_status_of jid i d' = Some SFailure
        | Return e \<Rightarrow> (\<forall>r. e \<noteq> StepFailed r) \<and> ((\<exists>k. e = CancelledJob k) \<longrightarrow> is_job_cancelled jid d'))"

lemma leaves_step_left:
  "\<exists>s. leaves jid i d s d'
    \<and> (case flow of NextStep _ \<Rightarrow> settled st (Some s) | BreakWith _ \<Rightarrow> s = SFailure | Return _ \<Rightarrow> False)
   \<Longrightarrow> step_left jid i st d flow d'"
  by (auto simp: leaves_def step_left_def split: step_flow.splits)

lemma run_step_left:
  assumes "rows_derived (jm_job_id msg) (io_db io)" "\<And>sid d. db_steps (gu_others G sid d) = db_steps d"
    and "run_step G L msg p S failed outs i st io = (flow, io')"
  shows "step_left (jm_job_id msg) i st (io_db io) flow (io_db io')"
proof -
  let ?jid = "jm_job_id msg" and ?sid = "step_id (jm_job_id msg) i"
  let ?io = "io\<lparr>io_db := gu_others G ?sid (io_db io)\<rparr>"
  have steps: "db_steps (io_db ?io) = db_steps (io_db io)" using assms(2) by simp
  then have same: "rows_derived ?jid (io_db ?io)" "step_status_of ?jid k (io_db ?io) = step_status_of ?jid k (io_db io)" for k
    using assms(1) by (simp_all add: rows_derived_def step_status_of_def)
  show ?thesis
  proof (cases "is_job_cancelled ?jid (io_db ?io)")
    case True
    then show ?thesis using assms(3) same by (auto simp: run_step_def Let_def step_left_def)
  next
    case False
    show ?thesis
    proof (cases "create_step ?sid ?jid (int i) (step_label st i) (sp_uses st) (io_db ?io)")
      case (Err e)
      then show ?thesis using assms(3) same False by (auto simp: run_step_def Let_def step_left_def)
    next
      case (Ok d)
      let ?io1 = "?io\<lparr>io_db := d\<rparr>" and ?ctx = "set_status (job_context p S outs)
         (if failed \<noteq> None then ''failure'' else ''success'')"
      let ?path = "log_path (gu_log_root G) (jm_run_id msg) (jp_key p) (int i) ?sid"
      have row: "has_row ?jid i (io_db io) (io_db ?io1)"
        using create_step_row [OF same(1) Ok] same(2) by (simp add: has_row_def)
      show ?thesis
      proof (cases "step_should_run L ?ctx st (failed \<noteq> None)")
        case (Err e)
        then have "\<exists>c. e = Condition c"
          by (auto simp: step_should_run_def split: option.splits elim: map_err.elims)
        then show ?thesis using assms(3) False Ok Err row
          by (auto simp: run_step_def Let_def step_left_def has_row_def)
      next
        case run: (Ok b)
        show ?thesis
        proof (cases b)
          case skip: False
          then have "flow = NextStep outs" "io' = end_step G ?sid SSkipped None None ?io1"
            using assms(3) False Ok run by (simp_all add: run_step_def Let_def)
          with has_row_finished [OF row] show ?thesis
            by (intro leaves_step_left exI [of _ SSkipped]) (simp add: settled_def)
        next
          case go: True
          show ?thesis
          proof (cases "sp_run st")
            case None
            with go assms(3) False Ok run
            have "do_action G L msg p S st ?ctx ?sid ?path outs ?io1 = (flow, io')"
              by (simp add: run_step_def Let_def)
            from leaves_step_left [OF do_action_leaves [OF row this]] show ?thesis .
          next
            case (Some c)
            with go assms(3) False Ok run
            have "do_command G L p S i st c ?ctx ?sid ?path outs ?io1 = (flow, io')"
              by (simp add: run_step_def Let_def)
            from leaves_step_left [OF do_command_leaves [OF row this]] show ?thesis .
          qed
        qed
      qed
    qed
  qed
qed

text \<open>The rows of a loop over the steps from index \<open>n\<close> on: a prefix of them is settled, those after the
  step it stopped at are untouched.\<close>

definition loop_left ::
    "string \<Rightarrow> nat \<Rightarrow> step list \<Rightarrow> db \<Rightarrow> (dispatch_error, json bmap \<times> string option) result \<Rightarrow> db \<Rightarrow> bool" where
  "loop_left jid n sts d res d' \<longleftrightarrow>
     (\<exists>k \<le> length sts. (\<forall>i<k. settled (sts ! i) (step_status_of jid (n + i) d'))
       \<and> (\<forall>i. i < n \<or> n + k < i \<longrightarrow> step_status_of jid i d' = step_status_of jid i d)
       \<and> (case res of
            Ok (_, None) \<Rightarrow> k = length sts
          | Ok (_, Some _) \<Rightarrow> k < length sts \<and> step_status_of jid (n + k) d' = Some SFailure
          | Err e \<Rightarrow> k < length sts \<and> (\<forall>r. e \<noteq> StepFailed r)
              \<and> ((\<exists>x. e = CancelledJob x) \<longrightarrow> is_job_cancelled jid d')))"

lemma loop_left_stop:
  assumes "step_left jid n st d flow d'" "\<And>outs. flow \<noteq> NextStep outs"
    and "res = (case flow of BreakWith r \<Rightarrow> Ok (outs, Some r) | Return e \<Rightarrow> Err e | NextStep m \<Rightarrow> Ok (m, None))"
  shows "loop_left jid n (st # sts) d res d'"
  using assms unfolding loop_left_def step_left_def
  by (intro exI [of _ 0]) (auto split: step_flow.splits)

lemma loop_left_next:
  assumes "step_left jid n st d (NextStep m) d'" "loop_left jid (Suc n) sts d' res d''"
  shows "loop_left jid n (st # sts) d res d''"
proof -
  from assms(2) obtain k where k: "k \<le> length sts"
    "\<forall>i<k. settled (sts ! i) (step_status_of jid (Suc n + i) d'')"
    "\<forall>i. i < Suc n \<or> Suc n + k < i \<longrightarrow> step_status_of jid i d'' = step_status_of jid i d'"
    "case res of Ok (_, None) \<Rightarrow> k = length sts
       | Ok (_, Some _) \<Rightarrow> k < length sts \<and> step_status_of jid (Suc n + k) d'' = Some SFailure
       | Err e \<Rightarrow> k < length sts \<and> (\<forall>r. e \<noteq> StepFailed r)
           \<and> ((\<exists>x. e = CancelledJob x) \<longrightarrow> is_job_cancelled jid d'')"
    by (auto simp: loop_left_def)
  have "settled ((st # sts) ! i) (step_status_of jid (n + i) d'')" if "i < Suc k" for i
    using that k(2,3) assms(1) by (cases i) (auto simp: step_left_def)
  moreover have "step_status_of jid i d'' = step_status_of jid i d" if "i < n \<or> n + Suc k < i" for i
    using that k(3) assms(1) by (auto simp: step_left_def)
  ultimately show ?thesis using k(1,4) unfolding loop_left_def
    by (intro exI [of _ "Suc k"]) (auto split: result.splits option.splits)
qed

lemma step_loop_left:
  assumes "rows_derived (jm_job_id msg) (io_db io)" "\<And>sid d. db_steps (gu_others G sid d) = db_steps d"
    and "step_loop G L msg p S None outs (enumerate n sts) io = (res, io')"
  shows "loop_left (jm_job_id msg) n sts (io_db io) res (io_db io')"
  using assms(1,3)
proof (induction sts arbitrary: n outs io)
  case Nil
  then show ?case by (auto simp: loop_left_def)
next
  case (Cons st sts)
  obtain flow io1 where step: "run_step G L msg p S None outs n st io = (flow, io1)" by fastforce
  note left = run_step_left [OF Cons.prems(1) assms(2) step]
  show ?case
  proof (cases flow)
    case (NextStep m)
    with Cons.prems(2) step have "step_loop G L msg p S None m (enumerate (Suc n) sts) io1 = (res, io')" by simp
    moreover from left have "rows_derived (jm_job_id msg) (io_db io1)" by (simp add: step_left_def)
    ultimately show ?thesis using Cons.IH loop_left_next left NextStep by blast
  next
    case (BreakWith r)
    with Cons.prems(2) step have "res = Ok (outs, Some r)" "io' = io1" by simp_all
    with loop_left_stop [OF left, of res outs sts] BreakWith show ?thesis by simp
  next
    case (Return e)
    with Cons.prems(2) step have "res = Err e" "io' = io1" by simp_all
    with loop_left_stop [OF left, of res outs sts] Return show ?thesis by simp
  qed
qed

section \<open>Properties\<close>


text \<open>A guest in which a command fails when it is step 0 of its job and succeeds otherwise, printing one
  secret.\<close>

definition sample_guest :: "bool \<Rightarrow> guest" where
  "sample_guest configured = \<lparr>gu_vm = ''vm-1'',
     gu_start = (\<lambda>op command env t. Ok \<lparr>op_status = ''completed'',
       op_result = Some \<lparr>out_output = ''token hunter22 ok'', out_stdout = [], out_stderr = [],
         exit_code = (if last op = CHR ''0'' then 1 else 0)\<rparr>, op_error = None\<rparr>),
     gu_polls = (\<lambda>_. []), gu_last = (\<lambda>_. Err (Connection [])), gu_others = (\<lambda>_ d. d),
     gu_started = (\<lambda>_. 2), gu_finished = (\<lambda>_. 3), gu_log_root = ''logs'', gu_configured = configured,
     gu_list = (\<lambda>pre. Ok [\<lparr>sm_path = pre @ ''/TOKEN'', sm_tags = []\<rparr>]), gu_read = (\<lambda>_. Ok ''hunter22''),
     gu_show_secrets = (\<lambda>_. []), gu_show = (\<lambda>_. ''error''), gu_quote = (\<lambda>s. s),
     gu_unbase64 = (\<lambda>s. Ok s), gu_artifact_id = (\<lambda>s. s), gu_sink = DiskSink ''out'',
     gu_artifacts = sample_store, gu_show_artifact = (\<lambda>_. [])\<rparr>"

definition cmd_step :: "string \<Rightarrow> string option \<Rightarrow> step" where
  "cmd_step cmd cond = \<lparr>sp_name = None, sp_id = None, sp_condition = cond, sp_uses = None, sp_with = [],
     sp_run = Some cmd, sp_shell = None, sp_working_directory = None, sp_env = [],
     sp_timeout_minutes = None, sp_continue_on_error = False\<rparr>"

definition sample_message :: job_message where
  "sample_message = \<lparr>jm_run_id = ''r'', jm_job_id = ''r.build'', jm_job_key = ''build''\<rparr>"

definition sample_io :: job_io where
  "sample_io = \<lparr>io_db = sample_db, io_logs = []\<rparr>"

definition two_steps :: job_plan where
  "two_steps = sample_cell\<lparr>jp_steps := [cmd_step ''make'' None, cmd_step ''clean'' (Some ''always()'')]\<rparr>"

lemma sample_rows_derived: "rows_derived (jm_job_id sample_message) (io_db sample_io)"
  by (simp add: rows_derived_def sample_io_def sample_db_def empty_db_def)

lemma sample_command:
  "vm_exec (sample_guest b) (step_id ''r.build'' 0) command env t
     = Ok \<lparr>out_output = ''token hunter22 ok'', out_stdout = [], out_stderr = [], exit_code = 1\<rparr>"
proof -
  have "step_id ''r.build'' 0 = ''r.build.0''" "valid_operation_id ''r.build.0''" by code_simp+
  then show ?thesis
    by (simp add: vm_exec_def Let_def exec_def sample_guest_def is_terminal_record_def finish_def ok_or_def)
qed

lemma cmd_step_simps [simp]:
  "sp_condition (cmd_step c q) = q" "sp_run (cmd_step c q) = Some c" "sp_id (cmd_step c q) = None"
  "sp_uses (cmd_step c q) = None" "sp_continue_on_error (cmd_step c q) = False"
  by (simp_all add: cmd_step_def)

lemma sample_breaks:
  "fst (run_step (sample_guest b) no_json sample_message p S None outs 0 (cmd_step ''make'' None) sample_io)
     = BreakWith ''step make exited 1''"
proof -
  have label: "step_label (cmd_step ''make'' None) 0 = ''make''" by code_simp
  have num: "int_str 1 = ''1''" by code_simp
  have create: "\<exists>d. create_step sid ''r.build'' 0 name uses sample_db = Ok d" for sid name uses
    by (simp add: create_step_def sample_db_def empty_db_def new_job_row_def job_id_def sample_cell_def
        plan_cell_def substitute_matrix_def Let_def)
  have live: "\<not> is_job_cancelled ''r.build'' sample_db"
    by (simp add: is_job_cancelled_def get_job_def sample_db_def new_job_row_def)
  have keeps: "gu_others (sample_guest b) sid d = d" "gu_quote (sample_guest b) t = t" for sid d t
    by (simp_all add: sample_guest_def)
  have cmd: "fst (do_command (sample_guest b) no_json p S 0 (cmd_step ''make'' None) c ctx
      (step_id ''r.build'' 0) path outs io) = BreakWith ''step make exited 1''" for c ctx path outs io
    by (simp add: do_command_def Let_def sample_command succeeded_def label num keeps split: prod.splits)
  show ?thesis
    using create [of "step_id ''r.build'' 0" "''make''" None] live
    by (auto simp: run_step_def Let_def sample_message_def sample_io_def keeps label step_should_run_def cmd)
qed

lemma sample_fails:
  "\<exists>io'. run_steps (sample_guest False) no_json sample_message two_steps sample_io
     = (Err (StepFailed ''step make exited 1''), io')"
proof -
  let ?S = "\<lparr>sc_needs = needs_context (jm_run_id sample_message) (io_db sample_io),
    sc_ci = ci_scope (get_run (jm_run_id sample_message) (io_db sample_io)),
    sc_resolved = \<lparr>rs_secrets = [], rs_vars = []\<rparr>\<rparr>"
  have sec: "secrets_of (sample_guest False) p r = Ok \<lparr>rs_secrets = [], rs_vars = []\<rparr>" for p r
    by (simp add: secrets_of_def Let_def resolve_def sample_guest_def)
  have steps: "enumerate 0 (jp_steps two_steps)
      = [(0, cmd_step ''make'' None), (1, cmd_step ''clean'' (Some ''always()''))]"
    by (simp add: two_steps_def)
  obtain io' where "run_step (sample_guest False) no_json sample_message two_steps ?S None [] 0
      (cmd_step ''make'' None) sample_io = (BreakWith ''step make exited 1'', io')"
    using sample_breaks [of False two_steps ?S "[]"] by (metis prod.collapse)
  then have "step_loop (sample_guest False) no_json sample_message two_steps ?S None []
      (enumerate 0 (jp_steps two_steps)) sample_io = (Ok ([], Some ''step make exited 1''), io')"
    unfolding steps by (simp del: append_Cons)
  then show ?thesis unfolding run_steps_def Let_def sec by simp
qed



section \<open>Outputs\<close>

lemma sublist_around: "sublist p (a @ x # b) \<Longrightarrow> x \<notin> set p \<Longrightarrow> sublist p a \<or> sublist p b"
proof -
  assume sub: "sublist p (a @ x # b)" and x: "x \<notin> set p"
  then consider "sublist p a" | "sublist p (x # b)" | u w where "p = u @ w" "suffix u a" "prefix w (x # b)"
    by (auto simp: sublist_append)
  then show ?thesis
  proof cases
    case 2
    with x show ?thesis by (cases p) (auto simp: sublist_Cons_right)
  next
    case (3 u w)
    with x have "w = []" by (cases w) auto
    with 3 show ?thesis by (simp add: suffix_imp_sublist)
  qed simp
qed

lemma rfind_last:
  assumes "x \<notin> set p" "p \<noteq> []" "\<not> sublist p b"
  shows "rfind_sub p (a @ p @ x # b) = Some (length a)"
proof -
  have "\<not> sublist (rev p) (rev b @ x # butlast (rev p))"
  proof
    assume "sublist (rev p) (rev b @ x # butlast (rev p))"
    then have "sublist (rev p) (rev b) \<or> sublist (rev p) (butlast (rev p))"
      using assms(1) by (intro sublist_around) auto
    moreover have "\<not> sublist (rev p) (butlast (rev p))"
      using assms(2) by (cases p rule: rev_cases) (auto dest!: sublist_length_le)
    ultimately show False using assms(3) by simp
  qed
  then have "find_sub (rev p) ((rev b @ [x]) @ rev p @ rev a) = Some (length (rev b @ [x]))"
    by (intro find_sub_first) simp
  then show ?thesis by (simp add: rfind_sub_def)
qed

lemma str_lines_NL: "str_lines (NL # s) = [] # str_lines s"
  by (simp add: str_lines_def Let_def NL_def)

lemma str_lines_line:
  assumes "NL \<notin> set l" "l \<noteq> [] \<Longrightarrow> last l \<noteq> CHR 0x0D"
  shows "str_lines (l @ NL # s) = l # str_lines s"
  using assms by (auto simp: str_lines_def Let_def NL_def split_on_append)

definition output_pair :: "string \<times> string \<Rightarrow> bool" where
  "output_pair = (\<lambda>(k, v). k \<noteq> [] \<and> trim k = k \<and> CHR ''='' \<notin> set k \<and> NL \<notin> set k \<and> NL \<notin> set v
     \<and> (v = [] \<or> last v \<noteq> CHR 0x0D))"

definition output_file :: "(string \<times> string) list \<Rightarrow> string" where
  "output_file kvs = concat (map (\<lambda>(k, v). k @ ''='' @ v @ [NL]) kvs)"

lemma output_file_lines:
  "list_all output_pair kvs \<Longrightarrow> str_lines (output_file kvs) = map (\<lambda>(k, v). k @ ''='' @ v) kvs"
proof (induction kvs)
  case Nil
  then show ?case by (simp add: output_file_def str_lines_def)
next
  case (Cons kv kvs)
  obtain k v where kv: "kv = (k, v)" by fastforce
  from Cons.prems kv have "NL \<notin> set (k @ ''='' @ v)" "last (k @ ''='' @ v) \<noteq> CHR 0x0D"
    by (auto simp: output_pair_def NL_def)
  then have "str_lines ((k @ ''='' @ v) @ NL # output_file kvs) = (k @ ''='' @ v) # str_lines (output_file kvs)"
    by (intro str_lines_line) auto
  moreover have "output_file (kv # kvs) = (k @ ''='' @ v) @ NL # output_file kvs"
    by (simp add: output_file_def kv)
  ultimately show ?case using Cons kv by simp
qed

lemma output_lines_fold:
  "list_all output_pair kvs \<Longrightarrow>
     foldl output_line m (map (\<lambda>(k, v). k @ ''='' @ v) kvs) = foldl (\<lambda>m (k, v). bm_insert k (JStr v) m) m kvs"
  by (induction kvs arbitrary: m)
     (auto simp: output_line_def output_pair_def split_once_append split: prod.splits)

lemma trim_end_NL: "trim_end (s @ [NL]) = trim_end s"
  by (simp add: trim_end_def NL_def is_whitespace_def)

text \<open>C27. Step outputs come back exactly: from the stream of a step that printed any log, then the
  marker line, then an output file of \<^verbatim>\<open>key=value\<close> lines, splitting recovers the log without its
  trailing white space and the map of the pairs, later ones winning. The log may contain anything, a
  forged marker of this or another step included; values may contain equals signs.\<close>

theorem outputs_roundtrip:
  assumes "NL \<notin> set sid" "list_all output_pair kvs"
    and "\<not> contains_sub (output_file kvs) (output_marker sid)"
    and "combined out = log @ [NL] @ output_marker sid @ [NL] @ output_file kvs"
  shows "split_outputs out sid = (trim_end log, JObj (foldl (\<lambda>m (k, v). bm_insert k (JStr v) m) [] kvs))"
proof -
  let ?m = "output_marker sid"
  have "NL \<notin> set ?m" using assms(1) by (auto simp: output_marker_def NL_def)
  moreover have "?m \<noteq> []" by (simp add: output_marker_def)
  moreover have "\<not> sublist ?m (output_file kvs)" using assms(3) by simp
  ultimately have pos: "rfind_sub ?m (combined out) = Some (length (log @ [NL]))"
    using rfind_last [of NL ?m "output_file kvs" "log @ [NL]"] assms(4) by simp
  have "take (length (log @ [NL])) (combined out) = log @ [NL]"
    "drop (length (log @ [NL]) + length ?m) (combined out) = NL # output_file kvs"
    using assms(4) by simp_all
  moreover have "output_line m [] = m" for m by (simp add: output_line_def split_once_def)
  then have "foldl output_line [] (str_lines (NL # output_file kvs)) = foldl (\<lambda>m (k, v). bm_insert k (JStr v) m) [] kvs"
    using assms(2) by (simp only: str_lines_NL output_file_lines output_lines_fold foldl_Cons)
  ultimately show ?thesis by (simp add: split_outputs_def Let_def pos trim_end_NL del: length_append)
qed

theorem outputs_roundtrip_witness:
  "split_outputs \<lparr>out_output = ''::ci-output::s::'' @ [NL] @ ''::ci-output::s::'' @ [NL] @ ''v=1=2'' @ [NL],
       out_stdout = [], out_stderr = [], exit_code = 0\<rparr> ''s''
     = (''::ci-output::s::'', JObj [(''v'', JStr ''1=2'')])"
proof -
  have pairs: "output_file [(''v'', ''1=2'')] = ''v=1=2'' @ [NL]" by (simp add: output_file_def)
  have "NL \<notin> set ''s''" "list_all output_pair [(''v'', ''1=2'')]"
    "\<not> contains_sub (output_file [(''v'', ''1=2'')]) (output_marker ''s'')" by code_simp+
  from outputs_roundtrip [OF this, of "\<lparr>out_output = ''::ci-output::s::'' @ [NL] @ ''::ci-output::s::'' @ [NL]
      @ ''v=1=2'' @ [NL], out_stdout = [], out_stderr = [], exit_code = 0\<rparr>" "''::ci-output::s::''"]
  have "split_outputs \<lparr>out_output = ''::ci-output::s::'' @ [NL] @ ''::ci-output::s::'' @ [NL] @ ''v=1=2'' @ [NL],
       out_stdout = [], out_stderr = [], exit_code = 0\<rparr> ''s''
     = (trim_end ''::ci-output::s::'', JObj (foldl (\<lambda>m (k, v). bm_insert k (JStr v) m) [] [(''v'', ''1=2'')]))"
    by (simp add: pairs combined_def output_marker_def)
  moreover have "trim_end ''::ci-output::s::'' = ''::ci-output::s::''" by code_simp
  ultimately show ?thesis by simp
qed


section \<open>Secrets\<close>

text \<open>A value that is masked wherever it stands: a secret long enough, without the redaction mark and
  without the separators the program puts around a masked text.\<close>

definition maskable :: "resolved \<Rightarrow> string \<Rightarrow> bool" where
  "maskable r v \<longleftrightarrow> v \<in> snd ` set (rs_secrets r) \<and> MIN_MASK_LEN \<le> length v
     \<and> set v \<inter> {CHR ''*'', CHR '' '', NL} = {} \<and> v \<noteq> ''[ci]''"

definition clean_logs :: "string \<Rightarrow> job_io \<Rightarrow> job_io \<Rightarrow> bool" where
  "clean_logs v io io' \<longleftrightarrow>
     (\<exists>new. io_logs io' = io_logs io @ new \<and> list_all (\<lambda>(_, t). \<not> contains_sub t v) new)"

lemma bm_of_set: "set (bm_of kvs) \<subseteq> set kvs"
proof -
  have ins: "set (bm_insert k x m) \<subseteq> insert (k, x) (set m)" for k and x :: 'a and m
    by (induction k x m rule: bm_insert.induct) auto
  have "set (foldl (\<lambda>m (k, v). bm_insert k v m) m kvs) \<subseteq> set m \<union> set kvs" for m :: "'a bmap"
  proof (induction kvs arbitrary: m)
    case (Cons kv kvs)
    obtain k x where kv: "kv = (k, x)" by fastforce
    have "set (foldl (\<lambda>m (k, v). bm_insert k v m) (bm_insert k x m) kvs) \<subseteq> set (bm_insert k x m) \<union> set kvs"
      by (rule Cons.IH)
    also have "\<dots> \<subseteq> set m \<union> set (kv # kvs)" using ins [of k x m] by (auto simp: kv)
    finally show ?case by (simp add: kv)
  qed simp
  from this [of "[]"] show ?thesis by (simp add: bm_of_def)
qed

lemma maskable_masked: "maskable r v \<Longrightarrow> \<not> sublist v (mask (masker r) line)"
  using masked_hides [of _ v r line] by (auto simp: maskable_def)

lemma maskable_ci_line:
  assumes "maskable r v" "\<not> sublist v d"
  shows "\<not> sublist v (''[ci] '' @ d @ [NL])" "\<not> sublist v ([NL] @ ''[ci] '' @ d @ [NL])"
proof -
  have sep: "CHR '' '' \<notin> set v" "NL \<notin> set v" "v \<noteq> []" using assms(1) by (auto simp: maskable_def MIN_MASK_LEN_def)
  have "\<not> sublist v ''[ci]''"
  proof
    assume "sublist v ''[ci]''"
    then obtain a b where ab: "''[ci]'' = a @ v @ b" by (auto simp: sublist_def)
    moreover from arg_cong [OF ab, of length] have "4 = length a + length v + length b" by simp
    moreover have "4 \<le> length v" using assms(1) by (simp add: maskable_def MIN_MASK_LEN_def)
    ultimately have "length a = 0" "length b = 0" by linarith+
    with ab assms(1) show False by (simp add: maskable_def)
  qed
  moreover have "\<not> sublist v (d @ [NL])" using sublist_around [of v d NL "[]"] assms(2) sep by auto
  ultimately show line: "\<not> sublist v (''[ci] '' @ d @ [NL])"
    using sublist_around [of v "''[ci]''" "CHR '' ''" "d @ [NL]"] sep(1) by auto
  show "\<not> sublist v ([NL] @ ''[ci] '' @ d @ [NL])"
    using sublist_around [of v "[]" NL "''[ci] '' @ d @ [NL]"] sep(2,3) line by auto
qed

lemma clean_logs_refl: "io_logs io' = io_logs io \<Longrightarrow> clean_logs v io io'"
  by (simp add: clean_logs_def)

lemma clean_logs_db [simp]: "clean_logs v (io\<lparr>io_db := d\<rparr>) io' = clean_logs v io io'"
  by (simp add: clean_logs_def)

lemma clean_logs_trans: "clean_logs v io io' \<Longrightarrow> clean_logs v io' io'' \<Longrightarrow> clean_logs v io io''"
  unfolding clean_logs_def by auto

lemma clean_logs_written:
  "io_logs io = io_logs io0 \<Longrightarrow> \<not> sublist v t \<Longrightarrow> clean_logs v io0 (end_step G sid st code err (write_log sid' path t io))"
  by (simp add: clean_logs_def end_step_def write_log_def)

lemma run_action_logs: "run_action G L msg p action st ctx sid io = (r, io') \<Longrightarrow> io_logs io' = io_logs io"
  by (auto simp: run_action_def upload_artifact_def Let_def split: if_splits option.splits result.splits)

lemma do_action_clean:
  assumes "maskable (sc_resolved S) v" "do_action G L msg p S st ctx sid path outs io = (flow, io')"
  shows "clean_logs v io io'"
proof -
  let ?io = "io\<lparr>io_db := start_step (gu_started G sid) sid sid (io_db io)\<rparr>"
  obtain r io1 where r: "run_action G L msg p (case sp_uses st of Some u \<Rightarrow> u | None \<Rightarrow> []) st ctx sid ?io = (r, io1)"
    by fastforce
  then have "io_logs io1 = io_logs io" by (drule_tac run_action_logs) simp
  note written = clean_logs_written [OF this]
  show ?thesis
    using assms(2) r written maskable_masked [OF assms(1)] maskable_ci_line(1) [OF assms(1)]
    by (cases r) (auto simp: do_action_def Let_def)
qed

lemma do_command_clean:
  assumes "maskable (sc_resolved S) v" "do_command G L p S idx st run ctx sid path outs io = (flow, io')"
  shows "clean_logs v io io'"
  using assms(2) maskable_masked [OF assms(1)] maskable_ci_line(2) [OF assms(1)]
  by (auto simp: do_command_def Let_def intro!: clean_logs_written split: result.splits prod.splits)

lemma run_step_clean:
  assumes "maskable (sc_resolved S) v" "run_step G L msg p S failed outs i st io = (flow, io')"
  shows "clean_logs v io io'"
  using assms(2) unfolding run_step_def Let_def
  by (auto simp: end_step_def clean_logs_refl split: if_splits result.splits bool.splits option.splits
      dest!: do_action_clean [OF assms(1)] do_command_clean [OF assms(1)])

lemma step_loop_clean:
  "maskable (sc_resolved S) v \<Longrightarrow> step_loop G L msg p S failed outs sts io = (res, io') \<Longrightarrow> clean_logs v io io'"
  by (induction G L msg p S failed outs sts io rule: step_loop.induct)
     (auto simp: clean_logs_refl split: prod.splits step_flow.splits
       intro: run_step_clean clean_logs_trans)

text \<open>C5. Secrets stay out of what a job leaves behind: no text that running its steps appends to a log and
  no output it reports to other jobs contains the value of one of its secrets, for every secret of
  at least the minimum length that has no asterisk, space or newline in it.\<close>

theorem run_steps_masks_secrets:
  assumes "secrets_of G p (get_run (jm_run_id msg) (io_db io)) = Ok r" "maskable r v"
    and "run_steps G L msg p io = (res, io')"
  shows "clean_logs v io io'
    \<and> (case res of
         Ok (JObj kvs) \<Rightarrow> list_all (\<lambda>(_, x). case x of JStr t \<Rightarrow> \<not> contains_sub t v | _ \<Rightarrow> False) kvs
       | Ok _ \<Rightarrow> False
       | Err _ \<Rightarrow> True)"
proof -
  let ?S = "\<lparr>sc_needs = needs_context (jm_run_id msg) (io_db io),
    sc_ci = ci_scope (get_run (jm_run_id msg) (io_db io)), sc_resolved = r\<rparr>"
  obtain lres io1 where loop: "step_loop G L msg p ?S None [] (enumerate 0 (jp_steps p)) io = (lres, io1)"
    by fastforce
  have io: "io' = io1" using assms(1,3) loop
    by (auto simp: run_steps_def Let_def split: result.splits option.splits)
  have "clean_logs v io io1" using step_loop_clean [OF _ loop] assms(2) by simp
  moreover have out: "list_all (\<lambda>(_, x). case x of JStr t \<Rightarrow> \<not> contains_sub t v | _ \<Rightarrow> False)
      (bm_of (map (\<lambda>(k, x). (k, JStr (mask (masker r) (f x)))) kvs))" for f kvs
    using maskable_masked [OF assms(2)]
    by (auto simp: list_all_iff dest!: subsetD [OF bm_of_set] split: prod.splits)
  have "case res of
         Ok (JObj kvs) \<Rightarrow> list_all (\<lambda>(_, x). case x of JStr t \<Rightarrow> \<not> contains_sub t v | _ \<Rightarrow> False) kvs
       | Ok _ \<Rightarrow> False | Err _ \<Rightarrow> True"
    using assms(1,3) loop out
    by (auto simp: run_steps_def Let_def job_outputs_def split: result.splits option.splits)
  ultimately show ?thesis using io by simp
qed

lemma sample_secrets:
  "secrets_of (sample_guest True) p run = Ok \<lparr>rs_secrets = [(''TOKEN'', ''hunter22'')], rs_vars = []\<rparr>"
proof -
  have "trim_start_char (CHR ''/'') ''/TOKEN'' = ''TOKEN''" "split_on (CHR ''/'') ''TOKEN'' = [''TOKEN'']"
    by code_simp+
  then have leaf: "leaf_name (pre @ ''/TOKEN'') pre = Some ''TOKEN''" for pre
    by (simp add: leaf_name_def strip_prefix_def Let_def)
  show ?thesis
    unfolding secrets_of_def Let_def sample_guest_def resolve_def
    by (simp del: append_Cons add: add_secret_def) (simp add: leaf [simplified])
qed

theorem run_steps_masks_secrets_witness:
  "clean_logs ''hunter22'' sample_io (snd (run_steps (sample_guest True) no_json sample_message two_steps sample_io))"
proof -
  obtain res io' where run: "run_steps (sample_guest True) no_json sample_message two_steps sample_io = (res, io')"
    by fastforce
  have "maskable \<lparr>rs_secrets = [(''TOKEN'', ''hunter22'')], rs_vars = []\<rparr> ''hunter22''"
    by (simp add: maskable_def MIN_MASK_LEN_def NL_def)
  from run_steps_masks_secrets [OF sample_secrets this run] show ?thesis by (simp add: run)
qed

end
