(* ===== verification/Execution.thy ===== *)
theory Execution
  imports Steps
begin

text \<open>
  Running a job (\<^verbatim>\<open>src/src/dispatch.rs\<close>): a delivery from the queue, the claim, the image and the VM, the
  checkout, the steps, handing the VM back, the retry ladder, and the passes of the lease loop over
  the pool.

  Everything outside is in the record \<open>host\<close>: the control plane and tunnels, the daemons' answers, the
  files of the workspace, the hash and encoding crates, and what other processes do to the state
  while this one waits. All statements of one delivery are stamped with the same time, except the
  claims of an image build.
\<close>

section \<open>State and outside\<close>

record host =
  ho_sched :: sched_env
  ho_runners :: runner_config
  ho_tunnel :: tunnel_env
  ho_lease :: lease
  ho_locked :: "string \<Rightarrow> bool"
  ho_connect :: "string \<Rightarrow> (heyo_error, unit) result"
  ho_look :: "string \<Rightarrow> (heyo_error, sandbox_info) result"
  ho_start :: "string \<Rightarrow> (heyo_error, unit) result"
  ho_wait :: "string \<Rightarrow> (heyo_error, sandbox_info) result"
  ho_create :: "string \<Rightarrow> vm_spec \<Rightarrow> (heyo_error, string) result"
  ho_destroy :: "string \<Rightarrow> (heyo_error, unit) result"
  ho_sandboxes :: "string \<Rightarrow> (heyo_error, (string \<times> string) list) result"
  ho_nonce :: nat
  ho_guest :: "string \<Rightarrow> guest"
  ho_console :: "string \<Rightarrow> (vm_error, string) result"
  ho_encode_spec :: "vm_spec \<Rightarrow> (string, string) result"
  ho_sha :: "string \<Rightarrow> string"
  ho_files :: "string \<Rightarrow> file_read"
  ho_source :: "(source_format \<times> string \<times> (string, string) result) option"
  ho_workspace_dir :: string
  ho_log_root :: string
  ho_base64 :: "string \<Rightarrow> string"
  ho_pack :: "(string \<times> string) list \<Rightarrow> (string, string) result"
  ho_read_text :: "string \<Rightarrow> (string, string) result"
  ho_dir :: "string \<Rightarrow> fs_node option"
  ho_claims :: "(nat \<times> (image_table \<Rightarrow> image_table)) list"
  ho_last_claim :: "image_table \<Rightarrow> image_table"
  ho_build_client :: "(heyo_error, unit) result"
  ho_build_first :: "(heyo_error, build_status) result"
  ho_build_polls :: "build_poll list"
  ho_build_last :: "(heyo_error, build_status) result \<times> (heyo_error, build_status) result"
  ho_build_log :: string
  ho_others :: "sys \<Rightarrow> sys"

text \<open>The state: the tables and the bus, the log files, the cached tunnels, and the VMs the daemon has been
  told to destroy and did.\<close>

record world =
  wo_sys :: sys
  wo_logs :: "(string \<times> string) list"
  wo_tunnels :: "string \<rightharpoonup> string"
  wo_destroyed :: "string list"

abbreviation ho_now :: "host \<Rightarrow> nat" where
  "ho_now H \<equiv> se_now (ho_sched H)"

abbreviation ho_show :: "host \<Rightarrow> dispatch_error \<Rightarrow> string" where
  "ho_show H \<equiv> se_show (ho_sched H)"

definition on_sys :: "(sys \<Rightarrow> sys) \<Rightarrow> world \<Rightarrow> world" where
  "on_sys f w = w\<lparr>wo_sys := f (wo_sys w)\<rparr>"

definition on_pool :: "(vm_table \<Rightarrow> vm_table) \<Rightarrow> world \<Rightarrow> world" where
  "on_pool f = on_sys (\<lambda>s. s\<lparr>sy_pool := f (sy_pool s)\<rparr>)"

definition on_images :: "(image_table \<Rightarrow> image_table) \<Rightarrow> world \<Rightarrow> world" where
  "on_images f = on_sys (\<lambda>s. s\<lparr>sy_images := f (sy_images s)\<rparr>)"

definition io_of :: "world \<Rightarrow> job_io" where
  "io_of w = \<lparr>io_db = sy_db (wo_sys w), io_logs = wo_logs w\<rparr>"

definition put_io :: "job_io \<Rightarrow> world \<Rightarrow> world" where
  "put_io io w = w\<lparr>wo_sys := (wo_sys w)\<lparr>sy_db := io_db io\<rparr>, wo_logs := io_logs io\<rparr>"

definition tell :: "host \<Rightarrow> job_message \<Rightarrow> job_plan \<Rightarrow> (string \<times> json) list \<Rightarrow> world \<Rightarrow> world" where
  "tell H msg p kvs = on_sys (emit (ho_sched H) (jm_run_id msg) (jp_key p) (JObj (bm_of kvs)))"

section \<open>Reaching a VM\<close>

definition host_options :: "host \<Rightarrow> string \<Rightarrow> world \<Rightarrow> (dispatch_error, unit) result \<times> world" where
  "host_options H runner w =
     (case options_for (ho_runners H) (ho_tunnel H) runner (wo_tunnels w) of
        (r, cache) \<Rightarrow> (and_then (map_err DRunner r) (\<lambda>_. Ok ()), w\<lparr>wo_tunnels := cache\<rparr>))"

definition open_vm :: "host \<Rightarrow> string \<Rightarrow> (vm_error, unit) result" where
  "open_vm H vm = map_err (DaemonError vm ''connecting to the sandbox'') (ho_connect H vm)"

definition vm_running :: "host \<Rightarrow> string \<Rightarrow> (vm_error, unit) result" where
  "vm_running H vm = ensure_running vm (ho_look H vm) (ho_start H vm) (ho_wait H vm)"

definition create_vm :: "host \<Rightarrow> string \<Rightarrow> vm_spec \<Rightarrow> (vm_error, string) result" where
  "create_vm H name spec =
     and_then (map_err (CreateError name) (ho_create H name spec)) (\<lambda>vm.
     and_then (vm_running H vm) (\<lambda>_. Ok vm))"

definition destroy_vm :: "host \<Rightarrow> string \<Rightarrow> world \<Rightarrow> (vm_error, unit) result \<times> world" where
  "destroy_vm H vm w =
     (case ho_destroy H vm of
        Ok _ \<Rightarrow> (Ok (), w\<lparr>wo_destroyed := wo_destroyed w @ [vm]\<rparr>)
      | Err e \<Rightarrow> (Err (DaemonError vm ''destroying the sandbox'' e), w))"

definition resolve_existing_vm ::
    "host \<Rightarrow> string \<Rightarrow> string \<Rightarrow> world \<Rightarrow> (dispatch_error, string) result \<times> world" where
  "resolve_existing_vm H runner wanted w =
     (case host_options H runner w of
        (Err e, w') \<Rightarrow> (Err e, w')
      | (Ok _, w') \<Rightarrow>
          (case ho_sandboxes H runner of
             Err e \<Rightarrow> (Err (DVm (DaemonError wanted ''listing sandboxes on the node'' e)), w')
           | Ok vms \<Rightarrow>
               (case find (\<lambda>(i, name). i = wanted \<or> eq_ignore_ascii_case name wanted) vms of
                  Some (i, _) \<Rightarrow> (Ok i, w')
                | None \<Rightarrow>
                    (Err (UnknownVm wanted runner
                       (map (\<lambda>(i, name). if name = [] then i else name @ '' ('' @ i @ '')'') vms)), w'))))"

section \<open>Logs kept as steps\<close>

text \<open>A finished step that only holds a log; a step that cannot be recorded is left out.\<close>

definition log_step :: "host \<Rightarrow> job_message \<Rightarrow> job_plan \<Rightarrow> string \<Rightarrow> int \<Rightarrow> string \<Rightarrow> string \<Rightarrow> world \<Rightarrow> world" where
  "log_step H msg p sid idx name text' w =
     (case create_step sid (jm_job_id msg) idx name None (sy_db (wo_sys w)) of
        Err _ \<Rightarrow> w
      | Ok d \<Rightarrow>
          (let path = log_path (ho_log_root H) (jm_run_id msg) (jp_key p) idx sid;
               io = write_log sid path text' \<lparr>io_db = d, io_logs = wo_logs w\<rparr>
           in put_io (io\<lparr>io_db := finish_step (ho_now H) sid SSuccess (Some 0) None (io_db io)\<rparr>) w))"

definition attach_build_log :: "host \<Rightarrow> job_message \<Rightarrow> job_plan \<Rightarrow> string \<Rightarrow> string \<Rightarrow> world \<Rightarrow> world" where
  "attach_build_log H msg p name text' =
     log_step H msg p (jm_job_id msg @ ''.imglog'') (-3) (''Image '' @ name) text'"

definition console_text :: "host \<Rightarrow> string \<Rightarrow> string" where
  "console_text H vm =
     (case ho_console H vm of
        Ok t \<Rightarrow> if trim t = [] then ''[ci] the daemon reported no console output for this VM'' @ [NL] else t
      | Err e \<Rightarrow> ''[ci] could not read this VM'' @ [SQ] @ ''s logs: '' @ ho_show H (DVm e) @ [NL])"

definition capture_vm_log :: "host \<Rightarrow> job_message \<Rightarrow> job_plan \<Rightarrow> string \<Rightarrow> world \<Rightarrow> world" where
  "capture_vm_log H msg p vm =
     log_step H msg p (jm_job_id msg @ ''.vmlog'') (-2) ''VM log'' (console_text H vm)"

section \<open>The image of a job\<close>

text \<open>Seconds.\<close>

definition BUILD_BUDGET :: nat where
  "BUILD_BUDGET = 40 * 60"

text \<open>Claiming until the image is there (\<open>Ok False\<close>), is ours to build (\<open>Ok True\<close>) or the wait is over. Each
  attempt has its time and what other processes did to the catalog before it.\<close>

fun claim_loop ::
    "string \<Rightarrow> string \<Rightarrow> string \<Rightarrow> string \<Rightarrow> nat \<Rightarrow> (nat \<times> (image_table \<Rightarrow> image_table)) list \<Rightarrow> image_table
     \<Rightarrow> (image_error, bool) result option \<times> image_table" where
  "claim_loop name runner wid jid deadline [] rows = (None, rows)"
| "claim_loop name runner wid jid deadline ((now, others) # later) rows =
     (case claim_image now name runner wid jid BUILD_LEASE (others rows) of
        (ClaimReady, rows') \<Rightarrow> (Some (Ok False), rows')
      | (ClaimBuild, rows') \<Rightarrow> (Some (Ok True), rows')
      | (ClaimInProgress, rows') \<Rightarrow>
          if deadline \<le> now then (Some (Err (WaitTimeout name BUILD_BUDGET)), rows')
          else claim_loop name runner wid jid deadline later rows')"

definition build_image ::
    "host \<Rightarrow> string \<Rightarrow> job_plan \<Rightarrow> image_plan \<Rightarrow> job_message \<Rightarrow> world \<Rightarrow> (dispatch_error, string) result \<times> world" where
  "build_image H runner p bp msg w =
     (let name = bp_name bp;
          renew = (\<lambda>elapsed. renew_image (ho_now H + elapsed) name runner BUILD_LEASE);
          polls = ho_build_polls H @ [(BUILD_BUDGET, ho_build_last H)] in
      (case host_options H runner w of
         (Err e, w') \<Rightarrow> (Err e, w')
       | (Ok _, w') \<Rightarrow>
           (case build_remote name BUILD_BUDGET renew (ho_build_client H) (ho_build_first H) polls
                   (sy_images (wo_sys w')) of
              None \<Rightarrow> (Err (DImage (BuildTimeout name BUILD_BUDGET)), w')
            | Some (Ok bytes, rows) \<Rightarrow>
                (Ok name, on_images (mark_ready (ho_now H) name runner bytes)
                   (attach_build_log H msg p name (ho_build_log H) (on_images (\<lambda>_. rows) w')))
            | Some (Err e, rows) \<Rightarrow>
                (let detail = ho_show H (DImage e) in
                 (Err (DImage e),
                  attach_build_log H msg p name (''[ci] '' @ detail @ [NL])
                    (on_images (\<lambda>_. mark_failed name runner detail rows) w'))))))"

definition ensure_image ::
    "host \<Rightarrow> string \<Rightarrow> job_plan \<Rightarrow> image_build \<Rightarrow> job_message \<Rightarrow> world \<Rightarrow> (dispatch_error, string) result \<times> world" where
  "ensure_image H runner p build msg w =
     (case plan_for (ho_sha H) (ho_pack H) (ho_read_text H) (ho_dir H) build (jp_vm p) of
        Err e \<Rightarrow> (Err (DImage e), w)
      | Ok bp \<Rightarrow>
          (let deadline = ho_now H + BUILD_BUDGET in
           (case claim_loop (bp_name bp) runner (jp_base_id p) (jm_job_id msg) deadline
                   (ho_claims H @ [(deadline, ho_last_claim H)]) (sy_images (wo_sys w)) of
              (None, rows) \<Rightarrow> (Err (DImage (WaitTimeout (bp_name bp) BUILD_BUDGET)), on_images (\<lambda>_. rows) w)
            | (Some (Err e), rows) \<Rightarrow> (Err (DImage e), on_images (\<lambda>_. rows) w)
            | (Some (Ok False), rows) \<Rightarrow> (Ok (bp_name bp), on_images (\<lambda>_. rows) w)
            | (Some (Ok True), rows) \<Rightarrow> build_image H runner p bp msg (on_images (\<lambda>_. rows) w))))"

section \<open>A VM for the job\<close>

text \<open>A VM from the pool, if there is one that runs: \<open>Ok None\<close> means one has to be created.\<close>

definition claim_pooled ::
    "host \<Rightarrow> string \<Rightarrow> job_plan \<Rightarrow> string \<Rightarrow> string \<Rightarrow> world \<Rightarrow> (dispatch_error, string option) result \<times> world" where
  "claim_pooled H runner p fp jid w =
     (if \<not> vm_reuse (jp_vm p) then (Ok None, w)
      else (case claim_vm (ho_locked H) (ho_now H) runner fp jid (ho_lease H) (sy_pool (wo_sys w)) of
              (None, rows) \<Rightarrow> (Ok None, on_pool (\<lambda>_. rows) w)
            | (Some vm, rows) \<Rightarrow>
                (let w' = on_pool (\<lambda>_. rows) w in
                 (case open_vm H vm of
                    Err e \<Rightarrow> (Err (DVm e), w')
                  | Ok _ \<Rightarrow>
                      (case vm_running H vm of
                         Ok _ \<Rightarrow> (Ok (Some vm), w')
                       | Err _ \<Rightarrow> (Ok None, on_pool (forget_vm vm) w'))))))"

definition forget_missing_image :: "host \<Rightarrow> string \<Rightarrow> job_plan \<Rightarrow> vm_error \<Rightarrow> world \<Rightarrow> world" where
  "forget_missing_image H runner p e w =
     (case vm_image (jp_vm p) of
        Some img \<Rightarrow>
          if prefix ''ci-img-'' img \<and> contains_sub (ho_show H (DVm e)) ''not found''
          then on_images (forget_image img runner) w else w
      | None \<Rightarrow> w)"

definition fresh_vm ::
    "host \<Rightarrow> string \<Rightarrow> job_plan \<Rightarrow> string \<Rightarrow> string \<Rightarrow> world \<Rightarrow> (dispatch_error, string) result \<times> world" where
  "fresh_vm H runner p fp jid w =
     (let name = sandbox_name (jp_base_id p) fp (ho_nonce H);
          (building, rows) = begin_build (ho_now H) jid runner fp (jp_base_id p) (ho_lease H) (sy_pool (wo_sys w));
          w1 = on_pool (forget_vm building) (on_pool (\<lambda>_. rows) w) in
      (case create_vm H name (jp_vm p) of
         Err e \<Rightarrow> (Err (DVm e), forget_missing_image H runner p e w1)
       | Ok vm \<Rightarrow>
           (Ok vm, on_pool (register_vm (ho_now H) vm runner fp (jp_base_id p) jid (ho_lease H)) w1)))"

definition acquire_vm ::
    "host \<Rightarrow> string \<Rightarrow> job_plan \<Rightarrow> string \<Rightarrow> string \<Rightarrow> world \<Rightarrow> (dispatch_error, string \<times> bool) result \<times> world" where
  "acquire_vm H runner p fp jid w =
     (case host_options H runner w of
        (Err e, w1) \<Rightarrow> (Err e, w1)
      | (Ok _, w1) \<Rightarrow>
          (case claim_pooled H runner p fp jid w1 of
             (Err e, w2) \<Rightarrow> (Err e, w2)
           | (Ok (Some vm), w2) \<Rightarrow> (Ok (vm, True), w2)
           | (Ok None, w2) \<Rightarrow>
               (case fresh_vm H runner p fp jid w2 of
                  (Err e, w3) \<Rightarrow> (Err e, w3)
                | (Ok vm, w3) \<Rightarrow> (Ok (vm, False), w3))))"

definition release_vm :: "host \<Rightarrow> job_plan \<Rightarrow> string \<Rightarrow> bool \<Rightarrow> world \<Rightarrow> world" where
  "release_vm H p vm corrupted w =
     (if is_existing_vm (jp_target p) then w
      else if \<not> vm_reuse (jp_vm p) \<or> corrupted then on_pool (forget_vm vm) (snd (destroy_vm H vm w))
      else on_pool (release_vm_row (ho_now H) vm) w)"


section \<open>The checkout\<close>

definition remote_source :: "source_format \<Rightarrow> string \<Rightarrow> string" where
  "remote_source fmt workdir =
     trim_end_char (CHR ''/'') workdir
     @ (case fmt of TarGz \<Rightarrow> ''/.ci-source.tar.gz'' | GitBundle \<Rightarrow> ''/.ci-source.bundle'')"

definition checkout_script :: "source_format \<Rightarrow> string \<Rightarrow> string" where
  "checkout_script fmt workdir =
     (let wd = shell_quote workdir; src = shell_quote (remote_source fmt workdir);
          tmp = shell_quote (trim_end_char (CHR ''/'') workdir @ ''/.ci-clone'') in
      (case fmt of
         TarGz \<Rightarrow>
           ''set -e; mkdir -p '' @ wd @ ''; find '' @ wd
           @ '' -mindepth 1 -maxdepth 1 ! -name .ci-source.tar.gz -exec rm -rf {} +; tar -xzf '' @ src
           @ '' -C '' @ wd @ ''; rm -f '' @ src @ ''; ls -a '' @ wd @ '' | head -50''
       | GitBundle \<Rightarrow>
           ''set -e; command -v git >/dev/null 2>&1 || { echo '' @ [SQ]
           @ ''[ci] this run submitted a git bundle, but the guest image has no git. Add it to the vm setup_hooks, or submit with `git submit --archive`.''
           @ [SQ] @ '' >&2; exit 127; }; mkdir -p '' @ wd @ ''; rm -rf '' @ tmp
           @ ''; git -c core.hooksPath=/nonexistent clone --quiet '' @ src @ '' '' @ tmp @ ''; find '' @ wd
           @ '' -mindepth 1 -maxdepth 1 ! -name .ci-clone ! -name .ci-source.bundle -exec rm -rf {} +; tar -C '' @ tmp
           @ '' -cf - . | tar -C '' @ wd @ '' -xf -; rm -rf '' @ tmp @ '' '' @ src @ ''; git -C '' @ wd
           @ '' log --oneline -1; ls -a '' @ wd @ '' | head -50''))"

definition fail_checkout ::
    "host \<Rightarrow> string \<Rightarrow> string \<Rightarrow> int option \<Rightarrow> string \<Rightarrow> job_io \<Rightarrow> (dispatch_error, unit) result \<times> job_io" where
  "fail_checkout H sid path code detail io =
     (let io' = write_log sid path (''[ci] '' @ detail @ [NL]) io in
      (Err (Checkout detail),
       io'\<lparr>io_db := finish_step (ho_now H) sid SFailure code (Some detail) (io_db io')\<rparr>))"

definition ship_source ::
    "host \<Rightarrow> string \<Rightarrow> string \<Rightarrow> source_format \<Rightarrow> string \<Rightarrow> string \<Rightarrow> (vm_error, exec_output) result" where
  "ship_source H vm sid fmt workdir bytes =
     (let G = ho_guest H vm in
      and_then (upload_bytes (ho_base64 H) (\<lambda>b. hex_encode (ho_sha H b)) vm sid (remote_source fmt workdir)
          (\<lambda>op script. vm_exec G op script [] 120000) bytes)
        (\<lambda>_. vm_exec G (sid @ ''.x'') (checkout_script fmt workdir) [] 300000))"

definition checkout ::
    "host \<Rightarrow> job_message \<Rightarrow> job_plan \<Rightarrow> string \<Rightarrow> job_io \<Rightarrow> (dispatch_error, unit) result \<times> job_io" where
  "checkout H msg p vm io =
     (let sid = jm_job_id msg @ ''.checkout''; path = log_path (ho_log_root H) (jm_run_id msg) (jp_key p) (-1) sid;
          workdir = (case vm_working_directory (jp_vm p) of Some d \<Rightarrow> d | None \<Rightarrow> DEFAULT_WORKDIR) in
      (case create_step sid (jm_job_id msg) (-1) ''Checkout'' None (io_db io) of
         Err e \<Rightarrow> (Err (DStore e), io)
       | Ok d \<Rightarrow>
           (let io1 = io\<lparr>io_db := start_step (ho_now H) sid sid d\<rparr> in
            (case ho_source H of
               None \<Rightarrow>
                 fail_checkout H sid path (Some 1) (''no submitted source is on disk for run '' @ jm_run_id msg
                   @ '' under '' @ ho_workspace_dir H) io1
             | Some (fmt, archive, Err e) \<Rightarrow>
                 fail_checkout H sid path None (''the submitted source is missing at '' @ archive @ '': '' @ e) io1
             | Some (fmt, archive, Ok bytes) \<Rightarrow>
                 (case ship_source H vm sid fmt workdir bytes of
                    Err e \<Rightarrow> fail_checkout H sid path None (ho_show H (DVm e)) io1
                  | Ok out \<Rightarrow>
                      if succeeded out then
                        (let io2 = write_log sid path (''[ci] '' @ nat_str (length bytes) @ '' bytes extracted into ''
                               @ workdir @ [NL] @ combined out) io1
                         in (Ok (), io2\<lparr>io_db := finish_step (ho_now H) sid SSuccess (Some 0) None (io_db io2)\<rparr>))
                      else
                        (let io2 = write_log sid path (combined out) io1
                         in (Err (Checkout (''extracting the source exited '' @ int_str (exit_code out))),
                             io2\<lparr>io_db := finish_step (ho_now H) sid SFailure (Some (exit_code out)) None (io_db io2)\<rparr>)))))))"

section \<open>The job\<close>

definition evict_tunnel :: "string \<Rightarrow> ('e \<Rightarrow> bool) \<Rightarrow> ('e, 'a) result \<Rightarrow> world \<Rightarrow> world" where
  "evict_tunnel runner P r w =
     (case r of Err e \<Rightarrow> if P e then w\<lparr>wo_tunnels := evict runner (wo_tunnels w)\<rparr> else w | Ok _ \<Rightarrow> w)"

text \<open>The machine of a job: its id, whether it existed before, and the fingerprint recorded for it.\<close>

definition machine_for ::
    "host \<Rightarrow> job_message \<Rightarrow> job_plan \<Rightarrow> string \<Rightarrow> string option \<Rightarrow> world
     \<Rightarrow> (dispatch_error, string \<times> bool \<times> string) result \<times> world" where
  "machine_for H msg p runner existing w =
     (case existing of
        Some wanted \<Rightarrow>
          (case resolve_existing_vm H runner wanted w of
             (Err e, w1) \<Rightarrow> (Err e, w1)
           | (Ok vm, w1) \<Rightarrow>
               (case host_options H runner w1 of
                  (Err e, w2) \<Rightarrow> (Err e, w2)
                | (Ok _, w2) \<Rightarrow>
                    (and_then (map_err DVm (open_vm H vm)) (\<lambda>_.
                     and_then (map_err DVm (vm_running H vm)) (\<lambda>_. Ok (vm, True, ''existing''))), w2)))
      | None \<Rightarrow>
          (case fingerprint (ho_encode_spec H) (ho_sha H) (ho_files H) (jp_vm p) of
             Err e \<Rightarrow> (Err (DPool e), w)
           | Ok fp \<Rightarrow>
               (case acquire_vm H runner p fp (jm_job_id msg) w of
                  (Err e, w1) \<Rightarrow> (Err e, w1)
                | (Ok (vm, reused), w1) \<Rightarrow> (Ok (vm, reused, fp), w1))))"

definition resolve_image ::
    "host \<Rightarrow> string \<Rightarrow> job_plan \<Rightarrow> job_message \<Rightarrow> world \<Rightarrow> (dispatch_error, job_plan) result \<times> world" where
  "resolve_image H runner p msg w =
     (case vm_build (jp_vm p) of
        None \<Rightarrow> (Ok p, w)
      | Some build \<Rightarrow>
          (case ensure_image H runner p build msg w of
             (Err e, w') \<Rightarrow> (Err e, w')
           | (Ok img, w') \<Rightarrow> (Ok (p\<lparr>jp_vm := (jp_vm p)\<lparr>vm_image := Some img, vm_build := None\<rparr>\<rparr>), w')))"

definition job_body :: "host \<Rightarrow> job_message \<Rightarrow> job_plan \<Rightarrow> string \<Rightarrow> world \<Rightarrow> (dispatch_error, json) result \<times> world" where
  "job_body H msg p vm w =
     (case checkout H msg p vm (io_of w) of
        (Err e, io) \<Rightarrow> (Err e, put_io io w)
      | (Ok _, io) \<Rightarrow>
          (case run_steps (ho_guest H vm) (se_lib (ho_sched H)) msg p io of
             (r, io') \<Rightarrow> (r, put_io io' w)))"

definition job_status_for :: "job_plan \<Rightarrow> (dispatch_error, json) result \<Rightarrow> job_status" where
  "job_status_for p outcome =
     (case outcome of
        Ok _ \<Rightarrow> JSuccess
      | Err (CancelledJob _) \<Rightarrow> JCancelled
      | Err _ \<Rightarrow> if jp_continue_on_error p then JSuccess else JFailure)"

definition outcome_error :: "host \<Rightarrow> (dispatch_error, json) result \<Rightarrow> string option" where
  "outcome_error H outcome = (case outcome of Err e \<Rightarrow> Some (ho_show H e) | Ok _ \<Rightarrow> None)"

definition opt_json :: "string option \<Rightarrow> json" where
  "opt_json x = (case x of None \<Rightarrow> JNull | Some s \<Rightarrow> JStr s)"

definition settle_job :: "host \<Rightarrow> job_message \<Rightarrow> job_plan \<Rightarrow> (dispatch_error, json) result \<Rightarrow> world \<Rightarrow> world" where
  "settle_job H msg p outcome w =
     (let st = job_status_for p outcome; err = outcome_error H outcome;
          outs = (case outcome of Ok o' \<Rightarrow> set_job_outputs (jm_job_id msg) o' | Err _ \<Rightarrow> id)
      in tell H msg p [(''status'', JStr (job_status_str st)), (''error'', opt_json err)]
           (on_sys (on_db (\<lambda>d. set_job_status (ho_now H) (jm_job_id msg) st err (outs d))) w))"

definition run_on ::
    "host \<Rightarrow> job_message \<Rightarrow> nat \<Rightarrow> job_plan \<Rightarrow> string \<Rightarrow> string \<Rightarrow> bool \<Rightarrow> string \<Rightarrow> world
     \<Rightarrow> (dispatch_error, job_status) result \<times> world" where
  "run_on H msg attempt p runner vm reused fp w =
     (case start_job (ho_now H) (jm_job_id msg) runner vm fp (int attempt) (sy_db (wo_sys w)) of
        (False, d) \<Rightarrow> (Ok JSuccess, release_vm H p vm False (on_sys (on_db (\<lambda>_. d)) w))
      | (True, d) \<Rightarrow>
          (let w1 = tell H msg p [(''status'', JStr ''running''), (''runner'', JStr runner), (''sandbox'', JStr vm),
                      (''reusedVm'', JBool reused), (''attempt'', JNum (NInt (int attempt)))]
                      (on_sys (on_db (\<lambda>_. d)) w);
               (outcome, w2) = job_body H msg p vm w1;
               corrupted = (case outcome of
                              Err e \<Rightarrow> indicates_guest_corruption (\<lambda>v. ho_show H (DVm v)) e | Ok _ \<Rightarrow> False);
               w3 = release_vm H p vm corrupted (capture_vm_log H msg p vm w2);
               w4 = evict_tunnel runner is_tunnel_failure outcome w3
           in (Ok (job_status_for p outcome), settle_job H msg p outcome w4)))"

definition run_claimed ::
    "host \<Rightarrow> job_message \<Rightarrow> nat \<Rightarrow> job_plan \<Rightarrow> string \<Rightarrow> string option \<Rightarrow> world
     \<Rightarrow> (dispatch_error, job_status) result \<times> world" where
  "run_claimed H msg attempt p0 runner existing w =
     (case claim_job (ho_now H) (jm_job_id msg) runner (int attempt) (sy_db (wo_sys w)) of
        (False, d) \<Rightarrow> (Ok JSuccess, on_sys (on_db (\<lambda>_. d)) w)
      | (True, d) \<Rightarrow>
          (let w1 = tell H msg p0 [(''status'', JStr ''running''), (''runner'', JStr runner),
                      (''phase'', JStr ''acquiring a VM''), (''attempt'', JNum (NInt (int attempt)))]
                      (on_sys (on_db (\<lambda>_. d)) w) in
           (case resolve_image H runner p0 msg w1 of
              (Err e, w2) \<Rightarrow> (Err e, w2)
            | (Ok p, w2) \<Rightarrow>
                (case machine_for H msg p runner existing w2 of
                   (Err e, w3) \<Rightarrow> (Err e, w3)
                 | (Ok (vm, reused, fp), w3) \<Rightarrow>
                     run_on H msg attempt p runner vm reused fp (on_sys (ho_others H) w3)))))"

definition run_job :: "host \<Rightarrow> job_message \<Rightarrow> nat \<Rightarrow> world \<Rightarrow> (dispatch_error, job_status) result \<times> world" where
  "run_job H msg attempt w =
     (case get_job (jm_job_id msg) (sy_db (wo_sys w)) of
        None \<Rightarrow> (Err (UnknownJob (jm_job_id msg)), w)
      | Some row \<Rightarrow>
          if jr_status row \<in> {JSuccess, JFailure, JSkipped, JCancelled} then (Ok JSuccess, w)
          else (case se_read_plan (ho_sched H) (jr_plan row) of
                  Err e \<Rightarrow> (Err (BadPlan e), w)
                | Ok p \<Rightarrow>
                    (case pick_runner (se_pool (ho_sched H)) p of
                       Err e \<Rightarrow> (Err e, w)
                     | Ok (runner, existing) \<Rightarrow>
                         (case run_claimed H msg attempt p runner existing w of
                            (r, w') \<Rightarrow> (r, evict_tunnel runner is_tunnel_failure r w')))))"

section \<open>A delivery\<close>

datatype ack = Acked | Nak nat

definition retry_detail :: "host \<Rightarrow> nat \<Rightarrow> dispatch_error \<Rightarrow> string" where
  "retry_detail H attempt e =
     ''attempt '' @ nat_str attempt @ '' of '' @ nat_str MAX_DELIVER @ '' failed: '' @ ho_show H e
     @ ''. Retrying in '' @ nat_str (backoff_for attempt) @ ''s.''"

text \<open>One message of a queue. \<open>dropped\<close> is the state in which a job that ran into the ceiling was dropped, if it
  did; the undecodable message is \<open>None\<close>.\<close>

definition deliver ::
    "host \<Rightarrow> nat \<Rightarrow> nat \<Rightarrow> job_message option \<Rightarrow> world option \<Rightarrow> world \<Rightarrow> ack \<times> world" where
  "deliver H ceiling attempt payload dropped w =
     (case payload of
        None \<Rightarrow> (Acked, w)
      | Some msg \<Rightarrow>
          (let (outcome, w1) = (case dropped of
                                  None \<Rightarrow> run_job H msg attempt w
                                | Some w' \<Rightarrow> (Err (JobTimeout (jm_job_key msg) ceiling), w'));
               (a, w2) = (case outcome of
                  Ok _ \<Rightarrow> (Acked, w1)
                | Err e \<Rightarrow>
                    if MAX_DELIVER \<le> attempt then
                      (Acked, on_sys (on_db (set_job_status (ho_now H) (jm_job_id msg) JFailure
                         (Some (''giving up after '' @ nat_str attempt @ '' attempts: '' @ ho_show H e)))) w1)
                    else
                      (Nak (backoff_for attempt),
                       on_sys (emit (ho_sched H) (jm_run_id msg) (jm_job_key msg)
                          (JObj [(''error'', JStr (retry_detail H attempt e)), (''status'', JStr ''running'')]))
                         (on_sys (on_db (note_job_error (jm_job_id msg) (retry_detail H attempt e))) w1)))
           in (a, on_sys (\<lambda>s. snd (advance_run (ho_sched H) (jm_run_id msg) s)) w2)))"

section \<open>The pool\<close>

definition served_runner_ids :: "host \<Rightarrow> string list" where
  "served_runner_ids H = map ru_id (all_runners (se_pool (ho_sched H)))"

definition destroy_one :: "host \<Rightarrow> vm_row \<Rightarrow> world \<Rightarrow> (dispatch_error, unit) result \<times> world" where
  "destroy_one H r w =
     (case host_options H (pv_runner_hd_id r) w of
        (Err e, w1) \<Rightarrow> (Err e, w1)
      | (Ok _, w1) \<Rightarrow>
          (case open_vm H (pv_sandbox_id r) of
             Err e \<Rightarrow> (Err (DVm e), w1)
           | Ok _ \<Rightarrow>
               (case destroy_vm H (pv_sandbox_id r) w1 of
                  (Err e, w2) \<Rightarrow> (Err (DVm e), w2)
                | (Ok _, w2) \<Rightarrow> (Ok (), on_pool (forget_vm (pv_sandbox_id r)) w2))))"

fun destroy_swept :: "host \<Rightarrow> vm_row list \<Rightarrow> nat \<Rightarrow> string list \<Rightarrow> world \<Rightarrow> (nat \<times> string list) \<times> world" where
  "destroy_swept H [] n failed w = ((n, failed), w)"
| "destroy_swept H (r # rs) n failed w =
     (case destroy_one H r w of
        (Ok _, w') \<Rightarrow> destroy_swept H rs (Suc n) failed w'
      | (Err e, w') \<Rightarrow> destroy_swept H rs n (failed @ [pv_sandbox_id r @ '': '' @ ho_show H e]) w')"

definition destroy_pooled_vm :: "host \<Rightarrow> string \<Rightarrow> world \<Rightarrow> (dispatch_error, string) result \<times> world" where
  "destroy_pooled_vm H sid w =
     (case take_one_for_sweep sid (served_runner_ids H) (sy_pool (wo_sys w)) of
        (None, rows) \<Rightarrow> (Err (VmNotSweepable sid), on_pool (\<lambda>_. rows) w)
      | (Some r, rows) \<Rightarrow>
          (case destroy_swept H [r] 0 [] (on_pool (\<lambda>_. rows) w) of
             ((n, failed), w') \<Rightarrow>
               (if n = 1 then Ok (sid @ '' is destroyed and out of the pool.'')
                else Err (Artifact (join ''; '' failed)), w')))"

definition destroy_failed_vms :: "host \<Rightarrow> world \<Rightarrow> string \<times> world" where
  "destroy_failed_vms H w =
     (case take_failed_for_sweep (ho_locked H) (served_runner_ids H) (sy_db (wo_sys w)) (sy_pool (wo_sys w)) of
        ([], rows) \<Rightarrow> (''No idle VM is left over from a failed run.'', on_pool (\<lambda>_. rows) w)
      | (taken, rows) \<Rightarrow>
          (case destroy_swept H taken 0 [] (on_pool (\<lambda>_. rows) w) of
             ((n, failed), w') \<Rightarrow>
               (if failed = [] then ''Destroyed '' @ nat_str n @ '' VM(s) left by failed runs.''
                else ''Destroyed '' @ nat_str n @ '' of '' @ nat_str (length taken)
                  @ ''. Still draining, and shown below: '' @ join ''; '' failed, w')))"

definition reclaim_pool :: "host \<Rightarrow> world \<Rightarrow> world" where
  "reclaim_pool H w =
     (let ours = served_runner_ids H; inst = ls_instance (ho_lease H) in
      on_sys (\<lambda>s. s\<lparr>sy_pool := snd (sweep_stale_builds (ho_now H) ours inst
        (snd (release_orphans (ho_now H) ours inst (sy_db s) (sy_pool s))))\<rparr>) w)"

text \<open>One tick of the lease loop; renewing TTLs changes nothing here.\<close>

definition lease_pass :: "host \<Rightarrow> nat \<Rightarrow> world \<Rightarrow> world" where
  "lease_pass H wait w =
     reclaim_pool H
       (on_sys (nudge_stalled_runs (ho_sched H))
         (on_sys (fail_jobs_waiting_for_a_runner (ho_sched H) wait)
           (on_pool (\<lambda>p. snd (renew_leases (ho_now H) (ho_lease H) p)) w)))"

section \<open>Consumers\<close>

text \<open>\<^verbatim>\<open>Vec::dedup_by_key\<close>: of neighbours with one key the first stays.\<close>

fun dedup_by_key :: "('a \<Rightarrow> 'b) \<Rightarrow> 'a list \<Rightarrow> 'a list" where
  "dedup_by_key f (x # y # zs) =
     (if f x = f y then dedup_by_key f (x # zs) else x # dedup_by_key f (y # zs))"
| "dedup_by_key f xs = xs"

text \<open>The queues this instance wants a consumer for; \<open>show_route\<close> prints a route.\<close>

definition wanted_routes :: "(route \<Rightarrow> string) \<Rightarrow> runner_pool \<Rightarrow> route list" where
  "wanted_routes show_route pool =
     dedup_by_key show_route (sort_key show_route (concat (map (\<lambda>n.
       map (\<lambda>r. RRunner (ru_id r)) (dispatchable n)
       @ (if ns_network_id n = [] then [] else [RNetwork (ns_network_id n)])) (served pool))))"

section \<open>What leaves the job table alone\<close>

abbreviation world_jobs :: "world \<Rightarrow> job_row list" where
  "world_jobs w \<equiv> db_jobs (sy_db (wo_sys w))"

abbreviation world_pool :: "world \<Rightarrow> vm_table" where
  "world_pool w \<equiv> sy_pool (wo_sys w)"

lemma world_parts [simp]:
  "wo_sys (tell H msg p kvs w) = emit (ho_sched H) (jm_run_id msg) (jp_key p) (JObj (bm_of kvs)) (wo_sys w)"
  "sy_db (emit E r k v s) = sy_db s" "sy_pool (emit E r k v s) = sy_pool s"
  "sy_db (wo_sys (on_pool f w)) = sy_db (wo_sys w)" "world_pool (on_pool f w) = f (world_pool w)"
  "sy_db (wo_sys (on_images g w)) = sy_db (wo_sys w)" "world_pool (on_images g w) = world_pool w"
  "sy_db (wo_sys (on_sys (on_db h) w)) = h (sy_db (wo_sys w))" "world_pool (on_sys (on_db h) w) = world_pool w"
  "sy_db (wo_sys (put_io io w)) = io_db io" "world_pool (put_io io w) = world_pool w"
  by (simp_all add: tell_def on_sys_def emit_def on_pool_def on_images_def on_db_def put_io_def)

lemma destroyed_parts [simp]:
  "wo_destroyed (tell H msg p kvs w) = wo_destroyed w" "wo_destroyed (on_pool f w) = wo_destroyed w"
  "wo_destroyed (on_images g w) = wo_destroyed w" "wo_destroyed (on_sys h w) = wo_destroyed w"
  "wo_destroyed (put_io io w) = wo_destroyed w" "wo_destroyed (w\<lparr>wo_tunnels := c\<rparr>) = wo_destroyed w"
  by (simp_all add: tell_def on_sys_def on_pool_def on_images_def put_io_def)

lemma io_of_parts [simp]: "io_db (io_of w) = sy_db (wo_sys w)"
  by (simp add: io_of_def)

lemma step_writes_jobs [simp]:
  "db_jobs (start_step now sid op d) = db_jobs d" "db_jobs (finish_step now sid st code err d) = db_jobs d"
  "db_jobs (append_log sid path t d) = db_jobs d" "db_jobs (io_db (write_log sid path t io)) = db_jobs (io_db io)"
  "db_jobs (io_db (end_step G sid st code err io)) = db_jobs (io_db io)"
  by (simp_all add: start_step_def finish_step_def append_log_def write_log_def end_step_def)

lemma create_step_jobs: "create_step sid jid idx name uses d = Ok d' \<Longrightarrow> db_jobs d' = db_jobs d"
  by (auto simp: create_step_def split: if_splits)

lemma host_options_sys: "host_options H runner w = (r, w') \<Longrightarrow> wo_sys w' = wo_sys w \<and> wo_destroyed w' = wo_destroyed w"
  by (auto simp: host_options_def split: prod.splits)

lemma destroy_vm_sys: "wo_sys (snd (destroy_vm H vm w)) = wo_sys w"
  by (simp add: destroy_vm_def split: result.splits)

lemma release_vm_db [simp]: "sy_db (wo_sys (release_vm H p vm c w)) = sy_db (wo_sys w)"
  by (simp add: release_vm_def destroy_vm_sys)

lemma evict_tunnel_sys [simp]:
  "wo_sys (evict_tunnel runner P r w) = wo_sys w" "wo_destroyed (evict_tunnel runner P r w) = wo_destroyed w"
  by (simp_all add: evict_tunnel_def split: result.splits)

lemma log_step_keeps:
  "world_jobs (log_step H msg p sid idx name t w) = world_jobs w
   \<and> world_pool (log_step H msg p sid idx name t w) = world_pool w
   \<and> wo_destroyed (log_step H msg p sid idx name t w) = wo_destroyed w"
  by (auto simp: log_step_def Let_def create_step_jobs split: result.splits)

lemmas log_keeps [simp] =
  log_step_keeps [of H msg p "jm_job_id msg @ ''.imglog''" "-3" "''Image '' @ name" t w, folded attach_build_log_def]
  log_step_keeps [of H msg p "jm_job_id msg @ ''.vmlog''" "-2" "''VM log''" "console_text H vm" w, folded capture_vm_log_def]
  for H msg p name t w vm

lemma resolve_image_keeps:
  assumes "resolve_image H runner p msg w = (r, w')"
  shows "world_jobs w' = world_jobs w \<and> world_pool w' = world_pool w \<and> wo_destroyed w' = wo_destroyed w"
proof -
  have "world_jobs w' = world_jobs w \<and> world_pool w' = world_pool w \<and> wo_destroyed w' = wo_destroyed w"
    if "build_image H runner p bp msg w = (r, w')" for bp r w w'
    using that host_options_sys [of H runner w]
    by (auto simp: build_image_def Let_def split: prod.splits result.splits option.splits)
  then have "world_jobs w' = world_jobs w \<and> world_pool w' = world_pool w \<and> wo_destroyed w' = wo_destroyed w"
    if "ensure_image H runner p b msg w = (r, w')" for b r
    using that
    by (fastforce simp: ensure_image_def Let_def split: result.splits prod.splits option.splits bool.splits)
  with assms show ?thesis by (fastforce simp: resolve_image_def split: option.splits prod.splits result.splits)
qed

lemma acquire_vm_jobs:
  assumes "acquire_vm H runner p fp jid w = (r, w')"
  shows "sy_db (wo_sys w') = sy_db (wo_sys w)"
proof -
  have "sy_db (wo_sys w') = sy_db (wo_sys w)" if "claim_pooled H runner p fp jid w = (r, w')" for r w w'
    using that by (auto simp: claim_pooled_def Let_def split: if_splits prod.splits option.splits result.splits)
  moreover have "sy_db (wo_sys w') = sy_db (wo_sys w)" if "fresh_vm H runner p fp jid w = (r, w')" for r w w'
    using that by (auto simp: fresh_vm_def forget_missing_image_def Let_def split: prod.splits option.splits result.splits)
  ultimately show ?thesis using assms host_options_sys [of H runner w]
    unfolding acquire_vm_def by (fastforce split: prod.splits result.splits option.splits)
qed

lemma machine_for_db:
  assumes "machine_for H msg p runner existing w = (r, w')"
  shows "sy_db (wo_sys w') = sy_db (wo_sys w)"
proof -
  have "wo_sys w' = wo_sys w" if "resolve_existing_vm H runner wanted w = (r, w')" for wanted r w w'
    using that host_options_sys [of H runner w]
    by (auto simp: resolve_existing_vm_def split: prod.splits result.splits option.splits)
  then show ?thesis using assms host_options_sys [of H runner] acquire_vm_jobs
    unfolding machine_for_def by (fastforce split: option.splits prod.splits result.splits)
qed

lemma checkout_jobs: "checkout H msg p vm io = (r, io') \<Longrightarrow> db_jobs (io_db io') = db_jobs (io_db io)"
  by (auto simp: checkout_def fail_checkout_def Let_def create_step_jobs
      split: result.splits option.splits if_splits)

section \<open>The job table stays consistent\<close>

lemma jobs_ok_jobs: "db_jobs d' = db_jobs d \<Longrightarrow> jobs_ok d' = jobs_ok d"
  by (simp add: jobs_ok_def)

text \<open>Other processes only do to the job table what this one does: they keep it consistent.\<close>

definition polite :: "host \<Rightarrow> bool" where
  "polite H \<longleftrightarrow> (\<forall>s. jobs_ok (sy_db s) \<longrightarrow> jobs_ok (sy_db (ho_others H s)))
     \<and> (\<forall>vm sid d. jobs_ok d \<longrightarrow> jobs_ok (gu_others (ho_guest H vm) sid d))"

lemma run_action_jobs:
  "run_action G L msg p action st ctx sid io = (r, io') \<Longrightarrow> db_jobs (io_db io') = db_jobs (io_db io)"
  by (auto simp: run_action_def upload_artifact_def record_artifact_def Let_def
      split: if_splits option.splits result.splits)

lemma do_action_jobs:
  "do_action G L msg p S st ctx sid path outs io = (flow, io') \<Longrightarrow> db_jobs (io_db io') = db_jobs (io_db io)"
  by (auto simp: do_action_def Let_def split: prod.splits result.splits dest!: run_action_jobs)

lemma do_command_jobs:
  "do_command G L p S idx st run ctx sid path outs io = (flow, io') \<Longrightarrow> db_jobs (io_db io') = db_jobs (io_db io)"
  by (auto simp: do_command_def Let_def split: result.splits prod.splits)

lemma run_step_jobs:
  assumes "run_step G L msg p S failed outs i st io = (flow, io')"
  shows "db_jobs (io_db io') = db_jobs (gu_others G (step_id (jm_job_id msg) i) (io_db io))"
  using assms unfolding run_step_def Let_def
  by (auto split: if_splits result.splits bool.splits option.splits
      dest!: do_action_jobs do_command_jobs create_step_jobs)

lemma step_loop_jobs_ok:
  assumes "\<And>sid d. jobs_ok d \<Longrightarrow> jobs_ok (gu_others G sid d)"
  shows "step_loop G L msg p S failed outs sts io = (r, io') \<Longrightarrow> jobs_ok (io_db io) \<Longrightarrow> jobs_ok (io_db io')"
proof (induction sts arbitrary: outs io)
  case (Cons ist sts)
  obtain idx st where ist: "ist = (idx, st)" by fastforce
  obtain flow io1 where step: "run_step G L msg p S failed outs idx st io = (flow, io1)" by fastforce
  have "jobs_ok (io_db io1)"
    using jobs_ok_jobs [OF run_step_jobs [OF step]] assms Cons.prems(2) by simp
  then show ?case using Cons ist step by (cases flow) auto
qed simp

lemma run_steps_jobs_ok:
  assumes "\<And>sid d. jobs_ok d \<Longrightarrow> jobs_ok (gu_others G sid d)" "jobs_ok (io_db io)" "run_steps G L msg p io = (r, io')"
  shows "jobs_ok (io_db io')"
  using assms(2,3) step_loop_jobs_ok [OF assms(1)]
  by (auto simp: run_steps_def Let_def split: result.splits option.splits prod.splits)

lemma job_body_jobs_ok:
  assumes "polite H" "jobs_ok (sy_db (wo_sys w))" "job_body H msg p vm w = (r, w')"
  shows "jobs_ok (sy_db (wo_sys w'))"
proof -
  obtain c io where c: "checkout H msg p vm (io_of w) = (c, io)" by fastforce
  then have ok: "jobs_ok (io_db io)" using assms(2) checkout_jobs [OF c] by (simp add: jobs_ok_def)
  show ?thesis
  proof (cases c)
    case (Err e)
    with assms(3) c ok show ?thesis by (auto simp: job_body_def)
  next
    case (Ok u)
    obtain r' io' where s: "run_steps (ho_guest H vm) (se_lib (ho_sched H)) msg p io = (r', io')" by fastforce
    with run_steps_jobs_ok [OF _ ok s] assms(1) have "jobs_ok (io_db io')" by (simp add: polite_def)
    with assms(3) c s Ok show ?thesis by (auto simp: job_body_def)
  qed
qed

text \<open>A job whose row, if there is one, is finished.\<close>

definition job_settled :: "string \<Rightarrow> db \<Rightarrow> bool" where
  "job_settled jid d \<longleftrightarrow> (\<forall>j\<in>set (db_jobs d). jr_id j = jid \<longrightarrow> job_terminal (jr_status j))"

lemma job_unique: "jobs_ok d \<Longrightarrow> i \<in> set (db_jobs d) \<Longrightarrow> j \<in> set (db_jobs d) \<Longrightarrow> jr_id i = jr_id j \<Longrightarrow> i = j"
  by (auto simp: jobs_ok_def distinct_map dest: inj_onD)

lemma job_status_for_terminal: "job_terminal (job_status_for p outcome)"
  by (simp add: job_status_for_def terminal_simps split: result.splits dispatch_error.splits)

lemma set_job_status_settles: "job_terminal st \<Longrightarrow> job_settled jid (set_job_status now jid st err d)"
  by (auto simp: job_settled_def set_job_status_def update_job_def Let_def ball_update_rows set_job_row_def)

lemma update_job_refused:
  "update_job jid unfinished f d = (False, d') \<Longrightarrow> job_settled jid d' \<and> db_jobs d' = db_jobs d"
  by (auto simp: update_job_def Let_def affected_def job_settled_def update_rows_def filter_empty_conv
      intro!: map_idI)

lemma claim_refused:
  "claim_job now jid runner attempt d = (False, d') \<Longrightarrow> job_settled jid d' \<and> db_jobs d' = db_jobs d"
  "start_job now jid runner vm fp attempt d = (False, d') \<Longrightarrow> job_settled jid d' \<and> db_jobs d' = db_jobs d"
  unfolding claim_job_def start_job_def by (rule update_job_refused, assumption)+

lemma claimed_ok:
  "jobs_ok d \<Longrightarrow> claim_job now jid runner attempt d = (b, d') \<Longrightarrow> jobs_ok d'"
  "jobs_ok d \<Longrightarrow> start_job now jid runner vm fp attempt d = (b, d') \<Longrightarrow> jobs_ok d'"
  using jobs_ok_step [OF step_claim] jobs_ok_step [OF step_start] by (metis snd_conv)+

lemma settle_job_settles:
  assumes "jobs_ok (sy_db (wo_sys w))"
  shows "job_settled (jm_job_id msg) (sy_db (wo_sys (settle_job H msg p outcome w)))
    \<and> jobs_ok (sy_db (wo_sys (settle_job H msg p outcome w)))"
proof -
  let ?f = "case outcome of Ok o' \<Rightarrow> set_job_outputs (jm_job_id msg) o' | Err _ \<Rightarrow> id"
  have "jobs_ok (?f (sy_db (wo_sys w)))"
    using assms jobs_ok_step [OF step_outputs] by (auto split: result.splits)
  then show ?thesis
    using jobs_ok_step [OF step_finish [OF job_status_for_terminal]] job_status_for_terminal
    by (simp add: settle_job_def Let_def set_job_status_settles)
qed

lemma run_on_settles:
  assumes "polite H" "jobs_ok (sy_db (wo_sys w))" "run_on H msg attempt p runner vm reused fp w = (r, w')"
  shows "is_ok r \<and> job_settled (jm_job_id msg) (sy_db (wo_sys w')) \<and> jobs_ok (sy_db (wo_sys w'))"
proof -
  obtain b d where b: "start_job (ho_now H) (jm_job_id msg) runner vm fp (int attempt) (sy_db (wo_sys w)) = (b, d)"
    by fastforce
  show ?thesis
  proof (cases b)
    case False
    with b claim_refused(2) claimed_ok(2) [OF assms(2) b] assms(3) show ?thesis
      by (auto simp: run_on_def)
  next
    case True
    let ?w = "tell H msg p [(''status'', JStr ''running''), (''runner'', JStr runner), (''sandbox'', JStr vm),
       (''reusedVm'', JBool reused), (''attempt'', JNum (NInt (int attempt)))] (on_sys (on_db (\<lambda>_. d)) w)"
    obtain out w2 where body: "job_body H msg p vm ?w = (out, w2)" by fastforce
    have "jobs_ok (sy_db (wo_sys ?w))" using claimed_ok(2) [OF assms(2) b] by simp
    from job_body_jobs_ok [OF assms(1) this body] have "jobs_ok (sy_db (wo_sys (capture_vm_log H msg p vm w2)))"
      using log_keeps(2) by (simp add: jobs_ok_def)
    then have ok: "jobs_ok (sy_db (wo_sys (evict_tunnel runner is_tunnel_failure out
        (release_vm H p vm c (capture_vm_log H msg p vm w2)))))" for c by simp
    show ?thesis
      using assms(3) b True body settle_job_settles [OF ok]
      by (auto simp: run_on_def Let_def)
  qed
qed

lemma run_claimed_settles:
  assumes "polite H" "jobs_ok (sy_db (wo_sys w))" "run_claimed H msg attempt p runner existing w = (r, w')"
  shows "jobs_ok (sy_db (wo_sys w')) \<and> (is_ok r \<longrightarrow> job_settled (jm_job_id msg) (sy_db (wo_sys w')))"
proof -
  obtain b d where b: "claim_job (ho_now H) (jm_job_id msg) runner (int attempt) (sy_db (wo_sys w)) = (b, d)"
    by fastforce
  note ok = claimed_ok(1) [OF assms(2) b]
  show ?thesis
  proof (cases b)
    case False
    with b claim_refused(1) ok assms(3) show ?thesis by (auto simp: run_claimed_def)
  next
    case True
    let ?w = "tell H msg p [(''status'', JStr ''running''), (''runner'', JStr runner),
       (''phase'', JStr ''acquiring a VM''), (''attempt'', JNum (NInt (int attempt)))] (on_sys (on_db (\<lambda>_. d)) w)"
    obtain q w2 where img: "resolve_image H runner p msg ?w = (q, w2)" by fastforce
    have ok2: "jobs_ok (sy_db (wo_sys w2))" using resolve_image_keeps [OF img] ok by (simp add: jobs_ok_def)
    show ?thesis
    proof (cases q)
      case (Err e)
      with assms(3) b True img ok2 show ?thesis by (auto simp: run_claimed_def)
    next
      case q: (Ok p')
      obtain m w3 where m: "machine_for H msg p' runner existing w2 = (m, w3)" by fastforce
      have ok3: "jobs_ok (sy_db (wo_sys w3))" using machine_for_db [OF m] ok2 by simp
      show ?thesis
      proof (cases m)
        case (Err e)
        with assms(3) b True img q m ok3 show ?thesis by (auto simp: run_claimed_def)
      next
        case (Ok v)
        obtain vm reused fp where v: "v = (vm, reused, fp)" by (cases v) auto
        have "run_on H msg attempt p' runner vm reused fp (on_sys (ho_others H) w3) = (r, w')"
          using assms(3) b True img q m Ok v by (simp add: run_claimed_def)
        from run_on_settles [OF assms(1) _ this] ok3 assms(1) show ?thesis
          by (simp add: polite_def on_sys_def)
      qed
    qed
  qed
qed

lemma run_job_settles:
  assumes "polite H" "jobs_ok (sy_db (wo_sys w))" "run_job H msg attempt w = (r, w')"
  shows "jobs_ok (sy_db (wo_sys w')) \<and> (is_ok r \<longrightarrow> job_settled (jm_job_id msg) (sy_db (wo_sys w')))"
proof (cases "get_job (jm_job_id msg) (sy_db (wo_sys w))")
  case None
  with assms(2,3) show ?thesis by (auto simp: run_job_def)
next
  case (Some row)
  then have row: "row \<in> set (world_jobs w)" "jr_id row = jm_job_id msg"
    by (auto simp: get_job_def dest: find_SomeD)
  show ?thesis
  proof (cases "jr_status row \<in> {JSuccess, JFailure, JSkipped, JCancelled}")
    case True
    have "j = row" if "j \<in> set (world_jobs w)" "jr_id j = jm_job_id msg" for j
      using job_unique [OF assms(2) that(1) row(1)] that(2) row(2) by simp
    then have "job_settled (jm_job_id msg) (sy_db (wo_sys w))"
      using True by (auto simp: job_settled_def job_terminal_def)
    with assms(2,3) Some True show ?thesis by (auto simp: run_job_def)
  next
    case False
    with assms Some show ?thesis
      by (auto simp: run_job_def split: result.splits prod.splits dest!: run_claimed_settles [OF assms(1,2)])
  qed
qed

lemma advance_run_settled:
  assumes "jobs_ok (sy_db s)" "job_settled jid (sy_db s)"
  shows "job_settled jid (sy_db (snd (advance_run E run_id s)))"
proof -
  obtain st s' where a: "advance_run E run_id s = (st, s')" by fastforce
  have leave: "run_decision E run_id s j = Leave" if "job_terminal (jr_status j)" for j
    using that by (auto simp: decide_def job_terminal_def)
  have "\<forall>j\<in>set (db_jobs (sy_db s')). jr_id j = jid \<longrightarrow> job_terminal (jr_status j)"
    using assms(2) leave unfolding conjunct1 [OF advance_run_effect [OF assms(1) a]] job_settled_def
    by (fastforce split: if_splits)
  then show ?thesis by (simp add: a job_settled_def)
qed

section \<open>Properties\<close>

text \<open>C1. No job outlives its last delivery: when a message is delivered for the last time it is
  acknowledged, and afterwards the job, if it exists, is finished. This holds whatever the daemon,
  the guest, the secret store or the tunnel answered, whether the job was cut off by the time limit
  in any state, and whatever other processes did meanwhile, as long as they kept the job table
  consistent. An earlier delivery that fails is handed back with a delay of one to fifteen minutes.\<close>

theorem last_delivery_settles:
  assumes "polite H" "jobs_ok (sy_db (wo_sys w))" "\<And>w'. dropped = Some w' \<Longrightarrow> jobs_ok (sy_db (wo_sys w'))"
    and "deliver H ceiling attempt (Some msg) dropped w = (a, w')"
  shows "(MAX_DELIVER \<le> attempt \<longrightarrow> a = Acked)
    \<and> (a = Acked \<longrightarrow>
         (case get_job (jm_job_id msg) (sy_db (wo_sys w')) of None \<Rightarrow> True | Some j \<Rightarrow> job_terminal (jr_status j)))
    \<and> (\<forall>t. a = Nak t \<longrightarrow> attempt < MAX_DELIVER \<and> 60 \<le> t \<and> t \<le> 15 * 60)"
proof -
  let ?jid = "jm_job_id msg"
  define run where "run = (case dropped of None \<Rightarrow> run_job H msg attempt w
      | Some w' \<Rightarrow> (Err (JobTimeout (jm_job_key msg) ceiling), w'))"
  obtain out w1 where r: "run = (out, w1)" by fastforce
  have ok: "jobs_ok (sy_db (wo_sys w1))" and settled: "is_ok out \<Longrightarrow> job_settled ?jid (sy_db (wo_sys w1))"
    using r run_job_settles [OF assms(1,2)] assms(3) by (auto simp: run_def split: option.splits)
  have get: "case get_job ?jid d of None \<Rightarrow> True | Some j \<Rightarrow> job_terminal (jr_status j)" if "job_settled ?jid d" for d
    using that by (auto simp: job_settled_def get_job_def split: option.splits dest!: find_SomeD)
  have adv: "case get_job ?jid (sy_db (snd (advance_run E k s))) of None \<Rightarrow> True | Some j \<Rightarrow> job_terminal (jr_status j)"
    if "jobs_ok (sy_db s)" "job_settled ?jid (sy_db s)" for E k s
    using advance_run_settled [OF that] by (rule get)
  have gone: "jobs_ok (set_job_status now ?jid JFailure err d) \<and> job_settled ?jid (set_job_status now ?jid JFailure err d)"
    if "jobs_ok d" for now err d
    using that jobs_ok_step [OF step_finish] set_job_status_settles by (simp add: terminal_simps)
  let ?adv = "on_sys (\<lambda>s. snd (advance_run (ho_sched H) (jm_run_id msg) s))"
  note unfolded = assms(4) [unfolded deliver_def option.case run_def [symmetric] r, simplified]
  show ?thesis
  proof (cases out)
    case (Ok st)
    then have "a = Acked" "w' = ?adv w1" using unfolded by auto
    then show ?thesis using adv [OF ok settled] Ok by (simp add: on_sys_def)
  next
    case e: (Err e)
    show ?thesis
    proof (cases "MAX_DELIVER \<le> attempt")
      case True
      then have "a = Acked" "w' = ?adv (on_sys (on_db (set_job_status (ho_now H) ?jid JFailure
          (Some (''giving up after '' @ nat_str attempt @ '' attempts: '' @ ho_show H e)))) w1)"
        using unfolded e by auto
      then show ?thesis using adv gone [OF ok] by (simp add: on_sys_def on_db_def)
    next
      case False
      then have "a = Nak (backoff_for attempt)" using unfolded e by auto
      then show ?thesis using False backoff_bounds [of attempt] by (simp add: ACK_WAIT_def)
    qed
  qed
qed


definition sample_host :: host where
  "sample_host = \<lparr>ho_sched = sample_env, ho_runners = sample_config\<lparr>rc_local_runner := Some ''http://localhost''\<rparr>,
     ho_tunnel = \<lparr>te_ticket = Err [], te_dial = (\<lambda>_. Err []), te_probe = (\<lambda>_. ProbeFailed)\<rparr>, ho_lease = sample_lease,
     ho_locked = (\<lambda>_. False), ho_connect = (\<lambda>_. Ok ()),
     ho_look = (\<lambda>_. Ok \<lparr>si_status = Running, si_error_message = None\<rparr>), ho_start = (\<lambda>_. Ok ()),
     ho_wait = (\<lambda>_. Err (Connection [])), ho_create = (\<lambda>_ _. Ok ''vm-9''), ho_destroy = (\<lambda>_. Ok ()),
     ho_sandboxes = (\<lambda>_. Ok [(''vm-7'', ''dev'')]), ho_nonce = 1, ho_guest = (\<lambda>_. sample_guest False),
     ho_console = (\<lambda>_. Ok []), ho_encode_spec = (\<lambda>_. Ok []), ho_sha = (\<lambda>_. ''x''), ho_files = (\<lambda>_. FileNotFound),
     ho_source = None, ho_workspace_dir = ''ws'', ho_log_root = ''logs'', ho_base64 = (\<lambda>b. b), ho_pack = (\<lambda>_. Ok []),
     ho_read_text = (\<lambda>_. Ok []), ho_dir = (\<lambda>_. None), ho_claims = [], ho_last_claim = (\<lambda>r. r),
     ho_build_client = Ok (), ho_build_first = Err (Connection []), ho_build_polls = [],
     ho_build_last = (Err (Connection []), Err (Connection [])), ho_build_log = [], ho_others = (\<lambda>s. s)\<rparr>"

definition sample_world :: world where
  "sample_world = \<lparr>wo_sys = sample_sys, wo_logs = [], wo_tunnels = (\<lambda>_. None), wo_destroyed = []\<rparr>"

lemma sample_polite: "polite sample_host"
  by (simp add: polite_def sample_host_def sample_guest_def)

lemma sample_world_ok: "jobs_ok (sy_db (wo_sys sample_world))"
  using sample_sys_ok by (simp add: sample_world_def)

theorem last_delivery_settles_witness:
  "fst (deliver sample_host 60 4 (Some sample_message) None sample_world) = Acked"
proof -
  obtain a w' where d: "deliver sample_host 60 4 (Some sample_message) None sample_world = (a, w')" by fastforce
  from last_delivery_settles [OF sample_polite sample_world_ok _ d] show ?thesis
    by (simp add: d MAX_DELIVER_def)
qed


section \<open>The custody of a VM\<close>

text \<open>Every VM the pool lists as claimed by a job is among the given ones.\<close>

definition holds_only :: "string \<Rightarrow> string set \<Rightarrow> vm_table \<Rightarrow> bool" where
  "holds_only jid S rows \<longleftrightarrow> (\<forall>r\<in>set rows. pv_claimed_by_job r = Some jid \<longrightarrow> pv_sandbox_id r \<in> S)"

lemma holds_claim:
  "holds_only jid {} rows \<Longrightarrow> claim_vm locked now runner fp jid l rows = (v, rows') \<Longrightarrow>
     holds_only jid (set_option v) rows'"
proof -
  assume none: "holds_only jid {} rows" and claim: "claim_vm locked now runner fp jid l rows = (v, rows')"
  have "holds_only jid {vm} (update_rows (\<lambda>r. pv_sandbox_id r = vm) (claim_vm_row now jid l) rows)" for vm
    using none unfolding holds_only_def ball_update_rows by (simp add: claim_vm_row_def)
  with none claim show ?thesis by (auto simp: claim_vm_def split: option.splits)
qed

lemma holds_forget: "holds_only jid S rows \<Longrightarrow> holds_only jid (S - {vm}) (forget_vm vm rows)"
  by (auto simp: holds_only_def forget_vm_def)

lemma holds_upsert:
  assumes "holds_only jid {} rows" "pv_sandbox_id new = vm"
    and "\<And>r. pv_sandbox_id r = vm \<Longrightarrow> pv_sandbox_id (f r) = vm"
  shows "holds_only jid {vm} (upsert_vm new f rows)"
  using assms by (auto simp: holds_only_def upsert_vm_def ball_update_rows)

lemma holds_begin_build:
  "holds_only jid {} rows \<Longrightarrow> begin_build now j runner fp wid l rows = (b, rows') \<Longrightarrow> holds_only jid {b} rows'"
  by (auto simp: begin_build_def Let_def build_row_def intro!: holds_upsert)

lemma holds_register: "holds_only jid {} rows \<Longrightarrow> holds_only jid {vm} (register_vm now vm runner fp wid j l rows)"
  by (auto simp: register_vm_def Let_def register_row_def intro!: holds_upsert)

lemma holds_release: "holds_only jid {vm} rows \<Longrightarrow> holds_only jid {} (release_vm_row now vm rows)"
  by (auto simp: holds_only_def release_vm_row_def ball_update_rows release_row_def)

lemma forget_missing_image_pool [simp]: "world_pool (forget_missing_image H runner p e w) = world_pool w"
  by (simp add: forget_missing_image_def split: option.splits)

lemma fresh_vm_holds:
  assumes "holds_only jid {} (world_pool w)" "fresh_vm H runner p fp jid w = (r, w')"
  shows "holds_only jid (case r of Ok vm \<Rightarrow> {vm} | Err _ \<Rightarrow> {}) (world_pool w')"
proof -
  obtain b rows where b: "begin_build (ho_now H) jid runner fp (jp_base_id p) (ho_lease H) (world_pool w) = (b, rows)"
    by fastforce
  have "holds_only jid {} (forget_vm b rows)"
    using holds_forget [OF holds_begin_build [OF assms(1) b], of b] by simp
  then show ?thesis using assms(2) b holds_register by (auto simp: fresh_vm_def Let_def split: result.splits)
qed

lemma claim_pooled_holds:
  assumes "holds_only jid {} (world_pool w)" "claim_pooled H runner p fp jid w = (Ok v, w')"
  shows "holds_only jid (set_option v) (world_pool w')"
proof -
  obtain c rows where c: "claim_vm (ho_locked H) (ho_now H) runner fp jid (ho_lease H) (world_pool w) = (c, rows)"
    by fastforce
  note holds = holds_claim [OF assms(1) c]
  show ?thesis
  proof (cases c)
    case None
    with assms c holds show ?thesis by (auto simp: claim_pooled_def split: if_splits)
  next
    case (Some vm)
    with assms c holds holds_forget [of jid "{vm}" rows vm] show ?thesis
      by (auto simp: claim_pooled_def Let_def split: if_splits result.splits)
  qed
qed

lemma acquire_vm_holds:
  assumes "holds_only jid {} (world_pool w)" "acquire_vm H runner p fp jid w = (Ok (vm, reused), w')"
  shows "holds_only jid {vm} (world_pool w')"
proof -
  obtain o1 w1 where o1: "host_options H runner w = (o1, w1)" by fastforce
  have w1: "holds_only jid {} (world_pool w1)" using host_options_sys [OF o1] assms(1) by simp
  obtain c w2 where c: "claim_pooled H runner p fp jid w1 = (c, w2)" by fastforce
  from assms(2) o1 c obtain v where v: "c = Ok v"
    by (auto simp: acquire_vm_def split: result.splits)
  note h = claim_pooled_holds [OF w1 c [unfolded v]]
  show ?thesis
  proof (cases v)
    case (Some vm')
    with assms(2) o1 c v h show ?thesis by (auto simp: acquire_vm_def split: result.splits)
  next
    case None
    with assms(2) o1 c v obtain f where f: "fresh_vm H runner p fp jid w2 = (f, w')" "f = Ok vm"
      by (auto simp: acquire_vm_def split: result.splits prod.splits)
    with fresh_vm_holds [OF _ f(1)] h None show ?thesis by simp
  qed
qed

lemma job_body_pool:
  "job_body H msg p vm w = (r, w') \<Longrightarrow> world_pool w' = world_pool w \<and> wo_destroyed w' = wo_destroyed w"
  by (auto simp: job_body_def split: prod.splits result.splits)

lemma settle_job_pool [simp]:
  "world_pool (settle_job H msg p outcome w) = world_pool w"
  "wo_destroyed (settle_job H msg p outcome w) = wo_destroyed w"
  by (simp_all add: settle_job_def Let_def)

text \<open>What running a job on a machine does to the pool is what releasing the machine does.\<close>

lemma run_on_pool:
  assumes "run_on H msg attempt p runner vm reused fp w = (r, w')"
  shows "\<exists>c w0. world_pool w0 = world_pool w \<and> wo_destroyed w0 = wo_destroyed w
    \<and> world_pool w' = world_pool (release_vm H p vm c w0)
    \<and> wo_destroyed w' = wo_destroyed (release_vm H p vm c w0)"
proof -
  obtain b d where b: "start_job (ho_now H) (jm_job_id msg) runner vm fp (int attempt) (sy_db (wo_sys w)) = (b, d)"
    by fastforce
  show ?thesis
  proof (cases b)
    case False
    with assms b show ?thesis
      by (intro exI [of _ False] exI [of _ "on_sys (on_db (\<lambda>_. d)) w"]) (auto simp: run_on_def)
  next
    case True
    let ?w = "tell H msg p [(''status'', JStr ''running''), (''runner'', JStr runner), (''sandbox'', JStr vm),
       (''reusedVm'', JBool reused), (''attempt'', JNum (NInt (int attempt)))] (on_sys (on_db (\<lambda>_. d)) w)"
    obtain out w2 where body: "job_body H msg p vm ?w = (out, w2)" by fastforce
    let ?c = "case out of Err e \<Rightarrow> indicates_guest_corruption (\<lambda>v. ho_show H (DVm v)) e | Ok _ \<Rightarrow> False"
    from assms b True body have "w' = settle_job H msg p out (evict_tunnel runner is_tunnel_failure out
        (release_vm H p vm ?c (capture_vm_log H msg p vm w2)))"
      by (auto simp: run_on_def Let_def)
    with job_body_pool [OF body] log_keeps(2) [of H msg p vm w2] show ?thesis
      by (intro exI [of _ ?c] exI [of _ "capture_vm_log H msg p vm w2"]) simp
  qed
qed

lemma release_vm_holds:
  assumes "\<not> is_existing_vm (jp_target p)" "holds_only jid {vm} (world_pool w)"
  shows "holds_only jid {} (world_pool (release_vm H p vm c w))"
  using assms holds_forget [of jid "{vm}" "world_pool w" vm] holds_release [of jid vm "world_pool w"]
  by (simp add: release_vm_def destroy_vm_sys)

lemma resolve_image_target: "resolve_image H runner p msg w = (Ok q, w') \<Longrightarrow> jp_target q = jp_target p"
  by (auto simp: resolve_image_def split: option.splits prod.splits result.splits)

text \<open>The stages of a claimed job that reaches a machine.\<close>

lemma run_claimed_stages:
  assumes "run_claimed H msg attempt p runner existing w = (r, w')"
  obtains (refused) "world_pool w' = world_pool w" "wo_destroyed w' = wo_destroyed w"
  | (no_machine) e q w2 where "world_pool w2 = world_pool w" "wo_destroyed w2 = wo_destroyed w" "jp_target q = jp_target p"
      "machine_for H msg q runner existing w2 = (Err e, w')" "r = Err e"
  | (ran) q w2 vm reused fp w3 where "world_pool w2 = world_pool w" "wo_destroyed w2 = wo_destroyed w"
      "jp_target q = jp_target p" "machine_for H msg q runner existing w2 = (Ok (vm, reused, fp), w3)"
      "run_on H msg attempt q runner vm reused fp (on_sys (ho_others H) w3) = (r, w')"
proof -
  obtain b d where b: "claim_job (ho_now H) (jm_job_id msg) runner (int attempt) (sy_db (wo_sys w)) = (b, d)"
    by fastforce
  show thesis
  proof (cases b)
    case False
    with assms b show thesis by (intro refused) (auto simp: run_claimed_def)
  next
    case True
    let ?w = "tell H msg p [(''status'', JStr ''running''), (''runner'', JStr runner),
       (''phase'', JStr ''acquiring a VM''), (''attempt'', JNum (NInt (int attempt)))] (on_sys (on_db (\<lambda>_. d)) w)"
    obtain q w2 where img: "resolve_image H runner p msg ?w = (q, w2)" by fastforce
    have w2: "world_pool w2 = world_pool w" "wo_destroyed w2 = wo_destroyed w"
      using resolve_image_keeps [OF img] by simp_all
    show thesis
    proof (cases q)
      case (Err e)
      with assms b True img w2 show thesis by (intro refused) (auto simp: run_claimed_def)
    next
      case q: (Ok p')
      note target = resolve_image_target [OF img [unfolded q]]
      obtain m w3 where m: "machine_for H msg p' runner existing w2 = (m, w3)" by fastforce
      show thesis
      proof (cases m)
        case (Err e)
        with assms b True img q m w2 target show thesis by (intro no_machine [of w2 p' e]) (auto simp: run_claimed_def)
      next
        case (Ok v)
        obtain vm reused fp where "v = (vm, reused, fp)" by (cases v) auto
        with assms b True img q m Ok w2 target show thesis
          by (intro ran [of w2 p' vm reused fp w3]) (auto simp: run_claimed_def)
      qed
    qed
  qed
qed


lemma machine_existing_pool:
  assumes "machine_for H msg p runner (Some wanted) w = (r, w')"
  shows "world_pool w' = world_pool w \<and> wo_destroyed w' = wo_destroyed w"
proof -
  have "wo_sys w' = wo_sys w \<and> wo_destroyed w' = wo_destroyed w" if "resolve_existing_vm H runner wanted w = (r, w')" for r w w'
    using that host_options_sys [of H runner w]
    by (auto simp: resolve_existing_vm_def split: prod.splits result.splits option.splits)
  then show ?thesis using assms host_options_sys [of H runner]
    unfolding machine_for_def by (fastforce split: prod.splits result.splits)
qed

lemma drain_keeps: "pv_sandbox_id ` set (update_rows P drain_row rows) = pv_sandbox_id ` set rows"
  unfolding set_map [symmetric] by (simp add: update_rows_def drain_row_def if_distrib cong: if_cong)

text \<open>Destroying a list of VMs: a row disappears only when its VM is confirmed destroyed.\<close>

lemma destroy_one_pool:
  assumes "destroy_one H x w = (r, w')"
  shows "set (wo_destroyed w) \<subseteq> set (wo_destroyed w')
    \<and> (\<forall>y\<in>set (world_pool w). y \<in> set (world_pool w')
         \<or> pv_sandbox_id y = pv_sandbox_id x \<and> pv_sandbox_id x \<in> set (wo_destroyed w'))"
proof -
  obtain o1 w1 where o1: "host_options H (pv_runner_hd_id x) w = (o1, w1)" by fastforce
  then show ?thesis using assms host_options_sys [OF o1]
    by (auto simp: destroy_one_def destroy_vm_def forget_vm_def split: result.splits)
qed

lemma destroy_swept_pool:
  "destroy_swept H xs n failed w = (res, w') \<Longrightarrow> set (wo_destroyed w) \<subseteq> set (wo_destroyed w')
    \<and> (\<forall>y\<in>set (world_pool w). y \<in> set (world_pool w')
         \<or> pv_sandbox_id y \<in> pv_sandbox_id ` set xs \<and> pv_sandbox_id y \<in> set (wo_destroyed w'))"
proof (induction xs arbitrary: n failed w)
  case (Cons x xs)
  obtain r w1 where one: "destroy_one H x w = (r, w1)" by fastforce
  with Cons.prems obtain n' failed' where "destroy_swept H xs n' failed' w1 = (res, w')" by (cases r) auto
  note rest = Cons.IH [OF this]
  from rest destroy_one_pool [OF one] have "set (wo_destroyed w) \<subseteq> set (wo_destroyed w')" by blast
  moreover have "y \<in> set (world_pool w') \<or> pv_sandbox_id y \<in> pv_sandbox_id ` set (x # xs) \<and> pv_sandbox_id y \<in> set (wo_destroyed w')"
    if "y \<in> set (world_pool w)" for y
    using that rest destroy_one_pool [OF one] by (metis image_insert insert_iff list.simps(15) subsetD)
  ultimately show ?case by blast
qed simp

lemma dedup_set: "inj f \<Longrightarrow> set (dedup_by_key f xs) = set xs"
  by (induction f xs rule: dedup_by_key.induct) (auto dest: injD)

lemma dedup_sorted_distinct:
  "inj f \<Longrightarrow> sorted (map f xs) \<Longrightarrow> distinct (dedup_by_key f xs)"
proof (induction f xs rule: dedup_by_key.induct)
  case (1 f x y zs)
  show ?case
  proof (cases "f x = f y")
    case True
    with 1 show ?thesis by simp
  next
    case False
    with "1.prems" have "f x < f y" "\<forall>z\<in>set (y # zs). f y \<le> f z" by auto
    then have "x \<notin> set (y # zs)" by (metis leD)
    with False 1 dedup_set [OF "1.prems"(1)] show ?thesis by simp
  qed
qed auto


lemma sample_run_claimed:
  "\<exists>st w'. run_claimed sample_host sample_message 1 sample_cell ''hd-1'' None sample_world = (Ok st, w')"
proof -
  let ?m = sample_message and ?H = sample_host
  have build: "vm_build (jp_vm sample_cell) = None"
    by (simp add: sample_cell_def plan_cell_def sample_job_def substitute_matrix_def Let_def sample_vm_def)
  have options: "host_options ?H runner w = (Ok (), w)" for runner w
    by (simp add: host_options_def options_for_def sample_host_def sample_config_def)
  have fp: "\<exists>fp. fingerprint (ho_encode_spec ?H) (ho_sha ?H) (ho_files ?H) (jp_vm sample_cell) = Ok fp"
    by (simp add: fingerprint_def fingerprint_input_def sample_host_def key_files_def sample_cell_def plan_cell_def
        sample_job_def substitute_matrix_def Let_def sample_vm_def)
  have running: "vm_running ?H vm = Ok ()" "open_vm ?H vm = Ok ()" for vm
    by (simp_all add: vm_running_def ensure_running_def open_vm_def sample_host_def)
  have "ho_create ?H n sp = Ok ''vm-9''" for n sp by (simp add: sample_host_def)
  then have create: "create_vm ?H n sp = Ok ''vm-9''" for n sp by (simp add: create_vm_def running)
  have pooled: "\<exists>v w'. claim_pooled ?H runner p fp jid w = (Ok v, w')" for runner p fp jid w
    by (simp add: claim_pooled_def running Let_def split: prod.splits option.splits)
  have fresh: "\<exists>vm w'. fresh_vm ?H runner p fp jid w = (Ok vm, w')" for runner p fp jid w
    by (simp add: fresh_vm_def create Let_def split: prod.splits)
  have acquired: "is_ok (fst (acquire_vm ?H runner p fp jid w))" for runner p fp jid w
  proof -
    obtain v w2 where v: "claim_pooled ?H runner p fp jid w = (Ok v, w2)" using pooled by blast
    obtain vm w3 where "fresh_vm ?H runner p fp jid w2 = (Ok vm, w3)" using fresh by blast
    with v show ?thesis by (cases v) (simp_all add: acquire_vm_def options)
  qed
  have machine: "is_ok (fst (machine_for ?H ?m sample_cell runner None w))" for runner w
  proof -
    obtain fp where fp': "fingerprint (ho_encode_spec ?H) (ho_sha ?H) (ho_files ?H) (jp_vm sample_cell) = Ok fp"
      using fp by blast
    obtain a w1 where "acquire_vm ?H runner sample_cell fp (jm_job_id ?m) w = (a, w1)" by fastforce
    with acquired [of runner sample_cell fp "jm_job_id ?m" w] fp' show ?thesis
      by (auto simp: machine_for_def is_ok_iff)
  qed
  have ran: "\<exists>st w'. run_on ?H ?m 1 p runner vm reused fp w = (Ok st, w')" for p runner vm reused fp w
    by (simp add: run_on_def Let_def split: prod.splits bool.splits)
  obtain b d where b: "claim_job (ho_now ?H) (jm_job_id ?m) ''hd-1'' (int 1) (sy_db (wo_sys sample_world)) = (b, d)"
    by fastforce
  show ?thesis
  proof (cases b)
    case True
    let ?w = "tell ?H ?m sample_cell [(''status'', JStr ''running''), (''runner'', JStr ''hd-1''),
       (''phase'', JStr ''acquiring a VM''), (''attempt'', JNum (NInt (int 1)))] (on_sys (on_db (\<lambda>_. d)) sample_world)"
    obtain vm reused fp w3 where "machine_for ?H ?m sample_cell ''hd-1'' None ?w = (Ok (vm, reused, fp), w3)"
      using machine [of "''hd-1''" ?w] by (metis is_ok_iff prod.collapse)
    with b True ran show ?thesis unfolding run_claimed_def by (simp add: resolve_image_def build)
  qed (use b in \<open>simp add: run_claimed_def\<close>)
qed


text \<open>C21. A VM that a workflow only borrows is never disposed of: running a job in a VM its \<^verbatim>\<open>uses:\<close> names
  destroys nothing and leaves the pool as it was, in every outcome, even when the job reports a
  corrupted file system or asks not to reuse its VM.\<close>

theorem borrowed_vm_kept:
  assumes "run_claimed H msg attempt p runner (Some wanted) w = (r, w')" "is_existing_vm (jp_target p)"
    and "\<And>s. sy_pool (ho_others H s) = sy_pool s"
  shows "world_pool w' = world_pool w \<and> wo_destroyed w' = wo_destroyed w"
  using assms(1)
proof (cases rule: run_claimed_stages)
  case refused
  then show ?thesis by simp
next
  case (no_machine e q w2)
  then show ?thesis using machine_existing_pool by simp
next
  case (ran q w2 vm reused fp w3)
  then have "world_pool w3 = world_pool w" "wo_destroyed w3 = wo_destroyed w"
    using machine_existing_pool by simp_all
  moreover from run_on_pool [OF ran(5)] obtain c w0 where
    "world_pool w0 = world_pool (on_sys (ho_others H) w3)" "wo_destroyed w0 = wo_destroyed (on_sys (ho_others H) w3)"
    "world_pool w' = world_pool (release_vm H q vm c w0)" "wo_destroyed w' = wo_destroyed (release_vm H q vm c w0)"
    by blast
  ultimately show ?thesis using assms(2,3) ran(3) by (simp add: release_vm_def on_sys_def)
qed

theorem borrowed_vm_kept_witness:
  "wo_destroyed (snd (run_claimed sample_host sample_message 1 (sample_cell\<lparr>jp_target := target_any\<lparr>tg_vm := Some ''dev''\<rparr>\<rparr>)
      ''hd-1'' (Some ''dev'') sample_world)) = []"
proof -
  let ?p = "sample_cell\<lparr>jp_target := target_any\<lparr>tg_vm := Some ''dev''\<rparr>\<rparr>"
  obtain r w' where run: "run_claimed sample_host sample_message 1 ?p ''hd-1'' (Some ''dev'') sample_world = (r, w')"
    by fastforce
  have "is_existing_vm (jp_target ?p)" "\<And>s. sy_pool (ho_others sample_host s) = sy_pool s"
    by (simp_all add: is_existing_vm_def sample_host_def)
  from borrowed_vm_kept [OF run this] have "wo_destroyed w' = []" by (simp add: sample_world_def)
  then show ?thesis unfolding run by simp
qed

text \<open>C22. Sweeping loses no machine: after destroying the VMs of failed runs, every VM the pool listed is
  still listed or was confirmed destroyed by the daemon, and a VM in use or being built is exactly
  as it was.\<close>

theorem sweep_loses_no_vm:
  assumes "destroy_failed_vms H w = (report, w')" "pool_ok (world_pool w)" "r \<in> set (world_pool w)"
  shows "(pv_sandbox_id r \<in> pv_sandbox_id ` set (world_pool w') \<or> pv_sandbox_id r \<in> set (wo_destroyed w'))
    \<and> (pv_status r \<in> {Claimed, Building} \<longrightarrow> r \<in> set (world_pool w'))"
proof -
  let ?P = "failed_sweepable (ho_locked H) (served_runner_ids H) (sy_db (wo_sys w))"
  obtain taken rows where t: "take_failed_for_sweep (ho_locked H) (served_runner_ids H) (sy_db (wo_sys w))
      (world_pool w) = (taken, rows)" by fastforce
  have rows: "rows = world_pool w \<and> taken = [] \<or> rows = update_rows ?P drain_row (world_pool w)
      \<and> taken = map drain_row (filter ?P (world_pool w))"
    using t by (auto simp: take_failed_for_sweep_def drain_def split: if_splits)
  obtain res where sw: "destroy_swept H taken 0 [] (on_pool (\<lambda>_. rows) w) = (res, w')"
    using assms(1) t by (cases taken) (auto simp: destroy_failed_vms_def split: prod.splits)
  note swept = destroy_swept_pool [OF sw, simplified]
  have id: "pv_sandbox_id r \<in> pv_sandbox_id ` set rows"
    using rows assms(3) drain_keeps [of ?P "world_pool w"] by force
  have "r \<in> set (world_pool w')" if busy: "pv_status r \<in> {Claimed, Building}"
  proof -
    have "\<not> ?P r" using busy by (auto simp: failed_sweepable_def)
    then have "r \<in> set rows" using rows assms(3) by (auto simp: update_rows_def)
    moreover have "pv_sandbox_id r \<notin> pv_sandbox_id ` set taken"
    proof
      assume "pv_sandbox_id r \<in> pv_sandbox_id ` set taken"
      with rows obtain x where "x \<in> set (world_pool w)" "?P x" "pv_sandbox_id x = pv_sandbox_id r"
        by (auto simp: drain_row_def)
      with table_ok_key [OF assms(2) \<open>x \<in> set (world_pool w)\<close> assms(3)] \<open>\<not> ?P r\<close> show False by blast
    qed
    ultimately show ?thesis using conjunct2 [OF swept] by blast
  qed
  moreover from id obtain y where "y \<in> set rows" "pv_sandbox_id y = pv_sandbox_id r" by auto
  then have "pv_sandbox_id r \<in> pv_sandbox_id ` set (world_pool w') \<or> pv_sandbox_id r \<in> set (wo_destroyed w')"
    using bspec [OF conjunct2 [OF swept], of y] by (metis imageI)
  ultimately show ?thesis by blast
qed

theorem sweep_loses_no_vm_witness:
  "\<exists>report w'. destroy_failed_vms sample_host (on_pool (\<lambda>_. sample_pool) sample_world) = (report, w')
     \<and> (pv_sandbox_id (hd sample_pool) \<in> pv_sandbox_id ` set (world_pool w')
        \<or> pv_sandbox_id (hd sample_pool) \<in> set (wo_destroyed w'))"
proof -
  let ?w = "on_pool (\<lambda>_. sample_pool) sample_world"
  obtain report w' where d: "destroy_failed_vms sample_host ?w = (report, w')" by fastforce
  have "pool_ok (world_pool ?w)" "hd sample_pool \<in> set (world_pool ?w)"
    using vm_pool.inv_reach [OF sample_pool_reach] by (simp_all add: sample_pool_def register_vm_def upsert_vm_def Let_def)
  from sweep_loses_no_vm [OF d this] d show ?thesis by blast
qed

text \<open>Every queue a job can be published to has a consumer here as soon as its host is online: the
  queue of a network always, the queue of a host when the pool lists it online in a served network;
  and no queue is consumed twice.\<close>

theorem published_job_has_consumer:
  assumes "inj show_route" "route_for pool p = Ok route"
  shows "(case route of
       RNetwork n \<Rightarrow> route \<in> set (wanted_routes show_route pool)
     | RRunner i \<Rightarrow> route \<in> set (wanted_routes show_route pool)
         \<longleftrightarrow> (\<exists>n\<in>set (served pool). \<exists>r\<in>set (ns_runners n). ru_id r = i \<and> ru_status r = ROnline))
    \<and> distinct (wanted_routes show_route pool)"
proof -
  have "distinct (wanted_routes show_route pool)"
    unfolding wanted_routes_def by (intro dedup_sorted_distinct assms(1)) simp
  moreover have set_wanted: "x \<in> set (wanted_routes show_route pool) \<longleftrightarrow>
      (\<exists>n\<in>set (served pool). (\<exists>r\<in>set (dispatchable n). x = RRunner (ru_id r))
         \<or> ns_network_id n \<noteq> [] \<and> x = RNetwork (ns_network_id n))" for x
    unfolding wanted_routes_def dedup_set [OF assms(1)] by auto
  ultimately show ?thesis
  proof (cases route)
    case (RRunner i)
    then show ?thesis using \<open>distinct _\<close>
      by (auto simp: set_wanted dispatchable_def is_dispatchable_def)
  next
    case (RNetwork n)
    from assms(2) RNetwork obtain pl where "place pool p = Ok pl" "ns_network_id (pc_network pl) = n" "n \<noteq> []"
      by (auto simp: route_for_def split: option.splits if_splits)
    moreover from this(1) have "pc_network pl \<in> set (served pool)" by (rule place_Ok)
    ultimately show ?thesis using \<open>distinct _\<close> RNetwork by (auto simp: set_wanted)
  qed
qed

definition show_route :: "route \<Rightarrow> string" where
  "show_route r = (case r of RRunner i \<Rightarrow> ''R'' @ i | RNetwork n \<Rightarrow> ''N'' @ n)"

theorem published_job_has_consumer_witness:
  "RNetwork ''net-1'' \<in> set (wanted_routes show_route (se_pool sample_env))"
proof -
  have "inj show_route" by (auto simp: inj_def show_route_def split: route.splits)
  moreover have "route_for (se_pool sample_env) sample_cell = Ok (RNetwork ''net-1'')" 
    by (simp add: route_for_def place_def network_of_def sample_cell_def plan_cell_def substitute_matrix_def Let_def
        target_any_def sample_env_def sample_runners_def default_set_def ok_or_def)
  ultimately show ?thesis using published_job_has_consumer [of show_route "se_pool sample_env" sample_cell] by simp
qed

end
