(* ===== verification/Objects.thy ===== *)
theory Objects
  imports Secrets Repos
begin

text \<open>
  \<^verbatim>\<open>src/src/objects.rs\<close>: the workflow objects registered with the load balancer, and the cache of
  them that a failed poll leaves as it was. What the load balancer answers is an argument.
\<close>

record wf_object =
  ob_id :: string
  ob_repo :: string
  ob_git_ref :: string
  ob_path :: string
  ob_network :: string
  ob_secrets_prefix :: "string option"
  ob_enabled :: bool
  ob_extra :: "json bmap"

definition object_secrets_prefix :: "wf_object \<Rightarrow> string \<Rightarrow> string" where
  "object_secrets_prefix w environment =
     (case ob_secrets_prefix w of
        Some p \<Rightarrow> trim_end_char (CHR ''/'') p @ ''/'' @ environment
      | None \<Rightarrow> secrets_prefix (ob_id w) environment)"

record workflow_set =
  ws_workflows :: "wf_object list"
  ws_last_error :: "string option"
  ws_loaded :: bool

definition empty_set :: workflow_set where
  "empty_set = \<lparr>ws_workflows = [], ws_last_error = None, ws_loaded = False\<rparr>"

definition find_object :: "workflow_set \<Rightarrow> string \<Rightarrow> wf_object option" where
  "find_object s i = find (\<lambda>w. ob_id w = i) (ws_workflows s)"

definition for_repo :: "workflow_set \<Rightarrow> string \<Rightarrow> wf_object list" where
  "for_repo s repo = filter (\<lambda>w. ob_enabled w \<and> same_repo (ob_repo w) repo) (ws_workflows s)"

datatype objects_error =
    ObjTransport string
  | ObjApi nat string
  | ObjDecode string

text \<open>An answer: no connection, or a status with the body as text and the list read from it.\<close>

type_synonym objects_answer = "(string, nat \<times> string \<times> (string, wf_object list) result) result"

definition read_objects :: "objects_answer \<Rightarrow> (objects_error, wf_object list) result" where
  "read_objects answer =
     (case answer of
        Err e \<Rightarrow> Err (ObjTransport e)
      | Ok (status, body, decoded) \<Rightarrow>
          if status < 200 \<or> 300 \<le> status then Err (ObjApi status (take 200 body))
          else map_err ObjDecode decoded)"

definition refresh_objects ::
    "(objects_error \<Rightarrow> string) \<Rightarrow> string option \<Rightarrow> objects_answer \<Rightarrow> workflow_set
     \<Rightarrow> (objects_error, unit) result \<times> workflow_set" where
  "refresh_objects disp base_url answer cache =
     (case base_url of
        None \<Rightarrow> (Ok (), cache)
      | Some _ \<Rightarrow>
          (case read_objects answer of
             Ok ws \<Rightarrow> (Ok (), \<lparr>ws_workflows = ws, ws_last_error = None, ws_loaded = True\<rparr>)
           | Err e \<Rightarrow>
               (Err e, \<lparr>ws_workflows = ws_workflows cache, ws_last_error = Some (disp e),
                        ws_loaded = ws_loaded cache\<rparr>)))"

section \<open>A failed poll changes nothing a submit sees\<close>

lemma refresh_objects_Err:
  assumes "refresh_objects disp base answer cache = (Err e, cache')"
  shows "find_object cache' = find_object cache" "for_repo cache' = for_repo cache"
    "ws_loaded cache' = ws_loaded cache" "ws_last_error cache' = Some (disp e)"
  using assms by (auto simp: refresh_objects_def find_object_def for_repo_def split: option.splits result.splits)

text \<open>Whether an object builds a repository does not depend on how the repository is spelled.\<close>

lemma for_repo_same: "same_repo a b \<Longrightarrow> for_repo s a = for_repo s b"
  by (simp add: for_repo_def same_repo_def)

text \<open>The polls so far, and that no failure empties a set that was loaded once.\<close>

inductive poll_step :: "workflow_set \<Rightarrow> workflow_set \<Rightarrow> bool" where
  poll: "refresh_objects disp base answer cache = (r, cache') \<Longrightarrow> poll_step cache cache'"

definition loaded_or_empty :: "workflow_set \<Rightarrow> bool" where
  "loaded_or_empty s \<longleftrightarrow> (ws_loaded s \<or> ws_workflows s = [])"

interpretation polling: step_invariant "\<lambda>s. s = empty_set" poll_step loaded_or_empty
  by unfold_locales
    (auto simp: loaded_or_empty_def empty_set_def refresh_objects_def elim!: poll_step.cases
      split: option.splits result.splits)

end
