(* ===== verification/Submit.thy ===== *)
theory Submit
  imports Schedule Objects
begin

text \<open>
  Accepting a submit: \<^verbatim>\<open>Dispatcher::submit\<close> and \<^verbatim>\<open>copy_tree\<close> of \<^verbatim>\<open>src/src/dispatch.rs\<close>, the endpoint in
  front of it in \<^verbatim>\<open>src/src/web/mod.rs\<close> with its credential check, and the caller's identity of
  \<^verbatim>\<open>src/src/web/identity.rs\<close>.

  The state of a submit is the database with the queues (\<open>sys\<close>) and the disk. The workflow and plan
  readers, the printers of errors and the ids of new runs are in \<open>submit_env\<close>.
\<close>

section \<open>Outside and state\<close>

record 't submit_env =
  su_sched :: sched_env
  su_trigger :: "'t trigger_env"
  su_yaml :: yaml_lib
  su_yaml_json :: "yaml \<Rightarrow> json option"
  su_base64 :: "string \<Rightarrow> string"
  su_workspace_dir :: string
  su_max_source_bytes :: nat
  su_default_workflow_path :: string
  su_objects :: workflow_set
  su_new_id :: "nat \<Rightarrow> string"
  su_quote :: "string \<Rightarrow> string"
  su_show_workflow :: "workflow_error \<Rightarrow> string"
  su_show_plan :: "plan_error \<Rightarrow> string"
  su_show_decline :: "decline \<Rightarrow> string"
  su_show_warning :: "string \<times> string \<Rightarrow> string"

type_synonym 't submit_state = "sys \<times> 't disk"

abbreviation su_now :: "'t submit_env \<Rightarrow> nat" where
  "su_now E \<equiv> se_now (su_sched E)"

record identity =
  id_subject :: string
  id_email :: string
  id_name :: "string option"

record submitted =
  sb_run_ids :: "string list"
  sb_warnings :: "string list"

section \<open>Which workflows, and where\<close>

text \<open>\<^verbatim>\<open>filter(|s| !s.trim().is_empty())\<close>.\<close>

definition unless_blank :: "string option \<Rightarrow> string option" where
  "unless_blank v = (case v of Some s \<Rightarrow> if trim s = [] then None else Some s | None \<Rightarrow> None)"

definition submit_repo_url :: "submit_request \<Rightarrow> repo_row option \<Rightarrow> string" where
  "submit_repo_url req repo = (case repo of Some r \<Rightarrow> rp_url r | None \<Rightarrow> rf_url (sq_repository req))"

definition matched_objects :: "workflow_set \<Rightarrow> submit_request \<Rightarrow> repo_row option \<Rightarrow> wf_object list" where
  "matched_objects objs req repo =
     (case sq_workflow_id req of
        Some i \<Rightarrow> (case find_object objs i of Some w \<Rightarrow> [w] | None \<Rightarrow> [])
      | None \<Rightarrow> for_repo objs (submit_repo_url req repo))"

record wf_source =
  so_id :: "string option"
  so_pattern :: string
  so_network :: "string option"

definition default_source :: "'t submit_env \<Rightarrow> repo_row option \<Rightarrow> wf_source" where
  "default_source E repo =
     \<lparr>so_id = None,
      so_pattern = (case unless_blank (Option.bind repo rp_workflow_path) of
                      Some p \<Rightarrow> p | None \<Rightarrow> su_default_workflow_path E),
      so_network = unless_blank (Option.bind repo rp_network)\<rparr>"

definition object_source :: "repo_row option \<Rightarrow> wf_object \<Rightarrow> wf_source" where
  "object_source repo w =
     \<lparr>so_id = Some (ob_id w), so_pattern = ob_path w,
      so_network = unless_blank (case unless_blank (Some (ob_network w)) of
                                   Some n \<Rightarrow> Some n | None \<Rightarrow> Option.bind repo rp_network)\<rparr>"

definition submit_sources ::
    "'t submit_env \<Rightarrow> submit_request \<Rightarrow> repo_row option \<Rightarrow> (dispatch_error, wf_source list) result" where
  "submit_sources E req repo =
     (let objs = su_objects E; matched = matched_objects objs req repo in
      (case sq_workflow_id req of
         Some i \<Rightarrow>
           if matched = [] \<and> ws_loaded objs
           then Err (WorkflowErr (''no workflow object '' @ su_quote E i
                  @ '' is registered. `serverctl get workflows` lists what is.''))
           else Ok (if matched = [] then [default_source E repo] else map (object_source repo) matched)
       | None \<Rightarrow> Ok (if matched = [] then [default_source E repo] else map (object_source repo) matched)))"

section \<open>One workflow file\<close>

definition copy_tree ::
    "'t submit_env \<Rightarrow> workspace \<Rightarrow> workspace \<Rightarrow> 't disk \<Rightarrow> (dispatch_error, unit) result \<times> 't disk" where
  "copy_tree E from_ws to_ws d =
     (case stored_source from_ws d of
        None \<Rightarrow> (Err (Checkout ''the first run's source is gone''), d)
      | Some (f, path) \<Rightarrow>
          (case (tr_io (su_trigger E) (FsRead path), dk_files d path) of
             (Err e, _) \<Rightarrow> (Err (Checkout e), d)
           | (Ok _, None) \<Rightarrow> (Err (Checkout ''Is a directory (os error 21)''), d)
           | (Ok _, Some bytes) \<Rightarrow>
               (case materialize (su_trigger E)
                       \<lparr>sa_format = source_format_str f, sa_content_base64 = su_base64 E bytes\<rparr>
                       to_ws (2 ^ 64 - 1) d of
                  (Err e, d') \<Rightarrow> (Err (DTrigger e), d')
                | (Ok _, d') \<Rightarrow> (Ok (), d'))))"

record sub_acc =
  ac_run_ids :: "string list"
  ac_skipped :: "string list"
  ac_warnings :: "string list"

definition run_request_of ::
    "submit_request \<Rightarrow> identity option \<Rightarrow> repo_row option \<Rightarrow> changes \<Rightarrow> wf_source \<Rightarrow> run_request" where
  "run_request_of req actor repo ch src =
     \<lparr>rq_workflow_id =
        (case so_id src of
           Some i \<Rightarrow> i
         | None \<Rightarrow>
             (case sq_workflow_id req of
                Some i \<Rightarrow> i
              | None \<Rightarrow> (case repo of Some r \<Rightarrow> rp_name r | None \<Rightarrow> rf_name (sq_repository req)))),
      rq_repo_id = map_option rp_id repo, rq_repo_url = submit_repo_url req repo,
      rq_git_ref = sq_ref req, rq_sha = sq_after req, rq_before_sha = sq_before req, rq_changes = ch,
      rq_actor_subject = map_option id_subject actor,
      rq_actor_email = (case actor of Some a \<Rightarrow> Some (id_email a)
                                    | None \<Rightarrow> Option.bind (sq_pusher req) gi_email),
      rq_source = ''submit''\<rparr>"

definition start_run ::
    "'t submit_env \<Rightarrow> run_request \<Rightarrow> plan \<Rightarrow> string list \<Rightarrow> sub_acc \<Rightarrow> 't submit_state
     \<Rightarrow> (dispatch_error, sub_acc) result \<times> 't submit_state" where
  "start_run E rq p ws acc st =
     (let (s, d) = st;
          run_id = su_new_id E (length (ac_run_ids acc));
          seed = for_run (su_workspace_dir E) (su_new_id E 0) in
      (case (if ac_run_ids acc = [] then (Ok (), d)
             else copy_tree E seed (for_run (su_workspace_dir E) run_id) d) of
         (Err e, d') \<Rightarrow> (Err e, s, d')
       | (Ok _, d') \<Rightarrow>
           (case create_run (su_now E) run_id rq p (sy_db s) of
              Err e \<Rightarrow> (Err (DStore e), s, d')
            | Ok db' \<Rightarrow>
                (Ok (acc\<lparr>ac_run_ids := ac_run_ids acc @ [run_id], ac_warnings := ac_warnings acc @ ws\<rparr>),
                 snd (advance_run (su_sched E) run_id (s\<lparr>sy_db := db'\<rparr>)), d'))))"

definition submit_file ::
    "'t submit_env \<Rightarrow> submit_request \<Rightarrow> identity option \<Rightarrow> repo_row option \<Rightarrow> changes \<Rightarrow> wf_source
     \<Rightarrow> string \<times> string \<Rightarrow> sub_acc \<Rightarrow> 't submit_state \<Rightarrow> (dispatch_error, sub_acc) result \<times> 't submit_state" where
  "submit_file E req actor repo ch src f acc st =
     (let (path, body) = f in
      (case parse_workflow (su_yaml E) path body of
         Err e \<Rightarrow> (Err (WorkflowErr (su_show_workflow E e)), st)
       | Ok w \<Rightarrow>
           if ''submit'' \<notin> set (wf_on w) then (Ok acc, st)
           else
             (case admits (wf_on_submit w) (submit_branch req) ch of
                Err why \<Rightarrow> (Ok (acc\<lparr>ac_skipped := ac_skipped acc @ [path @ '': '' @ su_show_decline E why]\<rparr>), st)
              | Ok _ \<Rightarrow>
                  (case and_then (map_err (\<lambda>e. WorkflowErr (su_show_plan E e))
                                    (build_plan (se_lib (su_sched E)) (su_yaml_json E) w))
                          (assign_network (se_pool (su_sched E)) (so_network src)) of
                     Err e \<Rightarrow> (Err e, st)
                   | Ok (p, ws) \<Rightarrow>
                       start_run E (run_request_of req actor repo ch src) p
                         (map (su_show_warning E) ws) acc st))))"

section \<open>The submit\<close>

definition submit_source ::
    "'t submit_env \<Rightarrow> submit_request \<Rightarrow> identity option \<Rightarrow> repo_row option \<Rightarrow> changes
     \<Rightarrow> wf_source \<Rightarrow> sub_acc \<Rightarrow> 't submit_state \<Rightarrow> (dispatch_error, sub_acc) result \<times> 't submit_state" where
  "submit_source E req actor repo ch src acc st =
     (case find_workflows (su_trigger E) (wk_root (for_run (su_workspace_dir E) (su_new_id E 0)))
             (so_pattern src) (snd st) of
        Err e \<Rightarrow> (Err (DTrigger e), st)
      | Ok files \<Rightarrow> try_fold (submit_file E req actor repo ch src) files acc st)"

definition submit ::
    "'t submit_env \<Rightarrow> submit_request \<Rightarrow> identity option \<Rightarrow> repo_row option \<Rightarrow> 't submit_state
     \<Rightarrow> (dispatch_error, submitted) result \<times> 't submit_state" where
  "submit E req actor repo st =
     (let seed = for_run (su_workspace_dir E) (su_new_id E 0) in
      (case tr_io (su_trigger E) (FsCreateDir (su_workspace_dir E)) of
         Err e \<Rightarrow> (Err (Checkout e), st)
       | Ok _ \<Rightarrow>
           (case materialize (su_trigger E) (sq_source req) seed (su_max_source_bytes E) (snd st) of
              (Err e, d1) \<Rightarrow> (Err (DTrigger e), fst st, d1)
            | (Ok _, d1) \<Rightarrow>
                (let ch = changed_paths (su_trigger E) seed (sq_before req) d1 in
                 (case submit_sources E req repo of
                    Err e \<Rightarrow> (Err e, fst st, d1)
                  | Ok sources \<Rightarrow>
                      (case try_fold (submit_source E req actor repo ch) sources
                              \<lparr>ac_run_ids = [], ac_skipped = [], ac_warnings = []\<rparr> (fst st, d1) of
                         (Err e, st') \<Rightarrow> (Err e, st')
                       | (Ok acc, st') \<Rightarrow>
                           if ac_run_ids acc = [] \<and> ac_skipped acc = []
                           then (Err (DTrigger (NoWorkflows (join '', '' (map so_pattern sources)
                                   @ '' (nothing matched, or nothing triggering on `submit`)''))), st')
                           else (Ok \<lparr>sb_run_ids = ac_run_ids acc,
                                     sb_warnings = ac_warnings acc
                                       @ map (\<lambda>s. ''no run started '' @ DASH @ '' '' @ s) (ac_skipped acc)\<rparr>,
                                 st')))))))"

section \<open>The caller\<close>

text \<open>Headers, by lower-case name, with the first value of each; \<^verbatim>\<open>to_str\<close> accepts visible ASCII.\<close>

type_synonym headers = "string \<rightharpoonup> string"

definition header_str :: "headers \<Rightarrow> string \<Rightarrow> string option" where
  "header_str h name =
     (case h name of
        Some v \<Rightarrow> if list_all (\<lambda>c. CHR '' '' \<le> c \<and> c < CHR 0x7F \<or> c = CHR 0x09) v then Some v else None
      | None \<Rightarrow> None)"

definition identity_header :: "headers \<Rightarrow> string \<Rightarrow> string option" where
  "identity_header h name =
     Option.bind (map_option trim (header_str h name)) (\<lambda>s. if s = [] then None else Some s)"

definition from_headers :: "headers \<Rightarrow> identity option" where
  "from_headers h =
     Option.bind (identity_header h ''x-auth-request-user'') (\<lambda>subject.
     Option.bind (identity_header h ''x-auth-request-email'') (\<lambda>email.
       Some \<lparr>id_subject = subject, id_email = email, id_name = identity_header h ''x-auth-request-name''\<rparr>))"

definition id_display :: "identity \<Rightarrow> string" where
  "id_display i = (case id_name i of Some n \<Rightarrow> n | None \<Rightarrow> id_email i)"

definition bearer :: "headers \<Rightarrow> string option" where
  "bearer h =
     Option.bind (header_str h ''authorization'') (\<lambda>value.
     Option.bind (split_once (CHR '' '') (trim value)) (\<lambda>(scheme, token).
       if eq_ignore_ascii_case scheme ''bearer'' \<and> trim token \<noteq> [] then Some (trim token) else None))"

section \<open>The endpoint\<close>

record app_config =
  ap_public_url :: string
  ap_require_repo_token :: bool
  ap_webhook_secret :: string
  ap_admin_emails :: "string list"
  ap_hmac :: "string \<Rightarrow> string \<Rightarrow> string"
  ap_sha :: "string \<Rightarrow> string"

datatype reply = Reply nat json

definition error_reply :: "nat \<Rightarrow> string \<Rightarrow> reply" where
  "error_reply status message = Reply status (JObj [(''error'', JStr message)])"

datatype credential = CredRepo repo_row | CredShared

definition authenticate_submit ::
    "app_config \<Rightarrow> (trigger_error \<Rightarrow> string) \<Rightarrow> nat \<Rightarrow> headers \<Rightarrow> string \<Rightarrow> db \<Rightarrow> (reply, credential) result \<times> db" where
  "authenticate_submit A show_trigger now h body d =
     (case bearer h of
        Some token \<Rightarrow>
          (case authenticate_repo_token (ap_sha A) now token d of
             (Some repo, d') \<Rightarrow> (Ok (CredRepo repo), d')
           | (None, d') \<Rightarrow>
               (Err (error_reply 401 (''that submit token is not valid for any registered repository. Register the repository at ''
                       @ ap_public_url A @ ''/repos, then `git config ci.token <token>`.'')), d'))
      | None \<Rightarrow>
          if ap_require_repo_token A then
            (Err (error_reply 401 (''this server accepts only per-repository submit tokens (CI_REQUIRE_REPO_TOKEN is set). Register the repository at ''
                    @ ap_public_url A @ ''/repos, then `git config ci.token <token>`.'')), d)
          else
            (case verify_signature (ap_hmac A) (ap_webhook_secret A) body (header_str h ''x-heyo-signature-256'') of
               Ok _ \<Rightarrow> (Ok CredShared, d)
             | Err e \<Rightarrow> (Err (error_reply (trigger_status e) (show_trigger e)), d)))"

definition submit_repo :: "credential \<Rightarrow> submit_request \<Rightarrow> db \<Rightarrow> repo_row option" where
  "submit_repo cred req d =
     (case cred of
        CredRepo r \<Rightarrow> Some r
      | CredShared \<Rightarrow>
          if trim (rf_url (sq_repository req)) \<noteq> [] then
            (case repo_by_url (rf_url (sq_repository req)) d of
               Some r \<Rightarrow> if rp_enabled r then Some r else None | None \<Rightarrow> None)
          else None)"

definition accepted_reply :: "app_config \<Rightarrow> submitted \<Rightarrow> reply" where
  "accepted_reply A r =
     Reply 202 (JObj [(''runs'', JArr (map JStr (sb_run_ids r))), (''url'', JStr (ap_public_url A @ ''/'')),
                      (''warnings'', JArr (map JStr (sb_warnings r)))])"

definition post_submit ::
    "app_config \<Rightarrow> 't submit_env \<Rightarrow> (trigger_error \<Rightarrow> string) \<Rightarrow> (string \<Rightarrow> (string, submit_request) result)
     \<Rightarrow> headers \<Rightarrow> string \<Rightarrow> 't submit_state \<Rightarrow> reply \<times> 't submit_state" where
  "post_submit A E show_trigger read_request h body st =
     (let (s, disk) = st in
      (case authenticate_submit A show_trigger (su_now E) h body (sy_db s) of
         (Err response, d) \<Rightarrow> (response, s\<lparr>sy_db := d\<rparr>, disk)
       | (Ok cred, d) \<Rightarrow>
           (let s1 = s\<lparr>sy_db := d\<rparr> in
            (case read_request body of
               Err e \<Rightarrow> (error_reply 400 (''malformed submit: '' @ e), s1, disk)
             | Ok req \<Rightarrow>
                 (let repo = submit_repo cred req d; url = rf_url (sq_repository req) in
                  if (case repo of None \<Rightarrow> False | Some r \<Rightarrow> trim url \<noteq> [] \<and> \<not> same_repo (rp_url r) url) then
                    (error_reply 403 (''this submit token is registered to ''
                        @ (case repo of Some r \<Rightarrow> rp_url r | None \<Rightarrow> []) @ '', but the submit is for '' @ url
                        @ ''. Use the token minted for that repository.''), s1, disk)
                  else
                    (case submit E req (from_headers h) repo (s1, disk) of
                       (Ok r, st') \<Rightarrow> (accepted_reply A r, st')
                     | (Err e, st') \<Rightarrow> (error_reply 400 (se_show (su_sched E) e), st')))))))"

section \<open>What a run was started for\<close>

text \<open>The part of a run that no later operation changes.\<close>

definition run_origin :: "run_row \<Rightarrow> run_row" where
  "run_origin r = r\<lparr>rn_status := RQueued, rn_error := None, rn_started_at := None, rn_finished_at := None\<rparr>"

definition origins :: "sys \<Rightarrow> run_row list" where
  "origins s = map run_origin (db_runs (sy_db s))"

lemma origin_fields [simp]:
  "rn_id (run_origin r) = rn_id r" "rn_repo_url (run_origin r) = rn_repo_url r" "rn_repo_id (run_origin r) = rn_repo_id r"
  "rn_source (run_origin r) = rn_source r" "rn_git_ref (run_origin r) = rn_git_ref r" "rn_sha (run_origin r) = rn_sha r"
  "rn_changes (run_origin r) = rn_changes r"
  by (simp_all add: run_origin_def)

lemma run_origin_set_run_row [simp]: "run_origin (set_run_row now st err r) = run_origin r"
  by (simp add: run_origin_def set_run_row_def)

lemma run_origin_new [simp]: "run_origin (new_run_row now i rq p) = new_run_row now i rq p"
  by (simp add: run_origin_def new_run_row_def)

lemma map_update_rows: "(\<And>r. f (g r) = f r) \<Longrightarrow> map f (update_rows P g rows) = map f rows"
  by (simp add: update_rows_def)

text \<open>A job statement leaves the runs alone.\<close>

lemma update_job_runs: "db_runs (snd (update_job jid P f d)) = db_runs d"
  by (simp add: update_job_def Let_def)

lemma advance_job_runs: "db_runs (sy_db (advance_job E run_id needs ci fin s j)) = db_runs (sy_db s)"
  by (auto simp: advance_job_def enqueue_def Let_def on_db_def emit_def set_job_status_def queue_job_def unqueue_job_def
      split: result.splits bool.splits prod.splits dest!: arg_cong [where f = "\<lambda>x. db_runs (snd x)"] simp: update_job_runs)

text \<open>The tables that say who may do what.\<close>

definition auth_tables :: "db \<Rightarrow> repo_row list \<times> token_row list \<times> user_row list" where
  "auth_tables d = (db_repos d, db_tokens d, db_users d)"

lemma update_job_auth: "auth_tables (snd (update_job jid P f d)) = auth_tables d"
  by (simp add: update_job_def Let_def auth_tables_def)

lemma advance_job_auth: "auth_tables (sy_db (advance_job E run_id needs ci fin s j)) = auth_tables (sy_db s)"
  by (auto simp: advance_job_def enqueue_def Let_def on_db_def emit_def set_job_status_def queue_job_def unqueue_job_def
      split: result.splits bool.splits prod.splits dest!: arg_cong [where f = "\<lambda>x. auth_tables (snd x)"]
      simp: update_job_auth)

lemma foldl_keeps: "(\<And>s x. f (g s x) = f s) \<Longrightarrow> f (foldl g s xs) = f s"
  by (induction xs arbitrary: s) simp_all

lemma advance_run_keeps:
  assumes "advance_run E run_id s = (st, s')"
  shows "origins s' = origins s" "auth_tables (sy_db s') = auth_tables (sy_db s)"
proof -
  define t where "t = foldl (advance_job E run_id (run_needs run_id s) (run_scope run_id s) (run_done run_id s)) s
    (jobs_of run_id (sy_db s))"
  from assms have s': "s' = t\<lparr>sy_db := set_run_status (se_now E) run_id st None (sy_db t)\<rparr>"
    by (auto simp: advance_run_def Let_def t_def roll_up_run_def)
  have "db_runs (sy_db t) = db_runs (sy_db s)" "auth_tables (sy_db t) = auth_tables (sy_db s)"
    unfolding t_def by (intro foldl_keeps [of "\<lambda>s. db_runs (sy_db s)"] foldl_keeps [of "\<lambda>s. auth_tables (sy_db s)"]
        advance_job_runs advance_job_auth)+
  then show "origins s' = origins s" "auth_tables (sy_db s') = auth_tables (sy_db s)"
    by (simp_all add: s' origins_def set_run_status_def map_update_rows auth_tables_def)
qed

lemma advance_run_jobs_ok:
  assumes "jobs_ok (sy_db s)" "advance_run E run_id s = (st, s')"
  shows "jobs_ok (sy_db s')"
proof -
  note eff = advance_run_effect [OF assms, THEN conjunct1]
  have "map jr_id (db_jobs (sy_db s')) = map jr_id (db_jobs (sy_db s))" by (simp add: eff)
  moreover have "\<forall>j\<in>set (db_jobs (sy_db s')). job_row_ok j"
    using assms(1) decided_row_ok [OF decide_pending] by (auto simp: eff jobs_ok_def)
  ultimately show ?thesis using assms(1) by (simp add: jobs_ok_def)
qed

section \<open>What a submit adds\<close>

definition started_for :: "submit_request \<Rightarrow> repo_row option \<Rightarrow> run_row \<Rightarrow> bool" where
  "started_for req repo r \<longleftrightarrow>
     rn_repo_url r = submit_repo_url req repo \<and> rn_repo_id r = map_option rp_id repo
     \<and> rn_git_ref r = sq_ref req \<and> rn_sha r = sq_after req \<and> rn_source r = ''submit''"

text \<open>From the state \<open>s0\<close>: only runs for this request were added, and nothing else the endpoint relies on
  changed.\<close>

definition only_added :: "submit_request \<Rightarrow> repo_row option \<Rightarrow> sys \<Rightarrow> string list option \<Rightarrow> sys \<Rightarrow> bool" where
  "only_added req repo s0 ids s \<longleftrightarrow>
     jobs_ok (sy_db s) \<and> auth_tables (sy_db s) = auth_tables (sy_db s0)
     \<and> (\<exists>new. origins s = origins s0 @ new \<and> list_all (started_for req repo) new
          \<and> (case ids of None \<Rightarrow> True | Some l \<Rightarrow> map rn_id new = l))"

lemma only_added_refl: "jobs_ok (sy_db s) \<Longrightarrow> only_added req repo s (Some []) s"
  by (simp add: only_added_def)

lemma only_added_forget: "only_added req repo s0 ids s \<Longrightarrow> only_added req repo s0 None s"
  by (auto simp: only_added_def)

lemma started_for_new: "started_for req repo (new_run_row now i (run_request_of req actor repo ch src) p)"
  by (simp add: started_for_def new_run_row_def run_request_of_def)

lemma start_run_added:
  assumes "start_run E (run_request_of req actor repo ch src) p ws acc st = (r, st')"
    and "only_added req repo s0 (Some (ac_run_ids acc)) (fst st)"
  shows "only_added req repo s0 (case r of Ok acc' \<Rightarrow> Some (ac_run_ids acc') | Err _ \<Rightarrow> None) (fst st')"
proof (cases r)
  case (Err e)
  then have "fst st' = fst st"
    using assms(1) by (auto simp: start_run_def Let_def split: prod.splits result.splits if_splits)
  with Err only_added_forget [OF assms(2)] show ?thesis by simp
next
  case (Ok acc')
  let ?rq = "run_request_of req actor repo ch src" and ?i = "su_new_id E (length (ac_run_ids acc))"
  from Ok assms(1) obtain db' where c: "create_run (su_now E) ?i ?rq p (sy_db (fst st)) = Ok db'"
    and ids: "ac_run_ids acc' = ac_run_ids acc @ [?i]"
    and s': "fst st' = snd (advance_run (su_sched E) ?i ((fst st)\<lparr>sy_db := db'\<rparr>))"
    by (auto simp: start_run_def Let_def split: prod.splits result.splits if_splits)
  obtain x s2 where a: "advance_run (su_sched E) ?i ((fst st)\<lparr>sy_db := db'\<rparr>) = (x, s2)" by fastforce
  note create = create_run_Ok [OF c]
  have "jobs_ok db'" using assms(2) create_run_jobs_ok [OF _ c] by (simp add: only_added_def)
  then have "jobs_ok (sy_db s2)" using advance_run_jobs_ok [OF _ a] by simp
  moreover have "origins s2 = origins (fst st) @ [new_run_row (su_now E) ?i ?rq p]"
    "auth_tables (sy_db s2) = auth_tables (sy_db (fst st))"
    unfolding advance_run_keeps [OF a] by (simp_all add: create(1) origins_def auth_tables_def)
  moreover have "rn_id (new_run_row (su_now E) ?i ?rq p) = ?i" by (simp add: new_run_row_def)
  ultimately show ?thesis
    using assms(2) started_for_new [of req repo "su_now E" ?i actor ch src p] Ok ids
    by (auto simp: only_added_def s' a)
qed

lemma submit_file_added:
  assumes "submit_file E req actor repo ch src f acc st = (r, st')"
    and "only_added req repo s0 (Some (ac_run_ids acc)) (fst st)"
  shows "only_added req repo s0 (case r of Ok acc' \<Rightarrow> Some (ac_run_ids acc') | Err _ \<Rightarrow> None) (fst st')"
  using assms(1) only_added_forget [OF assms(2)] assms(2)
  by (auto simp: submit_file_def Let_def split: prod.splits result.splits if_splits
      dest: start_run_added [OF _ assms(2)])

lemma submit_source_added:
  assumes "submit_source E req actor repo ch src acc st = (r, st')"
    and "only_added req repo s0 (Some (ac_run_ids acc)) (fst st)"
  shows "only_added req repo s0 (case r of Ok acc' \<Rightarrow> Some (ac_run_ids acc') | Err _ \<Rightarrow> None) (fst st')"
proof (cases "find_workflows (su_trigger E) (wk_root (for_run (su_workspace_dir E) (su_new_id E 0))) (so_pattern src) (snd st)")
  case (Err e)
  with assms only_added_forget [OF assms(2)] show ?thesis by (auto simp: submit_source_def)
next
  case (Ok files)
  with assms(1) have fold: "try_fold (submit_file E req actor repo ch src) files acc st = (r, st')"
    by (simp add: submit_source_def)
  have "case r of Ok acc' \<Rightarrow> only_added req repo s0 (Some (ac_run_ids acc')) (fst st')
      | Err _ \<Rightarrow> only_added req repo s0 None (fst st')"
    using submit_file_added by (intro try_fold_rule [OF fold,
        where P = "\<lambda>acc st. only_added req repo s0 (Some (ac_run_ids acc)) (fst st)"
          and Q = "\<lambda>_ st. only_added req repo s0 None (fst st)"] assms(2)) fastforce+
  then show ?thesis by (simp split: result.splits)
qed

lemma submit_cases:
  assumes "submit E req actor repo st = (r, st')" "jobs_ok (sy_db (fst st))"
  obtains (refused) e where "r = Err e" "fst st' = fst st"
    | (ended) sources acc d1 r1 where "submit_sources E req repo = Ok sources"
        "try_fold (submit_source E req actor repo
             (changed_paths (su_trigger E) (for_run (su_workspace_dir E) (su_new_id E 0)) (sq_before req) d1)) sources
           \<lparr>ac_run_ids = [], ac_skipped = [], ac_warnings = []\<rparr> (fst st, d1) = (r1, st')"
        "\<And>sb. r = Ok sb \<Longrightarrow> r1 = Ok acc \<and> sb_run_ids sb = ac_run_ids acc
           \<and> (ac_run_ids acc \<noteq> [] \<or> ac_skipped acc \<noteq> []) \<and> set (ac_warnings acc) \<subseteq> set (sb_warnings sb)
           \<and> length (sb_warnings sb) = length (ac_warnings acc) + length (ac_skipped acc)"
  using assms
  by (auto simp: submit_def Let_def split: prod.splits result.splits if_splits)

lemma submit_added:
  assumes "submit E req actor repo st = (r, st')" "jobs_ok (sy_db (fst st))"
  shows "only_added req repo (fst st) (case r of Ok sb \<Rightarrow> Some (sb_run_ids sb) | Err _ \<Rightarrow> None) (fst st')"
  using assms
proof (cases rule: submit_cases)
  case (refused e)
  with only_added_forget [OF only_added_refl [OF assms(2)]] show ?thesis by simp
next
  case (ended sources acc d1 r1)
  have "case r1 of Ok acc' \<Rightarrow> only_added req repo (fst st) (Some (ac_run_ids acc')) (fst st')
      | Err _ \<Rightarrow> only_added req repo (fst st) None (fst st')"
    using submit_source_added only_added_refl [OF assms(2)]
    by (intro try_fold_rule [OF ended(2),
        where P = "\<lambda>acc st'. only_added req repo (fst st) (Some (ac_run_ids acc)) (fst st')"
          and Q = "\<lambda>_ st'. only_added req repo (fst st) None (fst st')"]) fastforce+
  with ended(3) only_added_forget show ?thesis by (cases r; cases r1) auto
qed

lemma authenticate_submit_keeps:
  "authenticate_submit A show_trigger now h body d = (r, d') \<Longrightarrow> db_runs d' = db_runs d \<and> db_jobs d' = db_jobs d"
  by (auto simp: authenticate_submit_def authenticate_repo_token_def split: option.splits prod.splits if_splits result.splits)

text \<open>What a credential proves.\<close>

lemma authenticate_submit_Ok:
  assumes "authenticate_submit A show_trigger now h body d = (Ok cred, d')"
  shows "case bearer h of
      Some token \<Rightarrow> (\<exists>repo. cred = CredRepo repo \<and> fst (authenticate_repo_token (ap_sha A) now token d) = Some repo)
    | None \<Rightarrow> cred = CredShared \<and> \<not> ap_require_repo_token A
        \<and> verify_signature (ap_hmac A) (ap_webhook_secret A) body (header_str h ''x-heyo-signature-256'') = Ok ()"
  using assms by (auto simp: authenticate_submit_def split: option.splits prod.splits if_splits result.splits)

text \<open>A request that gets as far as the dispatcher.\<close>

lemma post_submit_cases:
  assumes "post_submit A E show_trigger read_request h body (s, d) = (Reply code json, s', d')"
  obtains (stopped) "d' = d" "db_runs (sy_db s') = db_runs (sy_db s)"
    | (passed) cred db1 req r where
        "authenticate_submit A show_trigger (su_now E) h body (sy_db s) = (Ok cred, db1)" "read_request body = Ok req"
        "submit E req (from_headers h) (submit_repo cred req db1) (s\<lparr>sy_db := db1\<rparr>, d) = (r, s', d')"
        "case submit_repo cred req db1 of None \<Rightarrow> True
           | Some q \<Rightarrow> trim (rf_url (sq_repository req)) = [] \<or> same_repo (rp_url q) (rf_url (sq_repository req))"
        "code = 202 \<or> code = 400"
proof (cases "authenticate_submit A show_trigger (su_now E) h body (sy_db s)")
  case (Pair a db1)
  note keeps = authenticate_submit_keeps [OF Pair]
  show ?thesis
  proof (cases a)
    case (Err e)
    with Pair assms keeps show ?thesis by (intro stopped) (auto simp: post_submit_def)
  next
    case (Ok cred)
    note auth = Pair [unfolded Ok]
    show ?thesis
    proof (cases "read_request body")
      case (Err e)
      with auth assms keeps show ?thesis by (intro stopped) (auto simp: post_submit_def)
    next
      case (Ok req)
      let ?q = "submit_repo cred req db1" and ?url = "rf_url (sq_repository req)"
      show ?thesis
      proof (cases "case ?q of None \<Rightarrow> False | Some r \<Rightarrow> trim ?url \<noteq> [] \<and> \<not> same_repo (rp_url r) ?url")
        case True
        with auth Ok assms keeps show ?thesis by (intro stopped) (auto simp: post_submit_def Let_def)
      next
        case False
        obtain r st where sub: "submit E req (from_headers h) ?q (s\<lparr>sy_db := db1\<rparr>, d) = (r, st)" by (meson surj_pair)
        have "case r of Ok sb \<Rightarrow> (accepted_reply A sb, st) = (Reply code json, s', d')
            | Err e \<Rightarrow> (error_reply 400 (se_show (su_sched E) e), st) = (Reply code json, s', d')"
          using assms auth Ok False sub
          by (simp only: post_submit_def Let_def case_prod_conv result.case if_False fst_conv snd_conv
              split: result.splits) (auto simp: if_False)
        then have "st = (s', d')" "code = 202 \<or> code = 400"
          by (auto simp: accepted_reply_def error_reply_def split: result.splits)
        with sub auth Ok False show ?thesis by (intro passed) (auto split: option.splits)
      qed
    qed
  qed
qed

section \<open>Properties\<close>


text \<open>A submit of one workflow, for concrete instances.\<close>

definition empty_disk :: "string list disk" where
  "empty_disk = \<lparr>dk_files = Map.empty, dk_dirs = Map.empty\<rparr>"

definition sample_yaml :: yaml_lib where
  "sample_yaml = \<lparr>header_from_str = (\<lambda>_. Ok \<lparr>wh_name = None, wh_on = None, wh_env = [], wh_jobs = YMap [(YStr ''build'', YNull)]\<rparr>),
     job_from_value = (\<lambda>_. Ok sample_job), filter_from_value = (\<lambda>_. Ok default_filter), yaml_debug = (\<lambda>_. [])\<rparr>"

definition sample_submit_env :: "string list submit_env" where
  "sample_submit_env = \<lparr>su_sched = sample_env,
     su_trigger = sample_trigger\<lparr>tr_list := (\<lambda>t dir. Some [\<lparr>de_name = ''ci.yml'', de_is_file = True, de_text = Ok ''jobs:''\<rparr>])\<rparr>,
     su_yaml = sample_yaml, su_yaml_json = (\<lambda>_. None), su_base64 = (\<lambda>x. x), su_workspace_dir = ''w'', su_max_source_bytes = 100,
     su_default_workflow_path = ''.ci/*.yml'', su_objects = empty_set, su_new_id = (\<lambda>n. ''n'' @ nat_str n),
     su_quote = (\<lambda>x. x), su_show_workflow = (\<lambda>_. []), su_show_plan = (\<lambda>_. []), su_show_decline = (\<lambda>_. []), su_show_warning = fst\<rparr>"

definition sample_submit :: submit_request where
  "sample_submit = \<lparr>sq_repository = \<lparr>rf_id = [], rf_name = ''app'', rf_url = ''https://x/app'', rf_default_branch = None\<rparr>,
     sq_ref = ''refs/heads/main'', sq_before = ''p'', sq_after = ''c'', sq_dry_run = False, sq_pusher = None, sq_workflow_id = None,
     sq_source = \<lparr>sa_format = ''git-bundle'', sa_content_base64 = ''PACK''\<rparr>\<rparr>"

abbreviation sample_read :: workflow where
  "sample_read \<equiv> \<lparr>wf_path = ''.ci/ci.yml'', wf_name = None, wf_on = [''submit''],
     wf_on_submit = default_filter, wf_env = [], wf_jobs = [(''build'', sample_job)]\<rparr>"

lemma sample_read_planned: "build_plan no_json (\<lambda>_. None) sample_read
   = Ok \<lparr>pl_workflow_path = ''.ci/ci.yml'', pl_workflow_name = None, pl_env = [], pl_jobs = [sample_cell]\<rparr>"
proof -
  have k: "unique_key no_json ''build'' [] 0 [] = ''build''"
    by (simp add: unique_key_def key_candidate_def numeral_2_eq_2)
  have "expand_matrix (\<lambda>_. None) ''build'' sample_job = Ok [[]]" "job_target sample_job = Ok target_any"
    by (simp_all add: expand_matrix_def job_target_def sample_job_def)
  moreover have "topological_order [sample_cell] = Ok [sample_cell]"
    unfolding topological_order_def
    by (subst topo_loop.simps, simp add: is_ready_def sample_cell_simps, subst topo_loop.simps, simp)
  ultimately show ?thesis by (simp add: build_plan_def k sample_cell_def [symmetric])
qed

lemma sample_plan_assigned: "assign_network (se_pool sample_env) None \<lparr>pl_workflow_path = ''.ci/ci.yml'', pl_workflow_name = None, pl_env = [], pl_jobs = [sample_cell]\<rparr>
  = Ok (\<lparr>pl_workflow_path = ''.ci/ci.yml'', pl_workflow_name = None, pl_env = [], pl_jobs = [sample_cell\<lparr>jp_target := target_any\<lparr>tg_network := Some ''home''\<rparr>\<rparr>]\<rparr>, [])"
proof -
  have tgt: "jp_target sample_cell = target_any"
    by (simp add: sample_cell_def plan_cell_def substitute_matrix_def Let_def target_any_def)
  show ?thesis
    by (simp add: assign_network_def assign_job_def with_default_network_def tgt sample_env_def sample_placement canonical_def offline_warning_def default_set_def ok_or_def Let_def)
qed

lemma default_filter_admits: "admits default_filter b ch = Ok ()"
  by (cases ch) (simp_all add: admits_def default_filter_def)

lemma sample_tree_files: "find_workflows (su_trigger sample_submit_env) ''w/n0'' ''.ci/*.yml'' \<lparr>dk_files = f, dk_dirs = [''w/n0'' \<mapsto> t]\<rparr> = Ok [(''.ci/ci.yml'', ''jobs:'')]"
  by code_simp

lemma sample_source_stored: "materialize (su_trigger sample_submit_env) (sq_source sample_submit) (for_run ''w'' ''n0'') 100 empty_disk
   = (Ok 4, \<lparr>dk_files = [''w/n0.bundle'' \<mapsto> ''PACK''](''w/n0.tar.gz'' := None), dk_dirs = [''w/n0'' \<mapsto> []]\<rparr>)"
proof -
  have "source_format_parse ''git-bundle'' = Some GitBundle" by code_simp
  moreover have "for_run ''w'' ''n0'' = \<lparr>wk_root = ''w/n0'', wk_tarball = ''w/n0.tar.gz'', wk_bundle = ''w/n0.bundle''\<rparr>"
    by code_simp
  ultimately show ?thesis
    by (simp add: materialize_def decode_source_def sample_submit_def sample_submit_env_def sample_trigger_def ok_or_def
       reset_root_def on_disk_def Let_def unpack_source_def clone_bundle_def run_git_def is_ascii_whitespace_def remove_if_possible_def empty_disk_def)
qed

lemma sample_read_parsed: "parse_workflow sample_yaml ''.ci/ci.yml'' ''jobs:'' = Ok sample_read"
  by code_simp

lemma sample_submit_accepted:
  "case submit sample_submit_env sample_submit None None (sample_sys, empty_disk) of
     (Ok sb, s', d') \<Rightarrow> sb = \<lparr>sb_run_ids = [''n0''], sb_warnings = []\<rparr> | (Err e, _) \<Rightarrow> False"
proof -
  have n0: "''n'' @ nat_str 0 = ''n0''" by code_simp
  let ?E = sample_submit_env
  have env: "su_new_id ?E 0 = ''n0''" "su_workspace_dir ?E = ''w''" "su_max_source_bytes ?E = 100" "su_yaml ?E = sample_yaml"
    "su_yaml_json ?E = (\<lambda>_. None)" "su_sched ?E = sample_env" "tr_io (su_trigger ?E) x = Ok ()" for x
    using n0 by (simp_all add: sample_submit_env_def sample_trigger_def)
  have root: "wk_root (for_run ''w'' ''n0'') = ''w/n0''" by code_simp
  have src: "submit_sources ?E sample_submit None = Ok [\<lparr>so_id = None, so_pattern = ''.ci/*.yml'', so_network = None\<rparr>]"
    by (simp add: submit_sources_def matched_objects_def sample_submit_def for_repo_def sample_submit_env_def empty_set_def
        default_source_def unless_blank_def Let_def)
  have "se_lib sample_env = no_json" by (simp add: sample_env_def)
  moreover have "create_run (se_now sample_env) ''n0'' rq p (sy_db sample_sys) \<noteq> Err e"
    if "rq_repo_id rq = None" "pl_jobs p = [j]" for rq p j e
    using that by (auto simp: create_run_def Let_def sample_sys_def sample_db_def new_run_row_def new_job_row_def job_id_def empty_db_def)
  ultimately show ?thesis
    unfolding submit_def Let_def env sample_source_stored root fst_conv snd_conv
    by (simp add: src submit_source_def env root sample_tree_files submit_file_def sample_read_parsed default_filter_admits sample_read_planned sample_plan_assigned start_run_def Let_def sample_source_stored run_request_of_def split: result.splits)
qed


text \<open>C2. Nothing is started without a credential: whenever a request to the submit endpoint starts a run,
  either it carries a token that authenticates as a registered repository, then every run it starts
  is recorded for that repository and the payload names no other, or tokens are not required, it
  carries none, and its signature is valid for the received body. A request that is refused as
  unauthenticated or as being for another repository starts nothing and leaves the disk alone.\<close>

theorem submit_authenticated:
  assumes "post_submit A E show_trigger read_request h body (s, d) = (Reply code json, s', d')" "jobs_ok (sy_db s)"
  shows "\<exists>new. origins s' = origins s @ new
    \<and> (new = [] \<or>
        (case bearer h of
           Some token \<Rightarrow>
             (\<exists>repo req. fst (authenticate_repo_token (ap_sha A) (su_now E) token (sy_db s)) = Some repo
                \<and> read_request body = Ok req
                \<and> list_all (\<lambda>r. rn_repo_id r = Some (rp_id repo) \<and> rn_repo_url r = rp_url repo) new
                \<and> (trim (rf_url (sq_repository req)) = [] \<or> same_repo (rp_url repo) (rf_url (sq_repository req))))
         | None \<Rightarrow>
             \<not> ap_require_repo_token A
             \<and> verify_signature (ap_hmac A) (ap_webhook_secret A) body (header_str h ''x-heyo-signature-256'') = Ok ()))
    \<and> (code \<in> {401, 403} \<longrightarrow> new = [] \<and> d' = d)"
  using assms(1)
proof (cases rule: post_submit_cases)
  case stopped
  then show ?thesis by (simp add: origins_def)
next
  case (passed cred db1 req r)
  note keeps = authenticate_submit_keeps [OF passed(1)]
  have "origins (s\<lparr>sy_db := db1\<rparr>) = origins s" "jobs_ok db1"
    using keeps assms(2) by (simp_all add: origins_def jobs_ok_def)
  with submit_added [OF passed(3)] obtain new where new: "origins s' = origins s @ new"
    "list_all (started_for req (submit_repo cred req db1)) new"
    by (auto simp: only_added_def)
  show ?thesis
  proof (cases "bearer h")
    case None
    with new(1) authenticate_submit_Ok [OF passed(1)] passed(5) show ?thesis by auto
  next
    case (Some token)
    with authenticate_submit_Ok [OF passed(1)] obtain repo where repo: "cred = CredRepo repo"
      "fst (authenticate_repo_token (ap_sha A) (su_now E) token (sy_db s)) = Some repo" by auto
    then have "submit_repo cred req db1 = Some repo" by (simp add: submit_repo_def)
    with new passed(2,4,5) repo(2) Some show ?thesis
      by (auto simp: started_for_def submit_repo_url_def list_all_iff)
  qed
qed

definition sample_app :: app_config where
  "sample_app = \<lparr>ap_public_url = ''https://ci'', ap_require_repo_token = True, ap_webhook_secret = ''s'',
     ap_admin_emails = [], ap_hmac = (\<lambda>k m. k @ m), ap_sha = (\<lambda>x. x)\<rparr>"

theorem submit_authenticated_witness:
  "origins (fst (snd (post_submit sample_app sample_submit_env (\<lambda>_. []) (\<lambda>_. Ok sample_submit) Map.empty ''{}''
      (sample_sys, empty_disk)))) = origins sample_sys"
proof -
  obtain code json s' d' where post: "post_submit sample_app sample_submit_env (\<lambda>_. []) (\<lambda>_. Ok sample_submit) Map.empty ''{}''
      (sample_sys, empty_disk) = (Reply code json, s', d')"
    by (metis reply.exhaust surj_pair)
  have "bearer Map.empty = None" "ap_require_repo_token sample_app"
    by (simp_all add: bearer_def header_str_def sample_app_def)
  with submit_authenticated [OF post sample_sys_ok] show ?thesis unfolding post by auto
qed

section \<open>Copies of the source\<close>

text \<open>Every run of a submit gets the same source: a copy of a workspace for another run holds a source of
  the same format with the same bytes as the first run's.\<close>

theorem copy_tree_same:
  assumes "copy_tree E (for_run w i) (for_run w k) d = (Ok (), d')" "stored_source (for_run w i) d = Some (f, path)"
    and "\<And>b. tr_unbase64 (su_trigger E) (su_base64 E b) = Ok b" "git_local (su_trigger E) (wk_root (for_run w k))"
    and "\<And>f. on_disk d (path_for (for_run w k) f) = False"
    and "\<And>b. dk_files d path = Some b \<Longrightarrow> length b < 2 ^ 64"
  shows "stored_source (for_run w k) d' = Some (f, path_for (for_run w k) f)
    \<and> dk_files d' (path_for (for_run w k) f) = dk_files d path"
proof -
  let ?to = "for_run w k"
  from assms(1,2) obtain bytes n where b: "dk_files d path = Some bytes"
    and m: "materialize (su_trigger E) \<lparr>sa_format = source_format_str f, sa_content_base64 = su_base64 E bytes\<rparr>
       ?to (2 ^ 64 - 1) d = (Ok n, d')"
    by (auto simp: copy_tree_def split: option.splits result.splits prod.splits)
  have "source_format_parse ''tar.gz'' = Some TarGz" "source_format_parse ''git-bundle'' = Some GitBundle" by code_simp+
  then have "source_format_parse (source_format_str f) = Some f" by (cases f) simp_all
  then have dec: "decode_source (su_trigger E) \<lparr>sa_format = source_format_str f, sa_content_base64 = su_base64 E bytes\<rparr>
      (2 ^ 64 - 1) = Ok (f, bytes)"
    using assms(3) assms(6) [OF b] by (simp add: decode_source_def ok_or_def)
  show ?thesis
    using materialize_effect [OF assms(4) m] assms(5) dec b by (simp add: on_disk_def)
qed

theorem copy_tree_same_witness:
  "dk_files (snd (copy_tree sample_submit_env (for_run ''w'' ''n0'') (for_run ''w'' ''n1'')
      (empty_disk\<lparr>dk_files := [''w/n0.bundle'' \<mapsto> ''PACK'']\<rparr>))) ''w/n1.bundle'' = Some ''PACK''"
proof -
  let ?d = "empty_disk\<lparr>dk_files := [''w/n0.bundle'' \<mapsto> ''PACK'']\<rparr>"
  let ?a = "for_run ''w'' ''n0''" and ?b = "for_run ''w'' ''n1''"
  have ws: "?a = \<lparr>wk_root = ''w/n0'', wk_tarball = ''w/n0.tar.gz'', wk_bundle = ''w/n0.bundle''\<rparr>"
    "?b = \<lparr>wk_root = ''w/n1'', wk_tarball = ''w/n1.tar.gz'', wk_bundle = ''w/n1.bundle''\<rparr>"
    by code_simp+
  have fmt: "source_format_parse ''git-bundle'' = Some GitBundle" by code_simp
  have stored: "stored_source ?a ?d = Some (GitBundle, ''w/n0.bundle'')"
    by (simp add: stored_source_def on_disk_def empty_disk_def ws)
  obtain r d' where c: "copy_tree sample_submit_env ?a ?b ?d = (r, d')" by (meson surj_pair)
  have "is_ok (fst (copy_tree sample_submit_env ?a ?b ?d))"
    unfolding copy_tree_def stored
    by (simp add: materialize_def decode_source_def sample_submit_env_def sample_trigger_def ok_or_def fmt reset_root_def
        on_disk_def Let_def unpack_source_def clone_bundle_def run_git_def is_ascii_whitespace_def empty_disk_def)
  with c have c': "copy_tree sample_submit_env ?a ?b ?d = (Ok (), d')" by (cases r) auto
  have "tr_unbase64 (su_trigger sample_submit_env) (su_base64 sample_submit_env b) = Ok b" for b
    by (simp add: sample_submit_env_def sample_trigger_def)
  moreover have "git_local (su_trigger sample_submit_env) (wk_root ?b)"
    by (simp add: git_local_def sample_submit_env_def sample_trigger_def)
  moreover have "on_disk ?d (path_for ?b f) = False" for f
    by (cases f) (simp_all add: on_disk_def empty_disk_def ws)
  moreover have "length b < 2 ^ 64" if "dk_files ?d ''w/n0.bundle'' = Some b" for b
    using that by (auto simp: empty_disk_def)
  ultimately have "dk_files d' (path_for ?b GitBundle) = dk_files ?d ''w/n0.bundle''"
    using copy_tree_same [OF c' stored] by blast
  then show ?thesis unfolding c' by (simp add: ws)
qed

section \<open>A workflow of any repository\<close>

text \<open>A payload that names a workflow object gets that object, whether or not it is for the repository the
  token belongs to and whether or not it is enabled; the run is recorded under it, and its secrets
  are looked up under it.\<close>

lemma workflow_of_any_repository:
  assumes "sq_workflow_id req = Some i" "find_object (su_objects E) i = Some w"
  shows "submit_sources E req repo = Ok [object_source repo w]"
    and "rq_workflow_id (run_request_of req actor repo ch (object_source repo w)) = ob_id w"
  using assms by (simp_all add: submit_sources_def matched_objects_def Let_def run_request_of_def object_source_def)

end
