(* ===== verification/LogStream.thy ===== *)
theory LogStream
  imports Submit
begin

text \<open>
  Following a job's log: the token of \<^verbatim>\<open>src/src/web/stream.rs\<close> that lets a browser in, and the loop of
  \<^verbatim>\<open>log_stream\<close> in \<^verbatim>\<open>src/src/web/mod.rs\<close> that sends what has been added since it last looked.

  HMAC-SHA256 is an argument of key and message. What the loop sees each time it looks is a list of
  observations.
\<close>

section \<open>The token\<close>

definition TOKEN_TTL_SECS :: nat where
  "TOKEN_TTL_SECS = 60 * 60"

text \<open>\<^verbatim>\<open>u64::to_be_bytes\<close>.\<close>

fun be_bytes :: "nat \<Rightarrow> nat \<Rightarrow> string" where
  "be_bytes 0 n = []"
| "be_bytes (Suc k) n = be_bytes k (n div 256) @ [char_of (n mod 256)]"

definition sign_input :: "nat \<Rightarrow> string \<Rightarrow> string \<Rightarrow> string" where
  "sign_input expiry run_id job_key =
     be_bytes 8 expiry @ be_bytes 8 (length run_id) @ run_id @ be_bytes 8 (length job_key) @ job_key"

definition sign_stream :: "(string \<Rightarrow> string \<Rightarrow> string) \<Rightarrow> string \<Rightarrow> nat \<Rightarrow> string \<Rightarrow> string \<Rightarrow> string" where
  "sign_stream hmac key expiry run_id job_key = hex_encode (hmac key (sign_input expiry run_id job_key))"

definition mint_stream :: "(string \<Rightarrow> string \<Rightarrow> string) \<Rightarrow> string \<Rightarrow> nat \<Rightarrow> string \<Rightarrow> string \<Rightarrow> string" where
  "mint_stream hmac key now run_id job_key =
     (let expiry = now + TOKEN_TTL_SECS in nat_str expiry @ ''.'' @ sign_stream hmac key expiry run_id job_key)"

definition verify_stream ::
    "(string \<Rightarrow> string \<Rightarrow> string) \<Rightarrow> string \<Rightarrow> nat \<Rightarrow> string \<Rightarrow> string \<Rightarrow> string \<Rightarrow> bool" where
  "verify_stream hmac key now token run_id job_key =
     (case split_once (CHR ''.'') token of
        None \<Rightarrow> False
      | Some (expiry_str, provided) \<Rightarrow>
          (case parse_u64 expiry_str of
             None \<Rightarrow> False
           | Some expiry \<Rightarrow>
               if expiry < now then False
               else (let expected = sign_stream hmac key expiry run_id job_key in
                     length provided = length expected \<and> provided = expected)))"

section \<open>The loop\<close>

datatype stream_event = LogEvent int string | DoneEvent

type_synonym sent = "int \<rightharpoonup> nat"

text \<open>One step of the job: its index and the text of its log. On ASCII text every position is a character
  boundary.\<close>

definition sent_so_far :: "sent \<Rightarrow> int \<Rightarrow> nat" where
  "sent_so_far sent i = (case sent i of Some n \<Rightarrow> n | None \<Rightarrow> 0)"

definition tail_step :: "int \<times> string \<Rightarrow> sent \<Rightarrow> stream_event list \<times> sent" where
  "tail_step st sent =
     (let (idx, body) = st; already = sent_so_far sent idx in
      if already < length body
      then (let fresh = drop (min already (length body)) body in
            (if fresh \<noteq> [] then [LogEvent idx fresh] else [], sent(idx \<mapsto> length body)))
      else ([], sent))"

fun tail_steps :: "(int \<times> string) list \<Rightarrow> sent \<Rightarrow> stream_event list \<times> sent" where
  "tail_steps [] sent = ([], sent)"
| "tail_steps (st # sts) sent =
     (let (ev, sent1) = tail_step st sent; (evs, sent2) = tail_steps sts sent1 in (ev @ evs, sent2))"

text \<open>What one look finds: nothing if the job is gone, else the steps and the status.\<close>

definition observe ::
    "(step_row \<Rightarrow> string option) \<Rightarrow> string \<Rightarrow> string \<Rightarrow> db \<Rightarrow> ((int \<times> string) list \<times> job_status) option" where
  "observe read_log run_id job_key d =
     (case find (\<lambda>j. jr_job_key j = job_key) (jobs_of run_id d) of
        None \<Rightarrow> None
      | Some j \<Rightarrow>
          Some (map (\<lambda>s. (sr_idx s, case read_log s of Some b \<Rightarrow> b | None \<Rightarrow> [])) (steps_of (jr_id j) d), jr_status j))"

fun stream_loop :: "((int \<times> string) list \<times> job_status) option list \<Rightarrow> sent \<Rightarrow> stream_event list" where
  "stream_loop [] sent = []"
| "stream_loop (None # obs) sent = []"
| "stream_loop (Some (sts, status) # obs) sent =
     (let (evs, sent') = tail_steps sts sent in
      evs @ (if job_terminal status then [DoneEvent] else stream_loop obs sent'))"

definition log_stream ::
    "(string \<Rightarrow> string \<Rightarrow> string) \<Rightarrow> string \<Rightarrow> nat \<Rightarrow> string option \<Rightarrow> string \<Rightarrow> string
     \<Rightarrow> ((int \<times> string) list \<times> job_status) option list \<Rightarrow> (nat, stream_event list) result" where
  "log_stream hmac key now token run_id job_key obs =
     (if \<not> verify_stream hmac key now (case token of Some t \<Rightarrow> t | None \<Rightarrow> []) run_id job_key then Err 401
      else Ok (stream_loop obs Map.empty))"

section \<open>Tokens are for one job\<close>

lemma length_be_bytes [simp]: "length (be_bytes k n) = k"
  by (induction k arbitrary: n) auto

lemma be_bytes_inj: "m < 256 ^ k \<Longrightarrow> n < 256 ^ k \<Longrightarrow> be_bytes k m = be_bytes k n \<longleftrightarrow> m = n"
proof (induction k arbitrary: m n)
  case (Suc k)
  have "m div 256 < 256 ^ k" "n div 256 < 256 ^ k"
    using Suc.prems by (auto intro: less_mult_imp_div_less simp: mult.commute)
  moreover have "(char_of (m mod 256) :: char) = char_of (n mod 256) \<longleftrightarrow> m mod 256 = n mod 256"
    by (metis mod_mod_trivial of_char_of)
  moreover have "m = n \<longleftrightarrow> m div 256 = n div 256 \<and> m mod 256 = n mod 256"
    by (metis mult_div_mod_eq)
  ultimately show ?case using Suc.IH by simp
qed simp

lemma sign_input_inj:
  assumes "sign_input e r j = sign_input e' r' j'" "e < 2 ^ 64" "e' < 2 ^ 64"
    and "length r < 2 ^ 64" "length r' < 2 ^ 64" "length j < 2 ^ 64" "length j' < 2 ^ 64"
  shows "e = e' \<and> r = r' \<and> j = j'"
proof -
  have inj: "be_bytes 8 m = be_bytes 8 n \<longleftrightarrow> m = n" if "m < 2 ^ 64" "n < 2 ^ 64" for m n
    using that be_bytes_inj [of m 8 n] by simp
  have e: "be_bytes 8 e = be_bytes 8 e'" "be_bytes 8 (length r) = be_bytes 8 (length r')"
    "r @ be_bytes 8 (length j) @ j = r' @ be_bytes 8 (length j') @ j'"
    using assms(1) by (simp_all add: sign_input_def append_eq_append_conv)
  then have "r = r'" "be_bytes 8 (length j) @ j = be_bytes 8 (length j') @ j'"
    using inj assms(4,5) by (simp_all add: append_eq_append_conv)
  then show ?thesis using e(1) inj assms(2,3) by (simp add: append_eq_append_conv)
qed

lemma hex_encode_inj: "hex_encode a = hex_encode b \<longleftrightarrow> a = b"
  by (metis hex_decode_encode option.inject)

lemma parse_u64_nat_str: "n < 2 ^ 64 \<Longrightarrow> parse_u64 (nat_str n) = Some n"
proof -
  have "is_ascii_digit (hd (nat_str n))" by (intro nat_str_digits [of _ n]) simp
  then have "(case nat_str n of c # cs \<Rightarrow> if c = CHR ''+'' then cs else nat_str n | [] \<Rightarrow> nat_str n) = nat_str n"
    by (cases "nat_str n") (auto simp: is_ascii_digit_def)
  moreover assume "n < 2 ^ 64"
  ultimately show ?thesis using nat_str_digits [of _ n] by (simp add: parse_u64_def Let_def list_all_iff)
qed



section \<open>Every line once\<close>

text \<open>What was sent for one step.\<close>

definition sent_text :: "int \<Rightarrow> stream_event list \<Rightarrow> string" where
  "sent_text i evs = concat (map (\<lambda>e. case e of LogEvent k t \<Rightarrow> if k = i then t else [] | DoneEvent \<Rightarrow> []) evs)"

lemma sent_text_simps [simp]:
  "sent_text i [] = []" "sent_text i (xs @ ys) = sent_text i xs @ sent_text i ys"
  "sent_text i [DoneEvent] = []"
  by (simp_all add: sent_text_def)

text \<open>One look sends, for each step, exactly what its log holds beyond what was sent before.\<close>

lemma tail_steps_sends:
  assumes "tail_steps sts sent = (evs, sent')" "distinct (map fst sts)"
  shows "sent_text i evs = (case map_of sts i of None \<Rightarrow> [] | Some t \<Rightarrow> drop (sent_so_far sent i) t)
    \<and> sent_so_far sent' i = (case map_of sts i of None \<Rightarrow> sent_so_far sent i | Some t \<Rightarrow> max (sent_so_far sent i) (length t))"
  using assms
proof (induction sts arbitrary: sent evs)
  case (Cons st sts)
  obtain k t where st: "st = (k, t)" by fastforce
  obtain ev1 sent1 where one: "tail_step st sent = (ev1, sent1)" by fastforce
  obtain evs2 sent2 where rest: "tail_steps sts sent1 = (evs2, sent2)" by fastforce
  with one Cons.prems have out: "evs = ev1 @ evs2" "sent' = sent2" by auto
  have k: "map_of sts k = None" using Cons.prems(2) st by (simp add: map_of_eq_None_iff)
  have "sent_text i ev1 = (if i = k then drop (sent_so_far sent k) t else [])"
    "sent_so_far sent1 i = (if i = k then max (sent_so_far sent k) (length t) else sent_so_far sent i)"
    using one by (auto simp: tail_step_def st Let_def sent_text_def sent_so_far_def split: if_splits)
  moreover have "sent_text i evs2 = (case map_of sts i of None \<Rightarrow> [] | Some t \<Rightarrow> drop (sent_so_far sent1 i) t)
    \<and> sent_so_far sent2 i = (case map_of sts i of None \<Rightarrow> sent_so_far sent1 i | Some t \<Rightarrow> max (sent_so_far sent1 i) (length t))"
    using Cons.IH [OF rest [folded out(2)]] Cons.prems(2) by (simp add: out)
  ultimately show ?case using k by (cases "i = k") (auto simp: st out split: option.split)
qed simp

definition text_at :: "(int \<times> string) list \<times> job_status \<Rightarrow> int \<Rightarrow> string" where
  "text_at ob i = (case map_of (fst ob) i of Some t \<Rightarrow> t | None \<Rightarrow> [])"

text \<open>Logs grow from one look to the next.\<close>

definition growing :: "((int \<times> string) list \<times> job_status) list \<Rightarrow> bool" where
  "growing obs \<longleftrightarrow> successively (\<lambda>a b. \<forall>i. prefix (text_at a i) (text_at b i)) obs"

lemma tail_steps_prefix:
  assumes "tail_steps sts sent = (evs, sent')" "distinct (map fst sts)"
    and "prefix p (text_at (sts, st) i)" "sent_so_far sent i = length p"
  shows "p @ sent_text i evs = text_at (sts, st) i \<and> sent_so_far sent' i = length (text_at (sts, st) i)"
  using tail_steps_sends [OF assms(1,2), of i] assms(3,4) prefix_length_le [OF assms(3)]
  by (auto simp: text_at_def prefix_def max_def split: option.splits)

lemma done_not_in_tail: "tail_steps sts sent = (evs, sent') \<Longrightarrow> DoneEvent \<notin> set evs"
  by (induction sts arbitrary: sent evs) (auto simp: tail_step_def Let_def split: prod.splits if_splits)

lemma stream_loop_sends:
  assumes "list_all (\<lambda>ob. distinct (map fst (fst ob))) obs" "growing obs" "obs \<noteq> []"
    and "list_all (\<lambda>ob. \<not> job_terminal (snd ob)) (butlast obs)"
    and "\<And>i. prefix (pre i) (text_at (hd obs) i)" "\<And>i. sent_so_far sent i = length (pre i)"
  shows "pre i @ sent_text i (stream_loop (map Some obs) sent) = text_at (last obs) i
    \<and> (DoneEvent \<in> set (stream_loop (map Some obs) sent) \<longleftrightarrow> job_terminal (snd (last obs)))"
  using assms
proof (induction obs arbitrary: pre sent)
  case (Cons ob obs)
  obtain sts status where ob: "ob = (sts, status)" by fastforce
  obtain evs sent' where ts: "tail_steps sts sent = (evs, sent')" by fastforce
  have step: "pre k @ sent_text k evs = text_at ob k" "sent_so_far sent' k = length (text_at ob k)" for k
    using tail_steps_prefix [OF ts, of "pre k" status k] Cons.prems(1,5,6) ob by simp_all
  note fin = done_not_in_tail [OF ts]
  show ?case
  proof (cases "obs = []")
    case True
    with step(1) [of i] fin ts show ?thesis by (auto simp: ob sent_text_def)
  next
    case False
    then have nt: "\<not> job_terminal status" using Cons.prems(4) ob by simp
    have "prefix (text_at ob k) (text_at (hd obs) k)" for k
      using Cons.prems(2) False by (cases obs) (auto simp: growing_def)
    moreover have "growing obs" using Cons.prems(2) False by (cases obs) (auto simp: growing_def)
    ultimately have "text_at ob i @ sent_text i (stream_loop (map Some obs) sent') = text_at (last obs) i
        \<and> (DoneEvent \<in> set (stream_loop (map Some obs) sent') \<longleftrightarrow> job_terminal (snd (last obs)))"
      using Cons.prems(1,4) False step(2) by (intro Cons.IH) auto
    then show ?thesis using False nt ts fin by (auto simp: ob step(1) [unfolded ob, symmetric])
  qed
qed simp

text \<open>C32. Whoever follows a log reads it whole and once: if the logs of a job only grow while it is followed,
  the texts sent for a step put together are the log of that step as last seen, and the stream ends
  with a final event exactly when the job was last seen finished.\<close>

theorem stream_sends_log:
  assumes "list_all (\<lambda>ob. distinct (map fst (fst ob))) obs" "growing obs" "obs \<noteq> []"
    and "list_all (\<lambda>ob. \<not> job_terminal (snd ob)) (butlast obs)"
  shows "sent_text i (stream_loop (map Some obs) Map.empty) = text_at (last obs) i
    \<and> (DoneEvent \<in> set (stream_loop (map Some obs) Map.empty) \<longleftrightarrow> job_terminal (snd (last obs)))"
  using stream_loop_sends [OF assms, of "\<lambda>_. []" Map.empty i] by (simp add: sent_so_far_def)

theorem stream_sends_log_witness:
  "sent_text 0 (stream_loop (map Some [([(0, ''ab'')], JRunning), ([(0, ''abc''), (1, ''x'')], JSuccess)]) Map.empty) = ''abc''"
proof -
  let ?obs = "[([(0 :: int, ''ab'')], JRunning), ([(0, ''abc''), (1, ''x'')], JSuccess)]"
  have "list_all (\<lambda>ob. distinct (map fst (fst ob))) ?obs" "?obs \<noteq> []" "growing ?obs"
    "list_all (\<lambda>ob. \<not> job_terminal (snd ob)) (butlast ?obs)"
    by (auto simp: growing_def text_at_def job_terminal_def)
  from stream_sends_log [OF this(1,3,2,4), of 0] show ?thesis by (simp add: text_at_def)
qed

end
