(* ===== verification/Web.thy ===== *)
theory Web
  imports Execution LogStream
begin

text \<open>
  The rest of \<^verbatim>\<open>src/src/web/mod.rs\<close>: who may manage an installation, and what the pages and forms do.
  A page is the data it is rendered from; the HTML is left out, and so are the texts of refusals.
  The state is that of the dispatcher (\<open>world\<close>) with the pool of runners the process last loaded.
\<close>

section \<open>Replies\<close>

datatype flash = NoFlash | FlashFailed string | FlashDone string | FlashMinted string string

type_synonym repo_view = "repo_row \<times> token_row list \<times> run_row option"

record queue_depths =
  qs_by_route :: "string \<rightharpoonup> queue_depth option"
  qs_error :: "string option"

datatype web_reply =
    WebRefused nat
  | WebNotFound
  | WebRedirect string
  | RunsPage "run_row list" "repo_row list" "string option"
  | RunPage run_row "job_row list" "artifact_row list" "(string \<times> string option) list"
  | JobPage run_row job_row "(step_row \<times> string) list" "string option"
  | WorkflowsPage "(string \<times> run_row) list"
  | ReposPage "repo_view list" flash
  | VmsPage "(vm_row \<times> (string \<times> run_status) option) list" image_table flash
  | NetworksPage runner_pool queue_depths flash

section \<open>Who may manage\<close>

definition origin_of :: "headers \<Rightarrow> string option" where
  "origin_of h =
     Option.bind (map_option trim (header_str h ''origin'')) (\<lambda>o'. if o' \<noteq> [] \<and> o' \<noteq> ''null'' then Some o' else None)"

definition check_origin :: "app_config \<Rightarrow> headers \<Rightarrow> (web_reply, unit) result" where
  "check_origin A h =
     (case origin_of h of
        None \<Rightarrow> Ok ()
      | Some o' \<Rightarrow> if trim_end_char (CHR ''/'') o' = ap_public_url A then Ok () else Err (WebRefused 403))"

definition may_manage :: "app_config \<Rightarrow> nat \<Rightarrow> headers \<Rightarrow> db \<Rightarrow> (web_reply, identity option) result \<times> db" where
  "may_manage A now h d =
     (case check_origin A h of
        Err r \<Rightarrow> (Err r, d)
      | Ok _ \<Rightarrow>
          (case from_headers h of
             None \<Rightarrow> if ap_admin_emails A = [] then (Ok None, d) else (Err (WebRefused 401), d)
           | Some who \<Rightarrow>
               (case upsert_user now (id_subject who) (id_email who) (id_name who) (ap_admin_emails A) d of
                  (role, d') \<Rightarrow> if role = ''admin'' then (Ok (Some who), d') else (Err (WebRefused 403), d'))))"

section \<open>State\<close>

record web_state =
  wb_world :: world
  wb_pool :: runner_pool

definition web_db :: "web_state \<Rightarrow> db" where
  "web_db w = sy_db (wo_sys (wb_world w))"

definition set_web_db :: "db \<Rightarrow> web_state \<Rightarrow> web_state" where
  "set_web_db d w = w\<lparr>wb_world := on_sys (\<lambda>s. s\<lparr>sy_db := d\<rparr>) (wb_world w)\<rparr>"

record web_env =
  we_app :: app_config
  we_host :: host
  we_quote :: "string \<Rightarrow> string"
  we_show_store :: "store_error \<Rightarrow> string"
  we_show_runner :: "runner_error \<Rightarrow> string"
  we_new_id :: string
  we_secret :: string
  we_stream_key :: string
  we_read_log :: "step_row \<Rightarrow> string option"
  we_depth :: "route \<Rightarrow> (string, queue_depth option) result"
  we_depth_late :: bool
  we_cloud :: "(string, unit) result"
  we_post :: "string \<Rightarrow> json \<Rightarrow> (string, nat \<times> string) result"
  we_show_status :: "nat \<Rightarrow> string"
  we_control :: control_plane

abbreviation we_now :: "web_env \<Rightarrow> nat" where
  "we_now W \<equiv> ho_now (we_host W)"

text \<open>Every managing handler starts with \<^verbatim>\<open>may_manage\<close> and answers with its refusal.\<close>

definition managed ::
    "web_env \<Rightarrow> headers \<Rightarrow> (identity option \<Rightarrow> web_state \<Rightarrow> web_reply \<times> web_state) \<Rightarrow> web_state
     \<Rightarrow> web_reply \<times> web_state" where
  "managed W h act w =
     (case may_manage (we_app W) (we_now W) h (web_db w) of
        (Err r, d) \<Rightarrow> (r, set_web_db d w)
      | (Ok who, d) \<Rightarrow> act who (set_web_db d w))"

section \<open>Pages\<close>

definition RECENT_RUNS :: nat where
  "RECENT_RUNS = 50"

definition VM_LOG_STEP_IDX :: int where
  "VM_LOG_STEP_IDX = - 2"

definition runs_page :: "string option \<Rightarrow> db \<Rightarrow> web_reply" where
  "runs_page q d =
     (let repo = (case q of Some r \<Rightarrow> if r = [] then None else Some r | None \<Rightarrow> None) in
      RunsPage (recent_runs RECENT_RUNS repo d) (repos d) repo)"

definition run_page :: "web_env \<Rightarrow> string \<Rightarrow> db \<Rightarrow> web_reply" where
  "run_page W run_id d =
     (case get_run run_id d of
        None \<Rightarrow> WebNotFound
      | Some run \<Rightarrow>
          (let jobs = jobs_of run_id d in
           RunPage run jobs (artifacts_of run_id d)
             (concat (map (\<lambda>j. case find (\<lambda>s. sr_idx s = VM_LOG_STEP_IDX) (steps_of (jr_id j) d) of
                                 Some s \<Rightarrow> [(jr_display j, we_read_log W s)] | None \<Rightarrow> []) jobs))))"

definition job_page :: "web_env \<Rightarrow> string \<Rightarrow> string \<Rightarrow> db \<Rightarrow> web_reply" where
  "job_page W run_id job_key d =
     (case get_run run_id d of
        None \<Rightarrow> WebNotFound
      | Some run \<Rightarrow>
          (case find (\<lambda>j. jr_job_key j = job_key) (jobs_of run_id d) of
             None \<Rightarrow> WebNotFound
           | Some j \<Rightarrow>
               JobPage run j
                 (map (\<lambda>s. (s, case we_read_log W s of Some b \<Rightarrow> b | None \<Rightarrow> [])) (steps_of (jr_id j) d))
                 (if job_terminal (jr_status j) then None
                  else Some (mint_stream (ap_hmac (we_app W)) (we_stream_key W) (we_now W) run_id job_key))))"

fun newest_per_workflow :: "run_row list \<Rightarrow> (string \<times> run_row) list \<Rightarrow> (string \<times> run_row) list" where
  "newest_per_workflow [] seen = seen"
| "newest_per_workflow (r # rs) seen =
     newest_per_workflow rs
       (if list_ex (\<lambda>(i, _). i = rn_workflow_id r) seen then seen else seen @ [(rn_workflow_id r, r)])"

definition workflows_page :: "db \<Rightarrow> web_reply" where
  "workflows_page d = WorkflowsPage (newest_per_workflow (recent_runs 500 None d) [])"

definition render_repos :: "flash \<Rightarrow> web_state \<Rightarrow> web_reply \<times> web_state" where
  "render_repos fl w =
     (ReposPage (map (\<lambda>r. (r, repo_tokens (rp_id r) (web_db w), last_run_of_repo (rp_id r) (web_db w))) (repos (web_db w))) fl, w)"

definition depth_routes :: "runner_pool \<Rightarrow> (string \<times> route) list" where
  "depth_routes pool =
     concat (map (\<lambda>n. (if ns_network_id n \<noteq> [] then [(ns_network_id n, RNetwork (ns_network_id n))] else [])
                      @ map (\<lambda>r. (ru_id r, RRunner (ru_id r))) (ns_runners n)) (served pool))"

definition queue_depths_of :: "web_env \<Rightarrow> runner_pool \<Rightarrow> queue_depths" where
  "queue_depths_of W pool =
     (if we_depth_late W then \<lparr>qs_by_route = Map.empty, qs_error = Some ''The queue did not answer within 5s.''\<rparr>
      else foldl (\<lambda>q (key, route). case we_depth W route of
                     Ok n \<Rightarrow> q\<lparr>qs_by_route := (qs_by_route q)(key \<mapsto> n)\<rparr>
                   | Err e \<Rightarrow> q\<lparr>qs_error := Some e\<rparr>)
             \<lparr>qs_by_route = Map.empty, qs_error = None\<rparr> (depth_routes pool))"

definition render_vms :: "web_env \<Rightarrow> flash \<Rightarrow> web_state \<Rightarrow> web_reply \<times> web_state" where
  "render_vms W notice w =
     (let ours = map ru_id (all_runners (wb_pool w)); s = wo_sys (wb_world w) in
      (VmsPage (inventory ours (sy_db s) (sy_pool s)) (image_inventory ours (sy_images s)) notice, w))"

definition render_networks :: "web_env \<Rightarrow> flash \<Rightarrow> web_state \<Rightarrow> web_reply \<times> web_state" where
  "render_networks W notice w = (NetworksPage (wb_pool w) (queue_depths_of W (wb_pool w)) notice, w)"

section \<open>Handlers\<close>

text \<open>The dispatcher sees the runners the process last loaded.\<close>

definition web_host :: "web_env \<Rightarrow> web_state \<Rightarrow> host" where
  "web_host W w = (we_host W)\<lparr>ho_sched := (ho_sched (we_host W))\<lparr>se_pool := wb_pool w\<rparr>\<rparr>"

definition post_cancel_run :: "web_env \<Rightarrow> string \<Rightarrow> identity option \<Rightarrow> web_state \<Rightarrow> web_reply \<times> web_state" where
  "post_cancel_run W run_id who w =
     (WebRedirect (''/runs/'' @ run_id), set_web_db (snd (cancel_run (we_now W) run_id (web_db w))) w)"

record register_form =
  fm_url :: string
  fm_name :: string
  fm_workflow_path :: string
  fm_network :: string

text \<open>The network picked in a form: none, a served one by its name, or an error.\<close>

definition served_choice :: "web_env \<Rightarrow> runner_pool \<Rightarrow> string \<Rightarrow> (string, string option) result" where
  "served_choice W pool name =
     (if name = [] then Ok None
      else (case find_network pool name of
              Some n \<Rightarrow> if ns_served n then Ok (Some (ns_network_name n))
                        else Err (''This orchestrator does not serve a network named '' @ we_quote W name
                               @ ''. See Networks for what it does serve.'')
            | None \<Rightarrow> Err (''This orchestrator does not serve a network named '' @ we_quote W name
                               @ ''. See Networks for what it does serve.'')))"

definition post_register_repo ::
    "web_env \<Rightarrow> register_form \<Rightarrow> identity option \<Rightarrow> web_state \<Rightarrow> web_reply \<times> web_state" where
  "post_register_repo W form who w =
     (let url = trim (fm_url form) in
      if url = [] then
        render_repos (FlashFailed ''A clone URL is required; it is what a submit is matched against.'') w
      else
        (let name = (if trim (fm_name form) = [] then name_from_url url else trim (fm_name form));
             wpath = (if trim (fm_workflow_path form) = [] then None else Some (trim (fm_workflow_path form))) in
         (case served_choice W (wb_pool w) (trim (fm_network form)) of
            Err m \<Rightarrow> render_repos (FlashFailed m) w
          | Ok network \<Rightarrow>
              (case register_repo (we_new_id W) url name wpath network (map_option id_email who) (web_db w) of
                 Err e \<Rightarrow> render_repos (FlashFailed (we_show_store W e)) w
               | Ok (r, d) \<Rightarrow>
                   render_repos (FlashDone (rp_name r @ '' is registered. Mint a token for it below.'')) (set_web_db d w)))))"

definition post_create_token ::
    "web_env \<Rightarrow> string \<Rightarrow> string \<Rightarrow> identity option \<Rightarrow> web_state \<Rightarrow> web_reply \<times> web_state" where
  "post_create_token W repo_id given who w =
     (case get_repo repo_id (web_db w) of
        None \<Rightarrow> render_repos (FlashFailed ''That repository is not registered any more.'') w
      | Some repo \<Rightarrow>
          (let name = (if trim given = [] then (case who of Some i \<Rightarrow> id_email i | None \<Rightarrow> ''unnamed'') else trim given) in
           (case create_repo_token (ap_sha (we_app W)) (we_secret W) (we_new_id W) (rp_id repo) name
                   (map_option id_email who) (web_db w) of
              Err e \<Rightarrow> render_repos (FlashFailed (we_show_store W e)) w
            | Ok (plaintext, d) \<Rightarrow> render_repos (FlashMinted (rp_name repo) plaintext) (set_web_db d w))))"

definition post_revoke_token ::
    "web_env \<Rightarrow> string \<Rightarrow> identity option \<Rightarrow> web_state \<Rightarrow> web_reply \<times> web_state" where
  "post_revoke_token W token_id who w =
     (case revoke_repo_token (we_now W) token_id (web_db w) of
        (True, d) \<Rightarrow> render_repos (FlashDone ''That token no longer works. Any build already running is unaffected.'') (set_web_db d w)
      | (False, d) \<Rightarrow> render_repos (FlashDone ''That token was already revoked.'') (set_web_db d w))"

definition post_set_network ::
    "web_env \<Rightarrow> string \<Rightarrow> string \<Rightarrow> identity option \<Rightarrow> web_state \<Rightarrow> web_reply \<times> web_state" where
  "post_set_network W repo_id network who w =
     (let wanted = trim network;
          assign = (\<lambda>chosen.
            case set_repo_network repo_id chosen (web_db w) of
              (True, d) \<Rightarrow>
                render_repos (FlashDone (case chosen of
                    Some n \<Rightarrow> ''New builds of this repository run in '' @ n @ ''. A job with its own `uses:` still goes where the workflow says, and anything already queued keeps the network it was scheduled for.''
                  | None \<Rightarrow> ''This repository is back on the installation default network.'')) (set_web_db d w)
            | (False, d) \<Rightarrow> render_repos (FlashFailed ''That repository is not registered.'') (set_web_db d w)) in
      if wanted = [] then assign None
      else
        (case find_network (wb_pool w) wanted of
           Some n \<Rightarrow>
             if ns_served n then assign (Some (ns_network_name n))
             else render_repos (FlashFailed (''Network '' @ ns_network_name n
                    @ '' exists but this orchestrator does not take work for it. Add it to CI_NETWORK, or set CI_NETWORK=*.'')) w
         | None \<Rightarrow> render_repos (FlashFailed (''No heyvm network is named '' @ we_quote W wanted @ ''.'')) w))"

definition post_set_enabled ::
    "web_env \<Rightarrow> string \<Rightarrow> bool \<Rightarrow> identity option \<Rightarrow> web_state \<Rightarrow> web_reply \<times> web_state" where
  "post_set_enabled W repo_id enabled who w =
     (case set_repo_enabled repo_id enabled (web_db w) of
        (True, d) \<Rightarrow>
          render_repos (FlashDone (if enabled then ''That repository can submit again.''
            else ''That repository is paused. Its tokens still exist, and every submit with one is refused until it is resumed. The shared CI_WEBHOOK_SECRET is not affected ''
              @ DASH @ '' it belongs to no repository, so nothing about one can stop it.'')) (set_web_db d w)
      | (False, d) \<Rightarrow> render_repos (FlashFailed ''That repository is not registered.'') (set_web_db d w))"

definition post_delete_repo ::
    "web_env \<Rightarrow> string \<Rightarrow> identity option \<Rightarrow> web_state \<Rightarrow> web_reply \<times> web_state" where
  "post_delete_repo W repo_id who w =
     (case delete_repo repo_id (web_db w) of
        (True, d) \<Rightarrow>
          render_repos (FlashDone ''The registration and its tokens are gone. Its runs are kept, and a submit with one of those tokens is now refused.'') (set_web_db d w)
      | (False, d) \<Rightarrow> render_repos (FlashFailed ''That repository is not registered.'') (set_web_db d w))"

definition post_destroy_vm ::
    "web_env \<Rightarrow> string \<Rightarrow> identity option \<Rightarrow> web_state \<Rightarrow> web_reply \<times> web_state" where
  "post_destroy_vm W sandbox_id who w =
     (case destroy_pooled_vm (web_host W w) sandbox_id (wb_world w) of
        (Ok message, w') \<Rightarrow> render_vms W (FlashDone message) (w\<lparr>wb_world := w'\<rparr>)
      | (Err e, w') \<Rightarrow> render_vms W (FlashFailed (ho_show (we_host W) e)) (w\<lparr>wb_world := w'\<rparr>))"

definition post_cleanup_failed :: "web_env \<Rightarrow> identity option \<Rightarrow> web_state \<Rightarrow> web_reply \<times> web_state" where
  "post_cleanup_failed W who w =
     (case destroy_failed_vms (web_host W w) (wb_world w) of
        (message, w') \<Rightarrow> render_vms W (FlashDone message) (w\<lparr>wb_world := w'\<rparr>))"

text \<open>\<^verbatim>\<open>Runners::join_network\<close>.\<close>

definition join_network :: "web_env \<Rightarrow> string \<Rightarrow> string \<Rightarrow> (runner_error, unit) result" where
  "join_network W network_id node_id =
     (let path = ''/networks/'' @ network_id @ ''/members'' in
      and_then (map_err (\<lambda>e. ControlPlane (''could not build a cloud client: '' @ e)) (we_cloud W)) (\<lambda>_.
      and_then (map_err (\<lambda>e. ControlPlane (''POST '' @ path @ '': '' @ e))
                 (we_post W path (JObj [(''sandbox_kind'', JStr MEMBER_KIND_HOST), (''sandbox_ref'', JStr node_id)])))
        (\<lambda>(status, detail).
           if status < 200 \<or> 300 \<le> status
           then Err (ControlPlane (''POST '' @ path @ '' returned '' @ we_show_status W status @ '': '' @ take 200 detail))
           else Ok ())))"

definition post_join_network ::
    "web_env \<Rightarrow> string \<Rightarrow> identity option \<Rightarrow> web_state \<Rightarrow> web_reply \<times> web_state" where
  "post_join_network W network_id who w =
     (let node_id = po_default_node_id (wb_pool w) in
      if node_id = [] then
        render_networks W (FlashFailed ''This machine's daemon could not be identified, so there is no host to                  add. Set CI_DEFAULT_NODE to its daemon id or name.'') w
      else
        (case find_network (wb_pool w) network_id of
           None \<Rightarrow> render_networks W (FlashFailed ''That network no longer exists on this account.'') w
         | Some n \<Rightarrow>
             (case join_network W network_id node_id of
                Err e \<Rightarrow> render_networks W (FlashFailed (we_show_runner W e)) w
              | Ok _ \<Rightarrow>
                  (let pool = snd (refresh (we_show_runner W) (ho_runners (we_host W)) (we_control W) (wb_pool w));
                       serves = (case find_network pool network_id of Some m \<Rightarrow> ns_served m | None \<Rightarrow> False) in
                   render_networks W (FlashDone (''This host is now a member of '' @ ns_network_name n
                       @ ''. It may take a moment to appear online.''
                       @ (if serves then [] else '' This orchestrator does not serve that network, though, so jobs                      still cannot be sent to it ''
                            @ DASH @ '' add it to CI_NETWORK, or set                      CI_NETWORK=*.'')))
                     (w\<lparr>wb_pool := pool\<rparr>)))))"

section \<open>The routes that manage\<close>

datatype manage =
    CancelRun string
  | ShowRepos
  | RegisterRepo register_form
  | CreateToken string string
  | RevokeToken string
  | SetNetwork string string
  | SetEnabled string bool
  | DeleteRepo string
  | DestroyVm string
  | CleanupFailed
  | JoinNetwork string

fun manage_action :: "web_env \<Rightarrow> manage \<Rightarrow> identity option \<Rightarrow> web_state \<Rightarrow> web_reply \<times> web_state" where
  "manage_action W (CancelRun i) = post_cancel_run W i"
| "manage_action W ShowRepos = (\<lambda>_. render_repos NoFlash)"
| "manage_action W (RegisterRepo f) = post_register_repo W f"
| "manage_action W (CreateToken r n) = post_create_token W r n"
| "manage_action W (RevokeToken t) = post_revoke_token W t"
| "manage_action W (SetNetwork r n) = post_set_network W r n"
| "manage_action W (SetEnabled r b) = post_set_enabled W r b"
| "manage_action W (DeleteRepo r) = post_delete_repo W r"
| "manage_action W (DestroyVm v) = post_destroy_vm W v"
| "manage_action W CleanupFailed = post_cleanup_failed W"
| "manage_action W (JoinNetwork n) = post_join_network W n"

definition handle_manage :: "web_env \<Rightarrow> manage \<Rightarrow> headers \<Rightarrow> web_state \<Rightarrow> web_reply \<times> web_state" where
  "handle_manage W m h w = managed W h (manage_action W m) w"

section \<open>What a refusal leaves\<close>

definition is_manager :: "app_config \<Rightarrow> headers \<Rightarrow> db \<Rightarrow> bool" where
  "is_manager A h d \<longleftrightarrow>
     (case origin_of h of None \<Rightarrow> True | Some o' \<Rightarrow> trim_end_char (CHR ''/'') o' = ap_public_url A)
     \<and> (case from_headers h of
          None \<Rightarrow> ap_admin_emails A = []
        | Some who \<Rightarrow> to_ascii_lowercase (id_email who) \<in> set (ap_admin_emails A)
            \<or> (case find (\<lambda>u. us_subject u = id_subject who) (db_users d) of Some u \<Rightarrow> us_role u = ''admin'' | None \<Rightarrow> False))"

lemma upsert_user_admin:
  "fst (upsert_user now subject email name admins d) = ''admin'' \<longleftrightarrow>
     to_ascii_lowercase email \<in> set admins
     \<or> (case find (\<lambda>u. us_subject u = subject) (db_users d) of Some u \<Rightarrow> us_role u = ''admin'' | None \<Rightarrow> False)"
  by (auto simp: upsert_user_def Let_def split: option.splits)

lemma upsert_user_users: "snd (upsert_user now subject email name admins d) = d\<lparr>db_users := db_users (snd (upsert_user now subject email name admins d))\<rparr>"
  by (auto simp: upsert_user_def Let_def split: option.splits)

lemma may_manage_spec:
  "case may_manage A now h d of
     (Ok who, d') \<Rightarrow> is_manager A h d \<and> who = from_headers h \<and> d' = d\<lparr>db_users := db_users d'\<rparr>
   | (Err r, d') \<Rightarrow> \<not> is_manager A h d \<and> (\<exists>c. r = WebRefused c) \<and> d' = d\<lparr>db_users := db_users d'\<rparr>"
proof (cases "from_headers h")
  case None
  then show ?thesis by (auto simp: may_manage_def is_manager_def check_origin_def split: option.splits)
next
  case (Some who)
  let ?u = "upsert_user now (id_subject who) (id_email who) (id_name who) (ap_admin_emails A) d"
  have "?u = (fst ?u, snd ?u)" by simp
  with Some upsert_user_users [of now "id_subject who" "id_email who" "id_name who" "ap_admin_emails A" d]
    upsert_user_admin [of now "id_subject who" "id_email who" "id_name who" "ap_admin_emails A" d]
  show ?thesis
    by (auto simp: may_manage_def is_manager_def check_origin_def split: option.splits prod.splits)
qed

text \<open>An action that runs is answered with a page or a redirect.\<close>

lemma manage_action_reply: "fst (manage_action W m who w) \<noteq> WebRefused c"
  by (cases m) (auto simp: post_cancel_run_def post_register_repo_def post_create_token_def post_revoke_token_def
      post_set_network_def post_set_enabled_def post_delete_repo_def post_destroy_vm_def post_cleanup_failed_def
      post_join_network_def render_repos_def render_vms_def render_networks_def Let_def
      split: option.splits result.splits prod.splits bool.splits)

section \<open>Properties\<close>


definition sample_web :: web_env where
  "sample_web = \<lparr>we_app = sample_app\<lparr>ap_admin_emails := [''a@x'']\<rparr>, we_host = sample_host, we_quote = (\<lambda>s. s),
     we_show_store = (\<lambda>_. []), we_show_runner = (\<lambda>_. []), we_new_id = ''k2'', we_secret = ''zz'', we_stream_key = ''key'',
     we_read_log = (\<lambda>_. None), we_depth = (\<lambda>_. Err []), we_depth_late = False, we_cloud = Ok (),
     we_post = (\<lambda>_ _. Err []), we_show_status = nat_str,
     we_control = \<lparr>cp_networks = Err [], cp_daemons = Err [], cp_members = (\<lambda>_. Ok [])\<rparr>\<rparr>"

definition sample_web_state :: web_state where
  "sample_web_state = \<lparr>wb_world = on_sys (\<lambda>s. s\<lparr>sy_db := demo_tokens_db\<rparr>) sample_world, wb_pool = sample_runners []\<rparr>"


text \<open>A token minted on the repositories page works: the text that the page shows once is accepted by the
  submit endpoint as a credential of that repository, as long as the repository is not paused. The
  page stores its hash only under the repository it was minted for.\<close>

theorem minted_on_page_submits:
  assumes "handle_manage W (CreateToken rid given) h w = (ReposPage views (FlashMinted name plain), w')"
    and "is_key_id (we_new_id W)" "is_secret (we_secret W)" "distinct (map rp_id (db_repos (web_db w)))"
    and "r \<in> set (db_repos (web_db w))" "rp_id r = rid" "rp_enabled r"
    and "bearer h' = Some plain"
  shows "name = rp_name r
    \<and> fst (authenticate_submit (we_app W) show_trigger now h' body (web_db w')) = Ok (CredRepo r)"
proof -
  have sg [simp]: "web_db (set_web_db d x) = d" for d x by (simp add: web_db_def set_web_db_def on_sys_def)
  obtain a d where mm: "may_manage (we_app W) (we_now W) h (web_db w) = (a, d)" by fastforce
  with assms(1) may_manage_spec [of "we_app W" h "web_db w" "we_now W"]
  obtain who where a: "a = Ok who" and d: "db_repos d = db_repos (web_db w)"
    by (cases a) (auto simp: handle_manage_def managed_def, metis db.select_convs(4) db.surjective db.update_convs(6))
  have act: "post_create_token W rid given who (set_web_db d w) = (ReposPage views (FlashMinted name plain), w')"
    using assms(1) mm a by (simp add: handle_manage_def managed_def)
  have repo: "get_repo rid d = Some r"
  proof (cases "get_repo rid d")
    case None
    with assms(5,6) d show ?thesis by (auto simp: get_repo_def find_None_iff)
  next
    case (Some q)
    then have "q \<in> set (db_repos d)" "rp_id q = rid" by (auto simp: get_repo_def dest: find_SomeD)
    with assms(4-6) d have "q = r" by (auto dest: distinct_map [THEN iffD1, THEN conjunct2, THEN inj_onD])
    with Some show ?thesis by simp
  qed
  from act repo obtain nm em d2 where c: "create_repo_token (ap_sha (we_app W)) (we_secret W) (we_new_id W) rid nm em d = Ok (plain, d2)"
    and "name = rp_name r" "web_db w' = d2"
    using assms(6)
    by (auto simp: post_create_token_def render_repos_def Let_def split: result.splits prod.splits)
  moreover have "fst (authenticate_repo_token (ap_sha (we_app W)) now plain d2) = Some r"
    using minted_token_authenticates [OF c assms(2,3)] assms(4-7) d by simp
  ultimately show ?thesis using assms(8)
    by (auto simp: authenticate_submit_def split: prod.splits option.splits)
qed

theorem minted_on_page_submits_witness:
  "\<exists>views name w'. handle_manage (sample_web\<lparr>we_app := sample_app\<rparr>) (CreateToken ''repo'' []) Map.empty sample_web_state
      = (ReposPage views (FlashMinted name ''cis_k2.zz''), w')
    \<and> is_ok (fst (authenticate_submit sample_app (\<lambda>_. []) 9 [''authorization'' \<mapsto> ''Bearer cis_k2.zz''] [] (web_db w')))"
proof -
  let ?W = "sample_web\<lparr>we_app := sample_app\<rparr>" and ?w = sample_web_state
  have sg [simp]: "web_db (set_web_db d x) = d" for d x by (simp add: web_db_def set_web_db_def on_sys_def)
  have db: "web_db ?w = demo_tokens_db" by (simp add: sample_web_state_def web_db_def on_sys_def)
  have "from_headers Map.empty = None" "origin_of Map.empty = None"
    by (simp_all add: from_headers_def identity_header_def header_str_def origin_of_def)
  then have mm: "may_manage sample_app n Map.empty d = (Ok None, d)" for n d
    by (simp add: may_manage_def check_origin_def sample_app_def)
  have "handle_manage ?W (CreateToken ''repo'' []) Map.empty ?w = post_create_token ?W ''repo'' [] None (set_web_db demo_tokens_db ?w)"
    by (simp add: handle_manage_def managed_def mm db)
  then have "\<exists>views name w'. handle_manage ?W (CreateToken ''repo'' []) Map.empty ?w = (ReposPage views (FlashMinted name ''cis_k2.zz''), w')"
    by (simp add: post_create_token_def get_repo_def demo_tokens_db_def
        create_repo_token_def mint_def TOKEN_PREFIX_def sample_web_def sample_app_def render_repos_def Let_def)
  then obtain views name w' where r: "handle_manage ?W (CreateToken ''repo'' []) Map.empty ?w
      = (ReposPage views (FlashMinted name ''cis_k2.zz''), w')" by blast
  let ?r = "hd (db_repos demo_tokens_db)"
  have k: "is_key_id (we_new_id ?W)" "is_secret (we_secret ?W)" unfolding sample_web_def by (simp, code_simp)+
  have b: "bearer [''authorization'' \<mapsto> ''Bearer cis_k2.zz''] = Some ''cis_k2.zz''" by code_simp
  have "distinct (map rp_id (db_repos (web_db ?w)))" "?r \<in> set (db_repos (web_db ?w))" "rp_id ?r = ''repo''" "rp_enabled ?r"
    by (simp_all add: db demo_tokens_db_def)
  from minted_on_page_submits [OF r k this b, of "\<lambda>_. []" 9 "[]"] r show ?thesis by auto
qed

section \<open>What forms store\<close>

text \<open>A form never assigns a repository to a network that this instance does not serve, and always by the
  network's own name.\<close>

definition network_known :: "runner_pool \<Rightarrow> repo_row \<Rightarrow> bool" where
  "network_known pool r \<longleftrightarrow>
     (case rp_network r of None \<Rightarrow> True | Some n \<Rightarrow> n \<in> (\<lambda>m. trim (ns_network_name m)) ` set (served pool))"

lemma find_network_served: "find_network pool n = Some m \<Longrightarrow> ns_served m \<Longrightarrow> m \<in> set (served pool)"
  by (auto simp: find_network_def served_def dest: find_SomeD)

lemma set_network_known:
  assumes "list_all (network_known (wb_pool w)) (db_repos (web_db w))"
  shows "list_all (network_known (wb_pool w)) (db_repos (web_db (snd (post_set_network W rid network who w))))"
proof -
  have [simp]: "web_db (set_web_db d x) = d" for d x by (simp add: web_db_def set_web_db_def on_sys_def)
  have assign: "list_all (network_known (wb_pool w)) (db_repos (snd (set_repo_network rid c (web_db w))))"
    if "case c of None \<Rightarrow> True | Some n \<Rightarrow> n \<in> ns_network_name ` set (served (wb_pool w))" for c
    using that assms by (auto simp: set_repo_network_def Let_def list_all_iff update_rows_def network_known_def
        split: option.splits)
  show ?thesis
  proof (cases "trim network = []")
    case True
    with assign [of None] show ?thesis
      by (auto simp: post_set_network_def Let_def render_repos_def split: prod.splits bool.splits)
  next
    case False
    show ?thesis
    proof (cases "find_network (wb_pool w) (trim network)")
      case None
      with False assms show ?thesis by (simp add: post_set_network_def Let_def render_repos_def)
    next
      case (Some m)
      with find_network_served [OF Some] False assms assign [of "Some (ns_network_name m)"] show ?thesis
        by (auto simp: post_set_network_def Let_def render_repos_def split: prod.splits bool.splits)
    qed
  qed
qed

text \<open>The workflows page shows each workflow once, with its first run in the list, the newest.\<close>

lemma newest_per_workflow_keys:
  "distinct (map fst seen) \<Longrightarrow> distinct (map fst (newest_per_workflow rs seen))
     \<and> fst ` set (newest_per_workflow rs seen) = fst ` set seen \<union> rn_workflow_id ` set rs"
proof (induction rs arbitrary: seen)
  case (Cons r rs)
  show ?case
  proof (cases "list_ex (\<lambda>(i, _). i = rn_workflow_id r) seen")
    case True
    then have "rn_workflow_id r \<in> fst ` set seen" by (force simp: list_ex_iff)
    with True Cons show ?thesis by auto
  next
    case False
    then have "rn_workflow_id r \<notin> fst ` set seen" by (force simp: list_ex_iff)
    with False Cons.prems Cons.IH [of "seen @ [(rn_workflow_id r, r)]"] show ?thesis by auto
  qed
qed simp

lemma newest_per_workflow_first:
  "map_of (newest_per_workflow rs seen) i =
     (case map_of seen i of Some r \<Rightarrow> Some r | None \<Rightarrow> find (\<lambda>r. rn_workflow_id r = i) rs)"
proof (induction rs arbitrary: seen)
  case (Cons r rs)
  show ?case
  proof (cases "list_ex (\<lambda>(k, _). k = rn_workflow_id r) seen")
    case True
    then have "rn_workflow_id r \<in> fst ` set seen" by (force simp: list_ex_iff)
    then have "map_of seen (rn_workflow_id r) \<noteq> None" by (simp add: map_of_eq_None_iff)
    with True Cons show ?thesis by (auto split: option.splits)
  next
    case False
    then have "rn_workflow_id r \<notin> fst ` set seen" by (force simp: list_ex_iff)
    then have "map_of seen (rn_workflow_id r) = None" by (simp add: map_of_eq_None_iff)
    with False Cons show ?thesis by (auto simp: map_add_def split: option.splits)
  qed
qed (simp split: option.split)

end
