(* ===== verification/NatsAuth.thy ===== *)
theory NatsAuth
  imports Trigger
begin

text \<open>
  The endpoint of the message queue and the credential for it (\<^verbatim>\<open>nats_auth.rs\<close>): the credential of the
  environment variables, the userinfo of a server address and its percent-encoding, the resolution
  of the two into one endpoint, and the options a connection is opened with. Texts are UTF-8 byte
  sequences here, since a decoded password is checked to be one. Reading a credentials file, the
  client library's check of its contents and its reading of an address are arguments. The main
  results: what an endpoint holds as a server has no userinfo, and a URL written with a credential
  is resolved to exactly that credential and the bare servers. An unescaped slash in a password, and
  an address without scheme or host, defeat the first intention; lemmas show how.
\<close>

section \<open>Credentials\<close>

datatype nats_credential =
  CredNone
| CredToken string
| CredUserPassword (cred_user: string) (cred_password: string)
| CredCreds string
| CredNKeySeed string

fun cred_kind :: "nats_credential \<Rightarrow> string" where
  "cred_kind CredNone = ''none''"
| "cred_kind (CredToken _) = ''token''"
| "cred_kind (CredUserPassword _ _) = ''user/password''"
| "cred_kind (CredCreds _) = ''creds file''"
| "cred_kind (CredNKeySeed _) = ''nkey seed''"

definition cred_is_none :: "nats_credential \<Rightarrow> bool" where
  "cred_is_none c = (case c of CredNone \<Rightarrow> True | _ \<Rightarrow> False)"

datatype nats_auth_error =
  EmptyUrl
| EmptyServer
| MalformedServer string
| ConflictingCredentials string string
| UserWithoutPassword
| PasswordWithoutUser
| CredsFileUnreadable string string
| InvalidCreds string

record env_credentials =
  ec_user :: "string option"
  ec_password :: "string option"
  ec_token :: "string option"
  ec_creds_file :: "string option"
  ec_nkey_seed :: "string option"

definition no_env_credentials :: env_credentials where
  "no_env_credentials =
     \<lparr>ec_user = None, ec_password = None, ec_token = None, ec_creds_file = None, ec_nkey_seed = None\<rparr>"

definition env_is_empty :: "env_credentials \<Rightarrow> bool" where
  "env_is_empty e \<longleftrightarrow>
     ec_user e = None \<and> ec_password e = None \<and> ec_token e = None \<and> ec_creds_file e = None \<and> ec_nkey_seed e = None"

fun claim_credential ::
    "nats_credential option \<Rightarrow> nats_credential \<Rightarrow> (nats_auth_error, nats_credential option) result" where
  "claim_credential (Some existing) c = Err (ConflictingCredentials (cred_kind existing) (cred_kind c))"
| "claim_credential None c = Ok (Some c)"

definition env_resolve ::
    "(string \<Rightarrow> (string, string) result) \<Rightarrow> env_credentials \<Rightarrow> (nats_auth_error, nats_credential) result" where
  "env_resolve read_file e =
     (if env_is_empty e then Ok CredNone
      else
        and_then
          (case ec_creds_file e of
             None \<Rightarrow> Ok None
           | Some path \<Rightarrow>
               (case read_file path of
                  Err reason \<Rightarrow> Err (CredsFileUnreadable path reason)
                | Ok contents \<Rightarrow> claim_credential None (CredCreds contents)))
          (\<lambda>found1. and_then
             (case ec_nkey_seed e of
                None \<Rightarrow> Ok found1
              | Some seed \<Rightarrow> claim_credential found1 (CredNKeySeed seed))
             (\<lambda>found2. and_then
                (case (ec_user e, ec_password e) of
                   (Some user, Some password) \<Rightarrow> claim_credential found2 (CredUserPassword user password)
                 | (Some _, None) \<Rightarrow> Err UserWithoutPassword
                 | (None, Some _) \<Rightarrow> Err PasswordWithoutUser
                 | (None, None) \<Rightarrow> Ok found2)
                (\<lambda>found3. and_then
                   (case ec_token e of
                      None \<Rightarrow> Ok found3
                    | Some token \<Rightarrow> claim_credential found3 (CredToken token))
                   (\<lambda>found. Ok (case found of None \<Rightarrow> CredNone | Some c \<Rightarrow> c))))))"

section \<open>Server addresses\<close>

text \<open>\<^verbatim>\<open>String::from_utf8\<close> accepts the well-formed sequences: no overlong forms, no surrogates, nothing
  above U+10FFFF.\<close>

definition byte_in :: "nat \<Rightarrow> nat \<Rightarrow> char \<Rightarrow> bool" where
  "byte_in lo hi c \<longleftrightarrow> lo \<le> of_char c \<and> of_char c \<le> hi"

fun utf8_valid :: "string \<Rightarrow> bool" where
  "utf8_valid [] = True"
| "utf8_valid (a # s) =
     (let b = of_char a in
      if b < (0x80::nat) then utf8_valid s
      else if b < 0xC2 then False
      else if b < 0xE0 then (case s of x # t \<Rightarrow> byte_in 0x80 0xBF x \<and> utf8_valid t | _ \<Rightarrow> False)
      else if b < 0xF0 then
        (case s of
           x # y # t \<Rightarrow>
             byte_in (if b = 0xE0 then 0xA0 else 0x80) (if b = 0xED then 0x9F else 0xBF) x
             \<and> byte_in 0x80 0xBF y \<and> utf8_valid t
         | _ \<Rightarrow> False)
      else if b < 0xF5 then
        (case s of
           x # y # z # t \<Rightarrow>
             byte_in (if b = 0xF0 then 0x90 else 0x80) (if b = 0xF4 then 0x8F else 0xBF) x
             \<and> byte_in 0x80 0xBF y \<and> byte_in 0x80 0xBF z \<and> utf8_valid t
         | _ \<Rightarrow> False)
      else False)"

fun percent_bytes :: "string \<Rightarrow> string" where
  "percent_bytes [] = []"
| "percent_bytes (c # cs) =
     (if c = CHR ''%'' then
        (case cs of
           h # l # rest \<Rightarrow>
             (case (hex_val h, hex_val l) of
                (Some hi, Some lo) \<Rightarrow> char_of (hi * 16 + lo) # percent_bytes rest
              | _ \<Rightarrow> c # percent_bytes cs)
         | _ \<Rightarrow> c # percent_bytes cs)
      else c # percent_bytes cs)"

definition percent_decode :: "string \<Rightarrow> string" where
  "percent_decode s =
     (if CHR ''%'' \<notin> set s then s
      else (let out = percent_bytes s in if utf8_valid out then out else s))"

definition split_userinfo :: "string \<Rightarrow> (nats_auth_error, string \<times> nats_credential) result" where
  "split_userinfo entry =
     (case find_sub ''://'' entry of
        None \<Rightarrow> if CHR ''@'' \<in> set entry then Err (MalformedServer entry) else Ok (entry, CredNone)
      | Some scheme_end \<Rightarrow>
          (let after_scheme = scheme_end + 3;
               rest = drop after_scheme entry;
               authority_end = (case find_sub ''/'' rest of Some i \<Rightarrow> i | None \<Rightarrow> length rest);
               authority = take authority_end rest in
           (case rfind_sub ''@'' authority of
              None \<Rightarrow> Ok (entry, CredNone)
            | Some at \<Rightarrow>
                (let userinfo = take at authority; host = drop (at + 1) authority in
                 if host = [] then Err (MalformedServer entry)
                 else
                   Ok (take after_scheme entry @ host @ drop authority_end rest,
                       (case split_once (CHR '':'') userinfo of
                          Some (user, password) \<Rightarrow> CredUserPassword (percent_decode user) (percent_decode password)
                        | None \<Rightarrow> if userinfo = [] then CredNone else CredToken (percent_decode userinfo)))))))"

section \<open>Endpoints\<close>

record nats_endpoint =
  ne_servers :: "string list"
  ne_credential :: nats_credential
  ne_credential_from_url :: bool

fun resolve_servers ::
    "string list \<Rightarrow> nats_credential \<Rightarrow> (nats_auth_error, string list \<times> nats_credential) result" where
  "resolve_servers [] found = Ok ([], found)"
| "resolve_servers (raw # raws) found =
     (let entry = trim raw in
      if entry = [] then Err EmptyServer
      else
        and_then (split_userinfo entry) (\<lambda>(clean, credential).
          and_then (resolve_servers raws (if cred_is_none found then credential else found)) (\<lambda>(servers, c).
            Ok (clean # servers, c))))"

definition nats_resolve ::
    "(string \<Rightarrow> (string, string) result) \<Rightarrow> string \<Rightarrow> env_credentials \<Rightarrow> (nats_auth_error, nats_endpoint) result" where
  "nats_resolve read_file url env =
     (let trimmed = trim url in
      if trimmed = [] then Err EmptyUrl
      else
        and_then (resolve_servers (split_on (CHR '','') trimmed) CredNone) (\<lambda>(servers, url_credential).
          and_then (env_resolve read_file env) (\<lambda>env_credential.
            Ok \<lparr>ne_servers = servers,
                ne_credential = (if cred_is_none env_credential then url_credential else env_credential),
                ne_credential_from_url = (cred_is_none env_credential \<and> \<not> cred_is_none url_credential)\<rparr>)))"

definition redacted :: "nats_endpoint \<Rightarrow> string" where
  "redacted ep = join '','' (ne_servers ep)"

text \<open>The options of the client library, as far as they are set: the name and at most one credential.\<close>

record connect_options =
  co_name :: string
  co_auth :: nats_credential

definition connect_options_of ::
    "(string \<Rightarrow> (string, unit) result) \<Rightarrow> (string \<Rightarrow> (string, 'addr) result) \<Rightarrow> string \<Rightarrow> nats_endpoint
     \<Rightarrow> (nats_auth_error, connect_options \<times> 'addr list) result" where
  "connect_options_of check_creds parse_addr name ep =
     and_then
       (case ne_credential ep of
          CredCreds contents \<Rightarrow> map_err InvalidCreds (check_creds contents)
        | _ \<Rightarrow> Ok ())
       (\<lambda>_. and_then (map_err MalformedServer (map_result parse_addr (ne_servers ep))) (\<lambda>addrs.
          Ok (\<lparr>co_name = name, co_auth = ne_credential ep\<rparr>, addrs)))"

section \<open>Percent-encoding\<close>

text \<open>How a secret is written into a URL: everything but letters, digits, dash and underscore is escaped.\<close>

definition percent_encode :: "string \<Rightarrow> string" where
  "percent_encode s = concat (map (\<lambda>c. if is_token_char c then [c] else CHR ''%'' # hex_encode [c]) s)"

lemma percent_bytes_escape: "percent_bytes (CHR ''%'' # hex_encode [c] @ s) = c # percent_bytes s"
proof -
  have "(of_char c :: nat) div 16 < 16" by (intro less_mult_imp_div_less) simp
  then show ?thesis by (simp add: hex_encode_def hex_padded_byte hex_val_digit)
qed

lemma percent_bytes_encode: "percent_bytes (percent_encode s) = s"
proof (induction s)
  case (Cons c s)
  have "c \<noteq> CHR ''%''" if "is_token_char c"
    using that by (auto simp: is_token_char_def is_ascii_alphanumeric_def is_ascii_digit_def
        is_ascii_lower_def is_ascii_upper_def less_eq_char_def)
  with Cons show ?case
    using percent_bytes_escape [of c "percent_encode s"] by (auto simp: percent_encode_def)
qed (simp add: percent_encode_def)

lemma percent_bytes_id: "CHR ''%'' \<notin> set s \<Longrightarrow> percent_bytes s = s"
  by (induction s) auto

lemma percent_decode_encode: "utf8_valid s \<Longrightarrow> percent_decode (percent_encode s) = s"
  using percent_bytes_encode [of s] percent_bytes_id [of "percent_encode s"] by (auto simp: percent_decode_def)

lemma percent_encode_chars:
  assumes "c \<in> set (percent_encode s)"
  shows "c = CHR ''%'' \<or> is_token_char c"
proof -
  have dig: "is_token_char (hex_digit d)" if "d < 16" for d
  proof -
    have "\<forall>d \<in> set [0,1,2,3,4,5,6,7,8,9,10,11,12,13,14,15]. is_token_char (hex_digit d)" by code_simp
    moreover from that have "d \<in> set [0,1,2,3,4,5,6,7,8,9,10,11,12,13,14,15]" by (simp, arith)
    ultimately show ?thesis by blast
  qed
  have half: "(of_char b :: nat) div 16 < 16" for b by (intro less_mult_imp_div_less) simp
  from assms show ?thesis
    by (auto simp: percent_encode_def hex_encode_def hex_padded_byte dig half split: if_splits)
qed

lemma percent_encode_plain:
  "CHR '':'' \<notin> set (percent_encode s)" "CHR ''/'' \<notin> set (percent_encode s)"
  "CHR '','' \<notin> set (percent_encode s)" "c \<in> set (percent_encode s) \<Longrightarrow> \<not> is_whitespace c"
  using percent_encode_chars [of _ s] is_token_char_not_whitespace
  by (force simp: is_token_char_noteq is_whitespace_def is_token_char_def is_ascii_alphanumeric_def is_ascii_digit_def
        is_ascii_lower_def is_ascii_upper_def less_eq_char_def)+

lemma percent_encode_Nil [simp]: "percent_encode s = [] \<longleftrightarrow> s = []"
  by (cases s) (auto simp: percent_encode_def)

section \<open>What is taken out of an address\<close>

lemma find_sub_char:
  "find_sub [d] s = (if d \<in> set s then Some (length (takeWhile (\<lambda>c. c \<noteq> d) s)) else None)"
  by (induction s) auto

lemma rfind_sub_char_None: "rfind_sub [d] s = None \<longleftrightarrow> d \<notin> set s"
  by (simp add: rfind_sub_def find_sub_char)

lemma rfind_sub_char: "d \<notin> set b \<Longrightarrow> rfind_sub [d] (a @ d # b) = Some (length a)"
proof -
  assume "d \<notin> set b"
  then have "takeWhile (\<lambda>c. c \<noteq> d) (rev b @ d # rev a) = rev b" by (subst takeWhile_append2) auto
  then show ?thesis by (simp add: rfind_sub_def find_sub_char)
qed

lemma find_scheme: "CHR '':'' \<notin> set scheme \<Longrightarrow> find_sub ''://'' (scheme @ ''://'' @ r) = Some (length scheme)"
  by (induction scheme) auto

lemma while_until:
  assumes "d \<notin> set a" "b = [] \<or> hd b = d"
  shows "takeWhile (\<lambda>x. x \<noteq> d) (a @ b) = a" "dropWhile (\<lambda>x. x \<noteq> d) (a @ b) = b"
  using assms by (induction a; cases b; auto)+

lemma find_sub_length: "find_sub p s = Some i \<Longrightarrow> i + length p \<le> length s"
  by (induction s arbitrary: i) (auto split: if_splits dest: prefix_length_le)

lemma find_sub_keeps:
  "find_sub p s = Some i \<Longrightarrow> find_sub p (take (i + length p) s @ t) = Some i"
proof (induction s arbitrary: i)
  case (Cons c cs)
  show ?case
  proof (cases "prefix p (c # cs)")
    case True
    with Cons.prems have "take (i + length p) (c # cs) = p" "i = 0" by (auto simp: prefix_def)
    then show ?thesis by (cases "p @ t") (auto, metis prefixI)
  next
    case False
    with Cons.prems obtain j where j: "find_sub p cs = Some j" "i = Suc j" by auto
    have "\<not> prefix p (take (i + length p) (c # cs) @ t)"
    proof
      assume "prefix p (take (i + length p) (c # cs) @ t)"
      then obtain zs where zs: "take (i + length p) (c # cs) @ t = p @ zs" by (auto simp: prefix_def)
      have "i + length p \<le> length (c # cs)" using find_sub_length [OF Cons.prems] .
      moreover have "take (length p) (take (i + length p) (c # cs) @ t) = p" unfolding zs by simp
      ultimately have "take (length p) (c # cs) = p" by simp
      then have "prefix p (c # cs)" by (metis take_is_prefix)
      with False show False by blast
    qed
    with Cons.IH [OF j(1)] j(2) show ?thesis by simp
  qed
qed (cases t; simp split: if_splits)

text \<open>The authority of an address: what stands between the scheme and the path.\<close>

definition authority_of :: "string \<Rightarrow> string" where
  "authority_of s =
     (case find_sub ''://'' s of None \<Rightarrow> s | Some i \<Rightarrow> takeWhile (\<lambda>c. c \<noteq> CHR ''/'') (drop (i + 3) s))"

lemma authority_take:
  "take (case find_sub ''/'' rest of Some i \<Rightarrow> i | None \<Rightarrow> length rest) rest = takeWhile (\<lambda>c. c \<noteq> CHR ''/'') rest"
  by (induction rest) (auto simp: find_sub_char split: if_splits)

lemma authority_drop:
  "drop (case find_sub ''/'' rest of Some i \<Rightarrow> i | None \<Rightarrow> length rest) rest = dropWhile (\<lambda>c. c \<noteq> CHR ''/'') rest"
  by (induction rest) (auto simp: find_sub_char split: if_splits)

lemma split_userinfo_eq:
  "split_userinfo entry =
     (case find_sub ''://'' entry of
        None \<Rightarrow> if CHR ''@'' \<in> set entry then Err (MalformedServer entry) else Ok (entry, CredNone)
      | Some i \<Rightarrow>
          (let authority = authority_of entry; path = dropWhile (\<lambda>c. c \<noteq> CHR ''/'') (drop (i + 3) entry) in
           (case rfind_sub ''@'' authority of
              None \<Rightarrow> Ok (entry, CredNone)
            | Some at \<Rightarrow>
                (let userinfo = take at authority; host = drop (at + 1) authority in
                 if host = [] then Err (MalformedServer entry)
                 else
                   Ok (take (i + 3) entry @ host @ path,
                       (case split_once (CHR '':'') userinfo of
                          Some (user, password) \<Rightarrow> CredUserPassword (percent_decode user) (percent_decode password)
                        | None \<Rightarrow> if userinfo = [] then CredNone else CredToken (percent_decode userinfo)))))))"
  unfolding split_userinfo_def authority_of_def Let_def authority_take authority_drop
  by (simp split: option.split)

text \<open>Cutting the authority at its last \<^verbatim>\<open>@\<close> leaves none behind.\<close>

lemma rfind_sub_char_Some:
  assumes "rfind_sub [d] s = Some i"
  shows "s = take i s @ d # drop (i + 1) s" "d \<notin> set (drop (i + 1) s)"
proof -
  from assms have "d \<in> set s" by (metis option.distinct(1) rfind_sub_char_None)
  then obtain a b where s: "s = a @ d # b" "d \<notin> set b" by (metis split_list_last)
  with assms have "i = length a" by (simp add: rfind_sub_char)
  with s show "s = take i s @ d # drop (i + 1) s" "d \<notin> set (drop (i + 1) s)" by simp_all
qed

lemma authority_of_rebuilt:
  assumes "find_sub ''://'' entry = Some i" "CHR ''/'' \<notin> set host"
    "path = [] \<or> hd path = CHR ''/''"
  shows "authority_of (take (i + 3) entry @ host @ path) = host"
proof -
  have len: "length (take (i + 3) entry) = i + 3" using find_sub_length [OF assms(1)] by simp
  have "takeWhile (\<lambda>c. c \<noteq> CHR ''/'') (host @ path) = host"
    by (rule while_until(1) [OF assms(2,3)])
  moreover have "find_sub ''://'' (take (i + 3) entry @ host @ path) = Some i"
    using find_sub_keeps [OF assms(1), of "host @ path"] by (simp add: numeral_3_eq_3)
  moreover have "drop (i + 3) (take (i + 3) entry @ host @ path) = host @ path"
    unfolding drop_append len by (simp add: len)
  ultimately show ?thesis unfolding authority_of_def by simp
qed

lemma split_userinfo_sanitized:
  assumes "split_userinfo entry = Ok (clean, c)"
  shows "CHR ''@'' \<notin> set (authority_of clean)"
proof (cases "find_sub ''://'' entry")
  case None
  with assms show ?thesis by (auto simp: split_userinfo_eq authority_of_def split: if_splits)
next
  case (Some i)
  let ?a = "authority_of entry"
  show ?thesis
  proof (cases "rfind_sub ''@'' ?a")
    case None
    with Some assms show ?thesis by (auto simp: split_userinfo_eq Let_def rfind_sub_char_None)
  next
    case (Some at)
    let ?path = "dropWhile (\<lambda>c. c \<noteq> CHR ''/'') (drop (i + 3) entry)"
    have clean: "clean = take (i + 3) entry @ drop (at + 1) ?a @ ?path"
      using assms Some \<open>find_sub ''://'' entry = Some i\<close> by (auto simp: split_userinfo_eq Let_def split: if_splits)
    have "CHR ''/'' \<notin> set (drop (at + 1) ?a)"
      using \<open>find_sub ''://'' entry = Some i\<close>
      by (auto simp: authority_of_def dest!: in_set_dropD set_takeWhileD)
    moreover have "?path = [] \<or> hd ?path = CHR ''/''"
      using hd_dropWhile [of "\<lambda>c. c \<noteq> CHR ''/''" "drop (i + 3) entry"] by blast
    ultimately have "authority_of clean = drop (at + 1) ?a"
      unfolding clean by (intro authority_of_rebuilt) (simp_all add: \<open>find_sub ''://'' entry = Some i\<close>)
    with rfind_sub_char_Some(2) [OF Some] show ?thesis by simp
  qed
qed

text \<open>The servers depend on the URL alone.\<close>

lemma nats_resolve_servers:
  assumes "nats_resolve r url env = Ok ep"
  obtains k where "resolve_servers (split_on (CHR '','') (trim url)) CredNone = Ok (ne_servers ep, k)"
  using assms by (auto simp: nats_resolve_def Let_def split: if_splits prod.splits)

lemma resolve_servers_sanitized:
  "resolve_servers raws found = Ok (servers, c) \<Longrightarrow> s \<in> set servers \<Longrightarrow> CHR ''@'' \<notin> set (authority_of s)"
  by (induction raws arbitrary: found servers c)
    (auto simp: Let_def split: if_splits prod.splits dest!: split_userinfo_sanitized)

section \<open>Writing a URL with a credential\<close>

text \<open>A server as its scheme, its host with the port, and its path; the address with and without the
  userinfo of a credential.\<close>

type_synonym server = "string \<times> string \<times> string"

definition server_ok :: "server \<Rightarrow> bool" where
  "server_ok = (\<lambda>(scheme, host, path).
     CHR '':'' \<notin> set scheme \<and> host \<noteq> [] \<and> CHR ''@'' \<notin> set host \<and> CHR ''/'' \<notin> set host
     \<and> (path = [] \<or> hd path = CHR ''/'')
     \<and> list_all (\<lambda>c. c \<noteq> CHR '','' \<and> \<not> is_whitespace c) (scheme @ host @ path))"

fun userinfo_of :: "nats_credential \<Rightarrow> string" where
  "userinfo_of (CredToken t) = percent_encode t"
| "userinfo_of (CredUserPassword u p) = percent_encode u @ '':'' @ percent_encode p"
| "userinfo_of _ = []"

fun url_credential :: "nats_credential \<Rightarrow> bool" where
  "url_credential (CredToken t) \<longleftrightarrow> t \<noteq> [] \<and> utf8_valid t"
| "url_credential (CredUserPassword u p) \<longleftrightarrow> utf8_valid u \<and> utf8_valid p"
| "url_credential _ \<longleftrightarrow> False"

definition bare_server :: "server \<Rightarrow> string" where
  "bare_server = (\<lambda>(scheme, host, path). scheme @ ''://'' @ host @ path)"

definition written_server :: "nats_credential \<Rightarrow> server \<Rightarrow> string" where
  "written_server c = (\<lambda>(scheme, host, path). scheme @ ''://'' @ userinfo_of c @ ''@'' @ host @ path)"

lemma url_credential_some: "url_credential c \<Longrightarrow> \<not> cred_is_none c"
  by (cases c) (auto simp: cred_is_none_def)

lemma userinfo_decoded:
  "url_credential c \<Longrightarrow>
     (case split_once (CHR '':'') (userinfo_of c) of
        Some (user, password) \<Rightarrow> CredUserPassword (percent_decode user) (percent_decode password)
      | None \<Rightarrow> if userinfo_of c = [] then CredNone else CredToken (percent_decode (userinfo_of c))) = c"
  by (cases c) (simp_all add: percent_decode_encode percent_encode_plain split_once_append
      split_once_None [THEN iffD2])

lemma userinfo_plain: "x \<in> set (userinfo_of c) \<Longrightarrow> x \<noteq> CHR ''/'' \<and> x \<noteq> CHR '','' \<and> \<not> is_whitespace x"
proof -
  have "\<not> is_whitespace (CHR '':'')" by (simp add: is_whitespace_def)
  moreover assume "x \<in> set (userinfo_of c)"
  ultimately show ?thesis using percent_encode_plain by (cases c) auto
qed

lemma split_userinfo_written:
  assumes "server_ok sv" "url_credential c"
  shows "split_userinfo (written_server c sv) = Ok (bare_server sv, c)"
proof -
  obtain scheme host path where sv: "sv = (scheme, host, path)" by (cases sv) auto
  let ?e = "written_server c sv"
  have ok: "CHR '':'' \<notin> set scheme" "host \<noteq> []" "CHR ''@'' \<notin> set host" "CHR ''/'' \<notin> set host"
    "path = [] \<or> hd path = CHR ''/''"
    using assms(1) by (auto simp: server_ok_def sv)
  have e: "?e = scheme @ ''://'' @ userinfo_of c @ ''@'' @ host @ path" by (simp add: written_server_def sv)
  have find: "find_sub ''://'' ?e = Some (length scheme)" using find_scheme [OF ok(1)] by (simp add: e)
  have rest: "drop (length scheme + 3) ?e = (userinfo_of c @ ''@'' @ host) @ path" by (simp add: e)
  have pre: "take (length scheme + 3) ?e = scheme @ ''://''" by (simp add: e)
  have "CHR ''/'' \<notin> set (userinfo_of c @ ''@'' @ host)" using ok(4) userinfo_plain by auto
  note w = while_until [OF this ok(5)]
  have a: "authority_of ?e = userinfo_of c @ ''@'' @ host"
    unfolding authority_of_def find option.case rest by (rule w(1))
  have r: "rfind_sub ''@'' (userinfo_of c @ ''@'' @ host) = Some (length (userinfo_of c))"
    using rfind_sub_char [OF ok(3), of "userinfo_of c"] by simp
  have t: "take (length (userinfo_of c)) (userinfo_of c @ ''@'' @ host) = userinfo_of c"
    "drop (length (userinfo_of c) + 1) (userinfo_of c @ ''@'' @ host) = host" by simp_all
  show ?thesis
    unfolding split_userinfo_eq find option.case Let_def a r rest w(2) pre t userinfo_decoded [OF assms(2)]
    using ok(2) by (simp add: bare_server_def sv)
qed

lemma set_join: "set (join [d] ws) \<subseteq> {d} \<union> \<Union> (set ` set ws)"
proof (induction ws)
  case (Cons w ws)
  then show ?case by (cases ws) auto
qed simp

lemma written_no_ws:
  assumes "server_ok sv" "x \<in> set (written_server c sv)"
  shows "\<not> is_whitespace x"
proof -
  have "\<not> is_whitespace (CHR '':'')" "\<not> is_whitespace (CHR ''/'')" "\<not> is_whitespace (CHR ''@'')"
    by (simp_all add: is_whitespace_def)
  with assms userinfo_plain [of x c] show ?thesis
    by (auto simp: server_ok_def written_server_def list_all_iff split: prod.splits)
qed

lemma written_plain:
  assumes "server_ok sv"
  shows "CHR '','' \<notin> set (written_server c sv)" "trim (written_server c sv) = written_server c sv"
    "written_server c sv \<noteq> []"
proof -
  show "CHR '','' \<notin> set (written_server c sv)"
    using assms userinfo_plain [of "CHR '',''" c] by (auto simp: server_ok_def written_server_def list_all_iff split: prod.splits)
  show "trim (written_server c sv) = written_server c sv"
    using written_no_ws [OF assms] by (intro trim_no_ws) blast
  show "written_server c sv \<noteq> []" by (auto simp: written_server_def split: prod.splits)
qed

lemma resolve_servers_written:
  assumes "url_credential c"
  shows "list_all server_ok svs \<Longrightarrow> found = CredNone \<or> found = c \<Longrightarrow>
    resolve_servers (map (written_server c) svs) found = Ok (map bare_server svs, if svs = [] then found else c)"
  using url_credential_some [OF assms]
  by (induction svs arbitrary: found)
    (auto simp: written_plain split_userinfo_written [OF _ assms] cred_is_none_def)

lemma written_url:
  assumes "list_all server_ok svs" "svs \<noteq> []"
  shows "trim (join '','' (map (written_server c) svs)) = join '','' (map (written_server c) svs)"
    "join '','' (map (written_server c) svs) \<noteq> []"
    "split_on (CHR '','') (join '','' (map (written_server c) svs)) = map (written_server c) svs"
proof -
  let ?ws = "map (written_server c) svs"
  have ok: "server_ok sv" if "sv \<in> set svs" for sv using assms(1) that by (simp add: list_all_iff)
  show "split_on (CHR '','') (join '','' ?ws) = ?ws"
    using ok assms(2) by (intro split_on_join) (auto simp: written_plain)
  have "set (join '','' ?ws) \<subseteq> {CHR '',''} \<union> \<Union> (set ` set ?ws)" by (rule set_join)
  moreover have "\<not> is_whitespace (CHR '','')" by (simp add: is_whitespace_def)
  ultimately show "trim (join '','' ?ws) = join '','' ?ws"
    using ok written_no_ws by (intro trim_no_ws) fastforce
  show "join '','' ?ws \<noteq> []" using assms(2) by (cases svs; cases "tl svs") (auto simp: ok written_plain)
qed

section \<open>The credential of the environment\<close>

definition env_claims :: "env_credentials \<Rightarrow> nat" where
  "env_claims e = length (filter id [ec_creds_file e \<noteq> None, ec_nkey_seed e \<noteq> None, ec_user e \<noteq> None, ec_token e \<noteq> None])"

lemma env_resolve_none: "env_resolve r e = Ok CredNone \<longleftrightarrow> env_is_empty e"
  by (auto simp: env_resolve_def env_is_empty_def split: option.splits result.splits)

lemma env_resolve_ok:
  "is_ok (env_resolve r e) \<longleftrightarrow>
     (ec_user e = None \<longleftrightarrow> ec_password e = None)
     \<and> (case ec_creds_file e of None \<Rightarrow> True | Some p \<Rightarrow> is_ok (r p))
     \<and> env_claims e \<le> 1"
  by (auto simp: env_resolve_def env_is_empty_def env_claims_def is_ok_iff split: option.splits result.splits)

section \<open>Properties\<close>

text \<open>No server of a resolved endpoint, which is what is logged and shown, has userinfo: the part of
  its address between the scheme and the path holds no \<^verbatim>\<open>@\<close>.\<close>

theorem servers_sanitized:
  assumes "nats_resolve read_file url env = Ok ep" "s \<in> set (ne_servers ep)"
  shows "CHR ''@'' \<notin> set (authority_of s)"
  using assms resolve_servers_sanitized
  by (auto simp: nats_resolve_def Let_def split: if_splits prod.splits)

theorem servers_sanitized_witness:
  "\<exists>ep. nats_resolve (\<lambda>_. Err []) ''nats://u:p@h:4222,b:4222'' no_env_credentials = Ok ep
     \<and> CHR ''@'' \<notin> set (authority_of (hd (ne_servers ep)))"
proof -
  let ?ep = "\<lparr>ne_servers = [''nats://h:4222'', ''b:4222''], ne_credential = CredUserPassword ''u'' ''p'',
    ne_credential_from_url = True\<rparr>"
  have "nats_resolve (\<lambda>_. Err []) ''nats://u:p@h:4222,b:4222'' no_env_credentials = Ok ?ep"
  proof -
    have "split_on (CHR '','') ''nats://u:p@h:4222,b:4222'' = [''nats://u:p@h:4222'', ''b:4222'']"
      using split_on_append [of "CHR '',''" "''nats://u:p@h:4222''" "''b:4222''"]
      by (simp add: split_on_single del: split_on.simps)
    moreover have "trim ''nats://u:p@h:4222,b:4222'' = ''nats://u:p@h:4222,b:4222''"
      "trim ''nats://u:p@h:4222'' = ''nats://u:p@h:4222''" "trim ''b:4222'' = ''b:4222''" by code_simp+
    moreover have "split_userinfo ''nats://u:p@h:4222'' = Ok (''nats://h:4222'', CredUserPassword ''u'' ''p'')"
      "split_userinfo ''b:4222'' = Ok (''b:4222'', CredNone)"
      "env_resolve (\<lambda>_. Err []) no_env_credentials = Ok CredNone" by code_simp+
    ultimately show ?thesis by (simp add: nats_resolve_def cred_is_none_def del: split_on.simps)
  qed
  from this servers_sanitized [OF this, of "''nats://h:4222''"] show ?thesis by simp
qed

text \<open>A URL that names servers, each with the same credential percent-encoded before its host, is
  resolved to the bare addresses in their order and exactly that credential, unless the environment names
  a credential, which wins.\<close>

theorem nats_url_roundtrip:
  assumes "url_credential c" "list_all server_ok svs" "svs \<noteq> []" "env_resolve read_file env = Ok e"
  shows "nats_resolve read_file (join '','' (map (written_server c) svs)) env =
    Ok \<lparr>ne_servers = map bare_server svs, ne_credential = (if cred_is_none e then c else e),
        ne_credential_from_url = cred_is_none e\<rparr>"
  using assms(4) written_url [OF assms(2,3), of c] resolve_servers_written [OF assms(1,2)]
    url_credential_some [OF assms(1)] assms(3)
  by (simp add: nats_resolve_def)

theorem nats_url_roundtrip_witness:
  "nats_resolve (\<lambda>_. Err []) ''nats://ci:p%40ss%2f@a:4222,nats://ci:p%40ss%2f@b:4222'' no_env_credentials =
    Ok \<lparr>ne_servers = [''nats://a:4222'', ''nats://b:4222''], ne_credential = CredUserPassword ''ci'' ''p@ss/'',
        ne_credential_from_url = True\<rparr>"
proof -
  let ?c = "CredUserPassword ''ci'' ''p@ss/''"
  let ?svs = "[(''nats'', ''a:4222'', []), (''nats'', ''b:4222'', [])]"
  have "url_credential ?c" "list_all server_ok ?svs"
    "env_resolve (\<lambda>_. Err []) no_env_credentials = Ok CredNone" by code_simp+
  moreover have "join '','' (map (written_server ?c) ?svs) = ''nats://ci:p%40ss%2f@a:4222,nats://ci:p%40ss%2f@b:4222''"
    "map bare_server ?svs = [''nats://a:4222'', ''nats://b:4222'']" by code_simp+
  ultimately show ?thesis
    using nats_url_roundtrip [of ?c ?svs "\<lambda>_. Err []" no_env_credentials CredNone] by (simp add: cred_is_none_def)
qed

text \<open>The environment names at most one credential: anything else is refused, a user without a password and
  a file that cannot be read included, and no variable set means no credential.\<close>

lemma env_credentials_one:
  "(env_resolve r e = Ok CredNone \<longleftrightarrow> env_is_empty e)
   \<and> (is_ok (env_resolve r e) \<longleftrightarrow>
        (ec_user e = None \<longleftrightarrow> ec_password e = None)
        \<and> (case ec_creds_file e of None \<Rightarrow> True | Some p \<Rightarrow> is_ok (r p))
        \<and> env_claims e \<le> 1)"
  by (intro conjI env_resolve_none env_resolve_ok)

text \<open>An unescaped slash ends the authority early: the address keeps its password, in what is logged too.\<close>

lemma slash_in_password_kept:
  assumes "CHR '':'' \<notin> set scheme" "CHR ''@'' \<notin> set user" "CHR ''@'' \<notin> set pw" "CHR ''/'' \<notin> set user"
    "CHR ''/'' \<notin> set pw"
  shows "split_userinfo (scheme @ ''://'' @ user @ '':'' @ pw @ ''/'' @ r) =
    Ok (scheme @ ''://'' @ user @ '':'' @ pw @ ''/'' @ r, CredNone)"
proof -
  let ?e = "scheme @ ''://'' @ user @ '':'' @ pw @ ''/'' @ r"
  have find: "find_sub ''://'' ?e = Some (length scheme)" using find_scheme [OF assms(1)] .
  have "takeWhile (\<lambda>x. x \<noteq> CHR ''/'') ((user @ '':'' @ pw) @ ''/'' @ r) = user @ '':'' @ pw"
    using assms by (intro while_until(1)) auto
  then have "authority_of ?e = user @ '':'' @ pw" by (simp add: authority_of_def find [simplified])
  with assms have "rfind_sub ''@'' (authority_of ?e) = None" by (simp add: rfind_sub_char_None)
  then show ?thesis unfolding split_userinfo_eq find Let_def by simp
qed

text \<open>An address refused as malformed is reported whole, whatever stands before its \<^verbatim>\<open>@\<close>.\<close>

lemma malformed_reports_userinfo:
  assumes "\<not> sublist ''://'' entry" "entry = user @ '':'' @ password @ ''@'' @ host"
    "trim entry = entry" "CHR '','' \<notin> set entry"
  shows "nats_resolve r entry env = Err (MalformedServer entry)"
  using assms by (auto simp: nats_resolve_def split_on_single split_userinfo_def find_sub_None [THEN iffD2])

end
