(* ===== verification/Process.thy ===== *)
theory Process
  imports Config Execution Objects
begin

text \<open>
  The process (\<^verbatim>\<open>main.rs\<close>) with what only it calls: opening and migrating the database
  (\<^verbatim>\<open>Store::connect\<close>, \<^verbatim>\<open>Store::migrate\<close>), connecting to the queue and making its streams
  (\<^verbatim>\<open>Bus::connect\<close>), the start-up sequence up to the bound listener, and one pass of the log sweeper.
  The answers of the database and of the queue, the directory of migrations and the removal of a
  directory are arguments. A time is a number of seconds. The main results: a migration that reports
  success executed every file in order and holds no lock; every subject a job is published on belongs to the
  stream made for it; a refused start changed nothing; and sweeping ends with no log that is due, while
  touching no other.
\<close>

section \<open>Migrating the database\<close>

datatype migrate_error = MgSql string | MgMigrations string string

text \<open>The connection a migration holds: its lock timeout, the advisory lock, and the texts executed.\<close>

record pg_session =
  ps_lock_timeout :: bool
  ps_locked :: bool
  ps_applied :: "string list"

text \<open>How the database and the file system answer during one attempt.\<close>

record migrate_env =
  me_acquire :: "(string, unit) result"
  me_set_timeout :: "(string, unit) result"
  me_lock :: "(string, unit) result"
  me_unlock :: "(string, unit) result"
  me_reset_timeout :: "(string, unit) result"
  me_listing :: "(string, string list) result"
  me_read :: "string \<Rightarrow> (string, string) result"
  me_execute :: "string \<Rightarrow> (string, unit) result"

definition MIGRATION_ATTEMPTS :: nat where
  "MIGRATION_ATTEMPTS = 5"

definition is_lock_contention :: "(migrate_error \<Rightarrow> string) \<Rightarrow> migrate_error \<Rightarrow> bool" where
  "is_lock_contention show e \<longleftrightarrow>
     (let text' = show e in
      contains_sub text' ''deadlock detected'' \<or> contains_sub text' ''lock timeout''
      \<or> contains_sub text' ''canceling statement due to lock timeout'')"

text \<open>\<^verbatim>\<open>Path::extension\<close>: what follows the last dot of a name that has something before it.\<close>

definition file_extension :: "string \<Rightarrow> string option" where
  "file_extension name =
     (case rsplit_once (CHR ''.'') name of
        None \<Rightarrow> None
      | Some (stem, ext) \<Rightarrow> if stem = [] then None else Some ext)"

definition sql_files :: "string list \<Rightarrow> string list" where
  "sql_files names = sort_key (map (of_char :: char \<Rightarrow> nat)) (filter (\<lambda>n. file_extension n = Some ''sql'') names)"

fun apply_files :: "migrate_env \<Rightarrow> string \<Rightarrow> string list \<Rightarrow> pg_session \<Rightarrow> (migrate_error, unit) result \<times> pg_session" where
  "apply_files M dir [] s = (Ok (), s)"
| "apply_files M dir (name # names) s =
     (case me_read M (path_join dir name) of
        Err reason \<Rightarrow> (Err (MgMigrations (path_join dir name) reason), s)
      | Ok sql \<Rightarrow>
          (case me_execute M sql of
             Err reason \<Rightarrow> (Err (MgMigrations (path_join dir name) reason), s)
           | Ok _ \<Rightarrow> apply_files M dir names (s\<lparr>ps_applied := ps_applied s @ [sql]\<rparr>)))"

definition run_migrations :: "migrate_env \<Rightarrow> string \<Rightarrow> pg_session \<Rightarrow> (migrate_error, unit) result \<times> pg_session" where
  "run_migrations M dir s =
     (case me_listing M of
        Err reason \<Rightarrow> (Err (MgMigrations dir reason), s)
      | Ok names \<Rightarrow>
          if sql_files names = [] then (Err (MgMigrations dir ''no .sql files found''), s)
          else apply_files M dir (sql_files names) s)"

definition migrate_once :: "migrate_env \<Rightarrow> string \<Rightarrow> pg_session \<Rightarrow> (migrate_error, unit) result \<times> pg_session" where
  "migrate_once M dir s =
     (case me_acquire M of
        Err e \<Rightarrow> (Err (MgSql e), s)
      | Ok _ \<Rightarrow>
          (case me_set_timeout M of
             Err e \<Rightarrow> (Err (MgSql e), s)
           | Ok _ \<Rightarrow>
               (let s1 = s\<lparr>ps_lock_timeout := True\<rparr> in
                (case me_lock M of
                   Err e \<Rightarrow> (Err (MgSql e), s1)
                 | Ok _ \<Rightarrow>
                     (case run_migrations M dir (s1\<lparr>ps_locked := True\<rparr>) of
                        (r, s2) \<Rightarrow>
                          (let s3 = (if is_ok (me_unlock M) then s2\<lparr>ps_locked := False\<rparr> else s2);
                               s4 = (if is_ok (me_reset_timeout M) then s3\<lparr>ps_lock_timeout := False\<rparr> else s3)
                           in (r, s4)))))))"

fun migrate_from ::
    "(migrate_error \<Rightarrow> string) \<Rightarrow> (nat \<Rightarrow> migrate_env) \<Rightarrow> string \<Rightarrow> nat list \<Rightarrow> migrate_error option \<Rightarrow> pg_session
     \<Rightarrow> (migrate_error, unit) result \<times> pg_session" where
  "migrate_from show Ms dir [] last' s =
     (Err (case last' of Some e \<Rightarrow> e | None \<Rightarrow> MgSql ''migration retries exhausted''), s)"
| "migrate_from show Ms dir (attempt # rest) last' s =
     (case migrate_once (Ms attempt) dir s of
        (Ok _, s') \<Rightarrow> (Ok (), s')
      | (Err e, s') \<Rightarrow>
          if is_lock_contention show e \<and> attempt < MIGRATION_ATTEMPTS
          then migrate_from show Ms dir rest (Some e) s'
          else (Err e, s'))"

definition migrate ::
    "(migrate_error \<Rightarrow> string) \<Rightarrow> (nat \<Rightarrow> migrate_env) \<Rightarrow> string \<Rightarrow> pg_session \<Rightarrow> (migrate_error, unit) result \<times> pg_session" where
  "migrate show Ms dir s = migrate_from show Ms dir [1..<MIGRATION_ATTEMPTS + 1] None s"

section \<open>Connecting to the queue\<close>

datatype stream_retention = WorkQueue | Limits "nat option"

record stream_config =
  sg_name :: string
  sg_subjects :: "string list"
  sg_retention :: stream_retention
  sg_discard_new :: bool

record bus =
  bu_prefix :: string
  bu_jobs_stream :: string
  bu_events_stream :: string

text \<open>A prefix is a subject token, so only ASCII letters have an upper case.\<close>

definition to_ascii_upper :: "char \<Rightarrow> char" where
  "to_ascii_upper c = (if is_ascii_lower c then char_of (of_char c - 32 :: nat) else c)"

definition to_uppercase :: "string \<Rightarrow> string" where
  "to_uppercase s = map to_ascii_upper s"

text \<open>An existing stream of the name is taken as it is.\<close>

definition get_or_create_stream ::
    "(string \<Rightarrow> (string, unit) result) \<Rightarrow> stream_config \<Rightarrow> (string \<rightharpoonup> stream_config) \<Rightarrow> (bus_error, string \<rightharpoonup> stream_config) result" where
  "get_or_create_stream made cfg streams =
     and_then (map_err (StreamErr (sg_name cfg)) (made (sg_name cfg))) (\<lambda>_.
       Ok (case streams (sg_name cfg) of Some _ \<Rightarrow> streams | None \<Rightarrow> streams(sg_name cfg \<mapsto> cfg)))"

record 'addr bus_env =
  bv_check_creds :: "string \<Rightarrow> (string, unit) result"
  bv_parse_addr :: "string \<Rightarrow> (string, 'addr) result"
  bv_dial :: "connect_options \<Rightarrow> 'addr list \<Rightarrow> (string, unit) result"
  bv_made :: "string \<Rightarrow> (string, unit) result"
  bv_show :: "nats_auth_error \<Rightarrow> string"

definition jobs_stream_config :: "string \<Rightarrow> stream_config" where
  "jobs_stream_config pre =
     \<lparr>sg_name = to_uppercase pre @ ''_JOBS'', sg_subjects = [pre @ ''.job.>''], sg_retention = WorkQueue,
      sg_discard_new = True\<rparr>"

definition events_stream_config :: "string \<Rightarrow> stream_config" where
  "events_stream_config pre =
     \<lparr>sg_name = to_uppercase pre @ ''_EVENTS'', sg_subjects = [pre @ ''.evt.>''],
      sg_retention = Limits (Some (24 * 60 * 60)), sg_discard_new = False\<rparr>"

definition bus_connect ::
    "'addr bus_env \<Rightarrow> nats_endpoint \<Rightarrow> string \<Rightarrow> (string \<rightharpoonup> stream_config)
     \<Rightarrow> (bus_error, bus \<times> (string \<rightharpoonup> stream_config)) result" where
  "bus_connect B ep pre streams =
     (if \<not> is_subject_token pre then Err (BadToken pre)
      else
        and_then (map_err (\<lambda>e. Connect (bv_show B e)) (connect_options_of (bv_check_creds B) (bv_parse_addr B) ''ci'' ep))
          (\<lambda>(opts, servers).
        and_then (map_err (\<lambda>e. Connect (e @ '' (servers: '' @ redacted ep @ '')'')) (bv_dial B opts servers)) (\<lambda>_.
        and_then (get_or_create_stream (bv_made B) (jobs_stream_config pre) streams) (\<lambda>streams1.
        and_then (get_or_create_stream (bv_made B) (events_stream_config pre) streams1) (\<lambda>streams2.
          Ok (\<lparr>bu_prefix = pre, bu_jobs_stream = sg_name (jobs_stream_config pre),
               bu_events_stream = sg_name (events_stream_config pre)\<rparr>, streams2))))))"

section \<open>Starting\<close>

datatype exit_reason =
  ExitConfig config_error
| ExitNetwork runner_error
| ExitDatabase string
| ExitLogDir string
| ExitMigrate migrate_error
| ExitBus bus_error
| ExitSink artifact_error
| ExitBind string

record 'addr boot_env =
  bt_env :: process_env
  bt_disk_id :: "string option"
  bt_probe :: "(string option \<times> string option) option"
  bt_control :: control_plane
  bt_show_runner :: "runner_error \<Rightarrow> string"
  bt_connect_db :: "string \<Rightarrow> (string, unit) result"
  bt_log_dir :: "string \<Rightarrow> (string, unit) result"
  bt_migrate :: "nat \<Rightarrow> migrate_env"
  bt_show_migrate :: "migrate_error \<Rightarrow> string"
  bt_bus :: "'addr bus_env"
  bt_objects :: objects_answer
  bt_show_objects :: "objects_error \<Rightarrow> string"
  bt_host :: "config \<Rightarrow> runner_pool \<Rightarrow> host"
  bt_bind :: "string \<Rightarrow> (string, unit) result"

record boot_state =
  bo_world :: world
  bo_session :: pg_session
  bo_streams :: "string \<rightharpoonup> stream_config"

record serving =
  sv_config :: config
  sv_pool :: runner_pool
  sv_bus :: bus
  sv_sink :: artifact_sink
  sv_objects :: workflow_set

definition default_pool :: runner_pool where
  "default_pool =
     \<lparr>po_networks = [], po_unjoined = [], po_last_error = None, po_default_network_id = [], po_default_node_id = []\<rparr>"

text \<open>Which failures of the first read of the pool end the process.\<close>

definition fatal_runner_error :: "runner_error \<Rightarrow> bool" where
  "fatal_runner_error e = (case e of UnknownNetworkName _ _ \<Rightarrow> True | AmbiguousNetwork _ _ \<Rightarrow> True | _ \<Rightarrow> False)"

definition read_pool :: "'addr boot_env \<Rightarrow> config \<Rightarrow> (exit_reason, runner_pool) result" where
  "read_pool B c =
     (case refresh (bt_show_runner B) (runner_config_of (bt_disk_id B) (bt_probe B) c) (bt_control B) default_pool of
        (Ok _, pool) \<Rightarrow> Ok pool
      | (Err e, pool) \<Rightarrow> if fatal_runner_error e then Err (ExitNetwork e) else Ok pool)"

definition open_store :: "'addr boot_env \<Rightarrow> config \<Rightarrow> (exit_reason, unit) result" where
  "open_store B c =
     and_then (map_err ExitDatabase (bt_connect_db B (cf_database_url c))) (\<lambda>_.
       map_err ExitLogDir (bt_log_dir B (cf_log_dir c)))"

definition start :: "'addr boot_env \<Rightarrow> boot_state \<Rightarrow> (exit_reason, serving) result \<times> boot_state" where
  "start B st =
     (case map_err ExitConfig (from_env (bt_env B)) of
        Err x \<Rightarrow> (Err x, st)
      | Ok c \<Rightarrow>
     (case read_pool B c of
        Err x \<Rightarrow> (Err x, st)
      | Ok pool \<Rightarrow>
     (case open_store B c of
        Err x \<Rightarrow> (Err x, st)
      | Ok _ \<Rightarrow>
     (case migrate (bt_show_migrate B) (bt_migrate B) (cf_migrations_dir c) (bo_session st) of
        (Err e, session) \<Rightarrow> (Err (ExitMigrate e), st\<lparr>bo_session := session\<rparr>)
      | (Ok _, session) \<Rightarrow>
          (let st1 = st\<lparr>bo_session := session\<rparr> in
     (case bus_connect (bt_bus B) (cf_nats c) (cf_nats_prefix c) (bo_streams st1) of
        Err e \<Rightarrow> (Err (ExitBus e), st1)
      | Ok (bus, streams) \<Rightarrow>
          (let st2 = st1\<lparr>bo_streams := streams\<rparr> in
     (case sink_for (artifact_config_of c) of
        Err e \<Rightarrow> (Err (ExitSink e), st2)
      | Ok sink \<Rightarrow>
          (let objects = snd (refresh_objects (bt_show_objects B) (cf_app_lb_url c) (bt_objects B) empty_set);
               st3 = st2\<lparr>bo_world := reclaim_pool (bt_host B c pool) (bo_world st2)\<rparr> in
     (case bt_bind B (cf_listen_addr c) of
        Err e \<Rightarrow> (Err (ExitBind e), st3)
      | Ok _ \<Rightarrow>
          (Ok \<lparr>sv_config = c, sv_pool = pool, sv_bus = bus, sv_sink = sink, sv_objects = objects\<rparr>, st3)))))))))))"

section \<open>Sweeping logs\<close>

datatype removal = Removed | NotFound | RemoveFailed

definition run_log_dir :: "string \<Rightarrow> string \<Rightarrow> string" where
  "run_log_dir root run_id = path_join root (sanitize_component run_id)"

definition remove_logs_in :: "string \<Rightarrow> (string \<times> string) list \<Rightarrow> (string \<times> string) list" where
  "remove_logs_in dir files = filter (\<lambda>(path, _). \<not> prefix (dir @ ''/'') path) files"

definition sweep_run :: "(string \<Rightarrow> removal) \<Rightarrow> string \<Rightarrow> string \<Rightarrow> job_io \<times> nat \<Rightarrow> job_io \<times> nat" where
  "sweep_run rm root run_id = (\<lambda>(io, swept).
     if rm (run_log_dir root run_id) = RemoveFailed then (io, swept)
     else (let (n, d) = forget_logs_of run_id (io_db io) in
           (io\<lparr>io_db := d, io_logs := remove_logs_in (run_log_dir root run_id) (io_logs io)\<rparr>, swept + n)))"

definition SWEEP_BATCH :: nat where
  "SWEEP_BATCH = 200"

text \<open>The largest number of seconds a time difference can be made of.\<close>

definition MAX_RETENTION :: nat where
  "MAX_RETENTION = (2 ^ 63 - 1) div 1000"

definition sweep_logs :: "(string \<Rightarrow> removal) \<Rightarrow> string \<Rightarrow> nat \<Rightarrow> nat \<Rightarrow> job_io \<Rightarrow> (job_io \<times> nat) option" where
  "sweep_logs rm root now retention io =
     (if MAX_RETENTION < retention then None
      else Some (fold (sweep_run rm root) (runs_with_logs_before (now - retention) SWEEP_BATCH (io_db io)) (io, 0)))"

section \<open>Migrations\<close>

lemma apply_files_Ok:
  "apply_files M dir names s = (Ok u, s') \<Longrightarrow>
     \<exists>sqls. map_result (\<lambda>n. me_read M (path_join dir n)) names = Ok sqls \<and> s' = s\<lparr>ps_applied := ps_applied s @ sqls\<rparr>"
  by (induction names arbitrary: s) (fastforce split: result.splits)+

lemma apply_files_extends:
  "apply_files M dir names s = (r, s') \<Longrightarrow> prefix (ps_applied s) (ps_applied s')"
proof (induction names arbitrary: s)
  case (Cons n ns)
  then show ?case
    by (auto split: result.splits) (metis (no_types, lifting) append_prefixD pg_session.select_convs(3) pg_session.surjective pg_session.update_convs(3))
qed simp

lemma run_migrations_extends: "run_migrations M dir s = (r, s') \<Longrightarrow> prefix (ps_applied s) (ps_applied s')"
  by (auto simp: run_migrations_def dest: apply_files_extends split: result.splits if_splits)

lemma migrate_once_extends: "migrate_once M dir s = (r, s') \<Longrightarrow> prefix (ps_applied s) (ps_applied s')"
  by (auto simp: migrate_once_def Let_def dest!: run_migrations_extends split: result.splits prod.splits if_splits)

definition executed_all :: "migrate_env \<Rightarrow> string \<Rightarrow> pg_session \<Rightarrow> pg_session \<Rightarrow> bool" where
  "executed_all M dir s s' \<longleftrightarrow>
     (\<exists>names sqls. me_listing M = Ok names \<and> sql_files names \<noteq> []
        \<and> map_result (\<lambda>n. me_read M (path_join dir n)) (sql_files names) = Ok sqls
        \<and> suffix sqls (ps_applied s') \<and> prefix (ps_applied s) (ps_applied s')
        \<and> ps_locked s' = (\<not> is_ok (me_unlock M)) \<and> ps_lock_timeout s' = (\<not> is_ok (me_reset_timeout M)))"

lemma executed_all_extends:
  "prefix (ps_applied s) (ps_applied s1) \<Longrightarrow> executed_all M dir s1 s' \<Longrightarrow> executed_all M dir s s'"
  unfolding executed_all_def by (meson prefix_order.trans)

lemma migrate_once_Ok:
  assumes "migrate_once M dir s = (Ok u, s')"
  shows "executed_all M dir s s'"
proof -
  let ?s1 = "s\<lparr>ps_lock_timeout := True, ps_locked := True\<rparr>"
  from assms obtain s2 where r: "run_migrations M dir ?s1 = (Ok u, s2)"
    and s': "ps_applied s' = ps_applied s2" "ps_locked s' = (ps_locked s2 \<and> \<not> is_ok (me_unlock M))"
      "ps_lock_timeout s' = (ps_lock_timeout s2 \<and> \<not> is_ok (me_reset_timeout M))"
    by (auto simp: migrate_once_def Let_def split: result.splits prod.splits if_splits)
  from r obtain names where names: "me_listing M = Ok names" "sql_files names \<noteq> []"
    "apply_files M dir (sql_files names) ?s1 = (Ok u, s2)"
    by (auto simp: run_migrations_def split: result.splits if_splits)
  from apply_files_Ok [OF names(3)] names(1,2) s' show ?thesis
    by (auto simp: executed_all_def suffix_def)
qed

lemma migrate_from_Ok:
  "migrate_from show Ms dir attempts last' s = (Ok u, s') \<Longrightarrow> \<exists>k \<in> set attempts. executed_all (Ms k) dir s s'"
proof (induction attempts arbitrary: last' s)
  case (Cons k ks)
  obtain r s1 where m: "migrate_once (Ms k) dir s = (r, s1)" by fastforce
  show ?case
  proof (cases r)
    case (Ok v)
    with Cons.prems m migrate_once_Ok show ?thesis by auto
  next
    case (Err e)
    with Cons.prems m have "migrate_from show Ms dir ks (Some e) s1 = (Ok u, s')" by (auto split: if_splits)
    with Cons.IH obtain k' where "k' \<in> set ks" "executed_all (Ms k') dir s1 s'" by blast
    with executed_all_extends [OF migrate_once_extends [OF m]] show ?thesis by auto
  qed
qed simp

text \<open>When taking the lock fails, the connection goes back to the others with its timeout still set.\<close>

lemma lock_timeout_kept:
  assumes "me_acquire M = Ok ()" "me_set_timeout M = Ok ()" "me_lock M = Err e"
  shows "migrate_once M dir s = (Err (MgSql e), s\<lparr>ps_lock_timeout := True\<rparr>)"
  using assms by (simp add: migrate_once_def)

section \<open>Streams and subjects\<close>

text \<open>Which subjects a stream takes: a pattern that ends in \<^verbatim>\<open>.>\<close> stands for everything below it.\<close>

definition stream_takes :: "stream_config \<Rightarrow> string \<Rightarrow> bool" where
  "stream_takes cfg subject \<longleftrightarrow>
     list_ex (\<lambda>p. case strip_suffix ''.>'' p of
                    Some stem \<Rightarrow> (case strip_prefix (stem @ ''.'') subject of Some r \<Rightarrow> r \<noteq> [] | None \<Rightarrow> False)
                  | None \<Rightarrow> p = subject) (sg_subjects cfg)"

lemma strip_suffix_append [simp]: "strip_suffix p (s @ p) = Some s"
  by (simp add: strip_suffix_def suffix_def)

lemma takes_below:
  "stream_takes \<lparr>sg_name = n, sg_subjects = [stem @ ''.>''], sg_retention = r, sg_discard_new = b\<rparr> subject
   \<longleftrightarrow> (\<exists>rest. rest \<noteq> [] \<and> subject = stem @ ''.'' @ rest)"
proof -
  have "strip_suffix ''.>'' (stem @ ''.>'') = Some stem" by (rule strip_suffix_append)
  then have "stream_takes \<lparr>sg_name = n, sg_subjects = [stem @ ''.>''], sg_retention = r, sg_discard_new = b\<rparr> subject
      \<longleftrightarrow> (case strip_prefix (stem @ ''.'') subject of Some r \<Rightarrow> r \<noteq> [] | None \<Rightarrow> False)"
    unfolding stream_takes_def stream_config.select_convs by simp
  also have "\<dots> \<longleftrightarrow> (\<exists>rest. strip_prefix (stem @ ''.'') subject = Some rest \<and> rest \<noteq> [])"
    by (cases "strip_prefix (stem @ ''.'') subject") auto
  also have "\<dots> \<longleftrightarrow> (\<exists>rest. rest \<noteq> [] \<and> subject = stem @ ''.'' @ rest)"
    unfolding strip_prefix_Some append_assoc by blast
  finally show ?thesis .
qed

lemma jobs_stream_takes: "subject_for pre r = Ok subject \<Longrightarrow> stream_takes (jobs_stream_config pre) subject"
  unfolding jobs_stream_config_def using takes_below [of _ "pre @ ''.job''"]
  by (auto simp: subject_for_def split: route.splits)

lemma events_stream_takes: "event_subject pre run_id key = Some subject \<Longrightarrow> stream_takes (events_stream_config pre) subject"
  unfolding events_stream_config_def using takes_below [of _ "pre @ ''.evt''"]
  by (auto simp: event_subject_def split: if_splits)

lemma bus_connect_Ok:
  assumes "bus_connect B ep pre streams = Ok (b, streams')"
  shows "is_subject_token pre" "bu_prefix b = pre" "bu_jobs_stream b = sg_name (jobs_stream_config pre)"
    "bu_events_stream b = sg_name (events_stream_config pre)"
    "streams' (bu_jobs_stream b) = Some (case streams (bu_jobs_stream b) of None \<Rightarrow> jobs_stream_config pre | Some c \<Rightarrow> c)"
    "streams' (bu_events_stream b) = Some (case streams (bu_events_stream b) of None \<Rightarrow> events_stream_config pre | Some c \<Rightarrow> c)"
proof -
  have ne: "sg_name (jobs_stream_config pre) \<noteq> sg_name (events_stream_config pre)"
    by (simp add: jobs_stream_config_def events_stream_config_def)
  show "is_subject_token pre" "bu_prefix b = pre" "bu_jobs_stream b = sg_name (jobs_stream_config pre)"
    "bu_events_stream b = sg_name (events_stream_config pre)"
    using assms by (auto simp: bus_connect_def split: if_splits prod.splits)
  show "streams' (bu_jobs_stream b) = Some (case streams (bu_jobs_stream b) of None \<Rightarrow> jobs_stream_config pre | Some c \<Rightarrow> c)"
    "streams' (bu_events_stream b) = Some (case streams (bu_events_stream b) of None \<Rightarrow> events_stream_config pre | Some c \<Rightarrow> c)"
    using assms ne by (auto simp: bus_connect_def get_or_create_stream_def split: if_splits prod.splits option.splits)
qed

section \<open>What a sweep does\<close>

definition due_run :: "nat \<Rightarrow> db \<Rightarrow> run_row \<Rightarrow> bool" where
  "due_run cutoff d r \<longleftrightarrow> rn_created_at r < cutoff
     \<and> list_ex (\<lambda>j. jr_run_id j = rn_id r
          \<and> list_ex (\<lambda>s. sr_job_id s = jr_id j \<and> sr_log_path s \<noteq> None) (db_steps d)) (db_jobs d)"

text \<open>The runs a sweep is to look at, in the order it does: those made before the cutoff that have a log.\<close>

definition due_runs :: "nat \<Rightarrow> db \<Rightarrow> string list" where
  "due_runs cutoff d = map rn_id (sort_key rn_created_at (filter (due_run cutoff d) (db_runs d)))"

lemma runs_with_logs_before_due: "runs_with_logs_before cutoff n d = take n (due_runs cutoff d)"
  by (simp add: runs_with_logs_before_def due_runs_def due_run_def [abs_def])

lemma forget_logs_tables [simp]:
  "db_runs (snd (forget_logs_of x d)) = db_runs d" "db_jobs (snd (forget_logs_of x d)) = db_jobs d"
  by (simp_all add: forget_logs_of_def)

lemma due_run_forgotten:
  assumes "distinct (map jr_id (db_jobs d))"
  shows "due_run cutoff (snd (forget_logs_of x d)) r \<longleftrightarrow> due_run cutoff d r \<and> rn_id r \<noteq> x"
proof -
  have one: "j = j'" if "j \<in> set (db_jobs d)" "j' \<in> set (db_jobs d)" "jr_id j = jr_id j'" for j j'
    using assms that by (auto simp: distinct_map inj_on_def)
  let ?L = "\<lambda>d j. \<exists>s\<in>set (db_steps d). sr_job_id s = jr_id j \<and> sr_log_path s \<noteq> None"
  have "?L (snd (forget_logs_of x d)) j \<longleftrightarrow> jr_run_id j \<noteq> x \<and> ?L d j" if "j \<in> set (db_jobs d)" for j
  proof -
    have "logs_of_run x d s \<longleftrightarrow> sr_log_path s \<noteq> None \<and> jr_run_id j = x" if "sr_job_id s = jr_id j" for s
      using one [OF \<open>j \<in> set (db_jobs d)\<close>] \<open>j \<in> set (db_jobs d)\<close> that
      by (auto simp: logs_of_run_def list_ex_iff) metis
    then show ?thesis by (auto simp: forget_logs_of_def update_rows_def split: if_splits)
  qed
  then have "(\<exists>j\<in>set (db_jobs d). jr_run_id j = rn_id r \<and> ?L (snd (forget_logs_of x d)) j)
      \<longleftrightarrow> rn_id r \<noteq> x \<and> (\<exists>j\<in>set (db_jobs d). jr_run_id j = rn_id r \<and> ?L d j)" by metis
  then show ?thesis unfolding due_run_def list_ex_iff forget_logs_tables by metis
qed

lemma due_runs_forgotten:
  "distinct (map jr_id (db_jobs d)) \<Longrightarrow>
     due_runs cutoff (snd (forget_logs_of x d)) = filter (\<lambda>r. r \<noteq> x) (due_runs cutoff d)"
proof -
  assume "distinct (map jr_id (db_jobs d))"
  then have "due_run cutoff (snd (forget_logs_of x d)) = (\<lambda>r. due_run cutoff d r \<and> rn_id r \<noteq> x)"
    by (intro ext due_run_forgotten)
  then show ?thesis by (simp add: due_runs_def filter_map filter_sort o_def conj_commute)
qed

lemma sweep_run_fst:
  "rm (run_log_dir root x) \<noteq> RemoveFailed \<Longrightarrow>
     io_db (fst (sweep_run rm root x p)) = snd (forget_logs_of x (io_db (fst p)))"
  by (simp add: sweep_run_def Let_def split: prod.split)

lemma fold_sweep_tables:
  "db_jobs (io_db (fst (fold (sweep_run rm root) xs p))) = db_jobs (io_db (fst p))
   \<and> db_runs (io_db (fst (fold (sweep_run rm root) xs p))) = db_runs (io_db (fst p))"
proof (induction xs arbitrary: p)
  case (Cons x xs)
  have "db_jobs (io_db (fst (sweep_run rm root x p))) = db_jobs (io_db (fst p))
     \<and> db_runs (io_db (fst (sweep_run rm root x p))) = db_runs (io_db (fst p))"
    by (simp add: sweep_run_def forget_logs_of_def split: prod.split)
  with Cons show ?case by simp
qed simp

lemma fold_sweep_due:
  assumes "\<And>x. rm x \<noteq> RemoveFailed"
  shows "distinct (map jr_id (db_jobs (io_db (fst p)))) \<Longrightarrow>
    due_runs cutoff (io_db (fst (fold (sweep_run rm root) xs p))) = filter (\<lambda>r. r \<notin> set xs) (due_runs cutoff (io_db (fst p)))"
proof (induction xs arbitrary: p)
  case (Cons x xs)
  let ?q = "sweep_run rm root x p"
  have "io_db (fst ?q) = snd (forget_logs_of x (io_db (fst p)))" using assms by (rule sweep_run_fst)
  with Cons show ?case by (simp add: due_runs_forgotten conj_commute)
qed simp

lemma filter_take_drop: "distinct xs \<Longrightarrow> filter (\<lambda>x. x \<notin> set (take n xs)) xs = drop n xs"
proof -
  assume "distinct xs"
  then have "distinct (take n xs @ drop n xs)" by simp
  then have "set (take n xs) \<inter> set (drop n xs) = {}" unfolding distinct_append by blast
  then have "filter (\<lambda>x. x \<notin> set (take n xs)) (take n xs @ drop n xs) = drop n xs"
    by (subst filter_append) (auto simp: filter_empty_conv intro: filter_True)
  then show ?thesis by simp
qed

lemma distinct_due: "distinct (map rn_id (db_runs d)) \<Longrightarrow> distinct (due_runs cutoff d)"
  by (auto simp: due_runs_def distinct_map inj_on_def)

text \<open>A row of a step of a run that is not swept stays as it is, and of the others only the log goes.\<close>

definition same_but_log :: "step_row \<Rightarrow> step_row \<Rightarrow> bool" where
  "same_but_log s s' \<longleftrightarrow> s' = s \<or> s' = s\<lparr>sr_log_path := None, sr_log_bytes := 0\<rparr>"

lemma fold_sweep_steps:
  "list_all2 (\<lambda>s s'. same_but_log s s' \<and> (s' = s \<or> (\<exists>x\<in>set xs. \<exists>j\<in>set (db_jobs (io_db (fst p))).
       jr_run_id j = x \<and> jr_id j = sr_job_id s)))
     (db_steps (io_db (fst p))) (db_steps (io_db (fst (fold (sweep_run rm root) xs p))))"
proof (induction xs arbitrary: p)
  case Nil
  then show ?case by (simp add: list_all2_same same_but_log_def)
next
  case (Cons x xs)
  let ?q = "sweep_run rm root x p"
  have jobs: "db_jobs (io_db (fst ?q)) = db_jobs (io_db (fst p))" using fold_sweep_tables [of rm root "[x]" p] by simp
  have step: "list_all2 (\<lambda>s s'. same_but_log s s'
        \<and> (s' = s \<or> (\<exists>j\<in>set (db_jobs (io_db (fst p))). jr_run_id j = x \<and> jr_id j = sr_job_id s)))
      (db_steps (io_db (fst p))) (db_steps (io_db (fst ?q)))"
    by (auto simp: sweep_run_def forget_logs_of_def update_rows_def logs_of_run_def list_ex_iff list_all2_map2
        list_all2_same same_but_log_def split: prod.split)
  show ?case
    unfolding fold.simps comp_def
    by (rule list_all2_trans [OF _ step Cons.IH [of ?q, unfolded jobs]]) (auto simp: same_but_log_def)
qed

text \<open>The directory of a run holds its logs and no other run's.\<close>

lemma path_join_slash: "c \<noteq> [] \<Longrightarrow> CHR ''/'' \<notin> set c \<Longrightarrow> path_join (path_join root c) b = path_join root c @ ''/'' @ b"
proof -
  assume c: "c \<noteq> []" "CHR ''/'' \<notin> set c"
  then have "last c \<noteq> CHR ''/''" by (metis last_in_set)
  with c show ?thesis by (simp add: path_join_def)
qed

lemma log_path_in_dir: "log_path root run key idx sid = run_log_dir root run @ ''/'' @ sanitize_component key @ ''/''
    @ padded_idx idx @ ''-'' @ sanitize_component sid @ ''.log''"
proof -
  have n: "sanitize_component x \<noteq> [] \<and> CHR ''/'' \<notin> set (sanitize_component x)" for x
    using sanitize_component_safe [of x] by blast
  have "path_join (path_join (path_join root a) b) c = path_join root a @ ''/'' @ b @ ''/'' @ c"
    if "a \<noteq> []" "CHR ''/'' \<notin> set a" "b \<noteq> []" "CHR ''/'' \<notin> set b" for a b c
  proof -
    from that(3,4) have "last b \<noteq> CHR ''/''" by (metis last_in_set)
    with that show ?thesis by (simp add: path_join_slash) (simp add: path_join_def)
  qed
  with n show ?thesis by (simp add: log_path_def log_components_def run_log_dir_def)
qed

lemma dir_prefix:
  "prefix (run_log_dir root x @ ''/'') (run_log_dir root r @ ''/'' @ t) \<longleftrightarrow> sanitize_component x = sanitize_component r"
proof
  have n: "CHR ''/'' \<notin> set (sanitize_component x)" for x using sanitize_component_safe [of x] by blast
  assume "prefix (run_log_dir root x @ ''/'') (run_log_dir root r @ ''/'' @ t)"
  then obtain z where "sanitize_component x @ CHR ''/'' # z = sanitize_component r @ CHR ''/'' # t"
    by (auto simp: run_log_dir_def path_join_def prefix_def split: if_splits)
  then have "takeWhile (\<lambda>c. c \<noteq> CHR ''/'') (sanitize_component x @ CHR ''/'' # z) =
      takeWhile (\<lambda>c. c \<noteq> CHR ''/'') (sanitize_component r @ CHR ''/'' # t)" by simp
  then show "sanitize_component x = sanitize_component r"
    using while_until(1) [OF n, of "CHR ''/'' # z" x] while_until(1) [OF n, of "CHR ''/'' # t" r] by simp
qed (simp add: run_log_dir_def prefix_def)

lemma sweep_run_keeps_file:
  assumes "(log_path root run key idx sid, t) \<in> set (io_logs (fst p))" "sanitize_component x \<noteq> sanitize_component run"
  shows "(log_path root run key idx sid, t) \<in> set (io_logs (fst (sweep_run rm root x p)))"
  using assms dir_prefix [of root x run] by (auto simp: sweep_run_def remove_logs_in_def log_path_in_dir split: prod.split)

lemma fold_sweep_keeps_file:
  "(log_path root run key idx sid, t) \<in> set (io_logs (fst p)) \<Longrightarrow>
     sanitize_component run \<notin> sanitize_component ` set xs \<Longrightarrow>
     (log_path root run key idx sid, t) \<in> set (io_logs (fst (fold (sweep_run rm root) xs p)))"
proof (induction xs arbitrary: p)
  case (Cons x xs)
  from Cons.prems have "(log_path root run key idx sid, t) \<in> set (io_logs (fst (sweep_run rm root x p)))"
    by (intro sweep_run_keeps_file) auto
  with Cons show ?case by simp
qed simp

section \<open>Properties\<close>

text \<open>C33. One pass of the log sweeper. If no directory fails to be removed, the runs that are due afterwards
  are those that were, less the first two hundred, so repeated passes end with none. Runs and jobs are
  not touched, and of a step nothing but the log, and that only in a run older than the cutoff.\<close>

theorem log_sweep:
  assumes "sweep_logs rm root now retention io = Some (io', n)" "\<And>x. rm x \<noteq> RemoveFailed"
    and "distinct (map jr_id (db_jobs (io_db io)))" "distinct (map rn_id (db_runs (io_db io)))"
  shows "due_runs (now - retention) (io_db io') = drop SWEEP_BATCH (due_runs (now - retention) (io_db io))
    \<and> db_runs (io_db io') = db_runs (io_db io) \<and> db_jobs (io_db io') = db_jobs (io_db io)
    \<and> list_all2 (\<lambda>s s'. same_but_log s s'
         \<and> (s' = s \<or> (\<exists>r j. r \<in> set (db_runs (io_db io)) \<and> j \<in> set (db_jobs (io_db io))
              \<and> jr_run_id j = rn_id r \<and> jr_id j = sr_job_id s \<and> rn_created_at r < now - retention)))
       (db_steps (io_db io)) (db_steps (io_db io'))"
proof -
  let ?due = "due_runs (now - retention) (io_db io)"
  have io': "io' = fst (fold (sweep_run rm root) (take SWEEP_BATCH ?due) (io, 0))"
    using assms(1) by (auto simp: sweep_logs_def runs_with_logs_before_due split: if_splits)
  have "due_runs (now - retention) (io_db io') = drop SWEEP_BATCH ?due"
    using fold_sweep_due [OF assms(2), of "(io, 0)"] assms(3) filter_take_drop [OF distinct_due [OF assms(4)]]
    by (simp add: io')
  moreover have old: "\<exists>r \<in> set (db_runs (io_db io)). rn_id r = x \<and> rn_created_at r < now - retention"
    if "x \<in> set (take SWEEP_BATCH ?due)" for x
    using in_set_takeD [OF that] by (auto simp: due_runs_def due_run_def)
  have "list_all2 (\<lambda>s s'. same_but_log s s'
         \<and> (s' = s \<or> (\<exists>r j. r \<in> set (db_runs (io_db io)) \<and> j \<in> set (db_jobs (io_db io))
              \<and> jr_run_id j = rn_id r \<and> jr_id j = sr_job_id s \<and> rn_created_at r < now - retention)))
       (db_steps (io_db io)) (db_steps (io_db io'))"
    using fold_sweep_steps [of "take SWEEP_BATCH ?due" "(io, 0)" rm root] unfolding io' fst_conv
    by (rule list_all2_mono) (use old in metis)
  ultimately show ?thesis using fold_sweep_tables [of rm root "take SWEEP_BATCH ?due" "(io, 0)"] by (simp add: io')
qed

definition sample_logged :: job_io where
  "sample_logged =
     \<lparr>io_db = sample_db\<lparr>db_steps := [\<lparr>sr_id = ''r.build.0'', sr_job_id = job_id ''r'' ''build'', sr_idx = 0, sr_name = ''make'',
        sr_uses = None, sr_status = SSuccess, sr_exit_code = Some 0, sr_operation_id = None,
        sr_log_path = Some ''logs/r/build/000.log'', sr_log_bytes = 3, sr_error = None, sr_started_at = Some 2,
        sr_finished_at = Some 3\<rparr>]\<rparr>,
      io_logs = [(''logs/r/build/000.log'', ''ok!'')]\<rparr>"

theorem log_sweep_witness:
  "\<exists>io' n. sweep_logs (\<lambda>_. Removed) ''logs'' 9 2 sample_logged = Some (io', n)
     \<and> due_runs 7 (io_db sample_logged) = [''r''] \<and> due_runs 7 (io_db io') = []"
proof -
  obtain io' n where sw: "sweep_logs (\<lambda>_. Removed) ''logs'' 9 2 sample_logged = Some (io', n)"
    by (fastforce simp: sweep_logs_def MAX_RETENTION_def)
  have d: "distinct (map jr_id (db_jobs (io_db sample_logged)))" "distinct (map rn_id (db_runs (io_db sample_logged)))"
    by (simp_all add: sample_logged_def sample_db_def)
  have due: "due_runs 7 (io_db sample_logged) = [''r'']"
    by (simp add: due_runs_def due_run_def sample_logged_def sample_db_def new_run_row_def new_job_row_def
        sample_cell_def plan_cell_def)
  from log_sweep [OF sw _ d] due have "due_runs 7 (io_db io') = []" by (simp add: SWEEP_BATCH_def)
  with sw due show ?thesis by blast
qed

text \<open>The files of a run that is not swept stay.\<close>

lemma log_sweep_keeps_files:
  assumes "sweep_logs rm root now retention io = Some (io', n)" "(log_path root run key idx sid, t) \<in> set (io_logs io)"
    "sanitize_component run \<notin> sanitize_component ` set (due_runs (now - retention) (io_db io))"
  shows "(log_path root run key idx sid, t) \<in> set (io_logs io')"
proof -
  have "io' = fst (fold (sweep_run rm root) (take SWEEP_BATCH (due_runs (now - retention) (io_db io))) (io, 0))"
    using assms(1) by (auto simp: sweep_logs_def runs_with_logs_before_due split: if_splits)
  with fold_sweep_keeps_file [of root run key idx sid t "(io, 0)"] assms(2,3) show ?thesis
    by (auto dest: in_set_takeD)
qed

text \<open>A migration that reports success executed, in one of at most five attempts, every SQL file of the
  directory in the order of their names, and leaves the advisory lock and the lock timeout behind only
  if the statement that gives them up failed.\<close>

theorem migrate_complete:
  assumes "migrate show Ms dir s = (Ok u, s')"
  shows "\<exists>k. 1 \<le> k \<and> k \<le> 5 \<and> executed_all (Ms k) dir s s'"
  using migrate_from_Ok [OF assms [unfolded migrate_def]] by (auto simp: MIGRATION_ATTEMPTS_def)

definition sample_migrations :: "nat \<Rightarrow> migrate_env" where
  "sample_migrations attempt =
     \<lparr>me_acquire = Ok (), me_set_timeout = Ok (), me_lock = (if attempt < 2 then Err ''lock timeout'' else Ok ()),
      me_unlock = Ok (), me_reset_timeout = Ok (), me_listing = Ok [''2.sql'', ''README.md'', ''1.sql''],
      me_read = Ok, me_execute = (\<lambda>_. Ok ())\<rparr>"

definition sample_session :: pg_session where
  "sample_session = \<lparr>ps_lock_timeout = False, ps_locked = False, ps_applied = []\<rparr>"

theorem migrate_complete_witness:
  "\<exists>s' k. migrate (\<lambda>e. case e of MgSql m \<Rightarrow> m | MgMigrations _ m \<Rightarrow> m) sample_migrations ''m'' sample_session = (Ok (), s')
     \<and> ps_applied s' = [''m/1.sql'', ''m/2.sql''] \<and> executed_all (sample_migrations k) ''m'' sample_session s'"
proof -
  let ?show = "\<lambda>e. case e of MgSql m \<Rightarrow> m | MgMigrations _ m \<Rightarrow> m"
  let ?s' = "\<lparr>ps_lock_timeout = False, ps_locked = False, ps_applied = [''m/1.sql'', ''m/2.sql'']\<rparr>"
  have f: "sql_files [''2.sql'', ''README.md'', ''1.sql''] = [''1.sql'', ''2.sql'']"
    "path_join ''m'' ''1.sql'' = ''m/1.sql''" "path_join ''m'' ''2.sql'' = ''m/2.sql''" by code_simp+
  have "is_lock_contention ?show (MgSql ''lock timeout'')" by code_simp
  moreover have "[1..<MIGRATION_ATTEMPTS + 1] = [1, 2, 3, 4, 5]" by code_simp
  ultimately have m: "migrate ?show sample_migrations ''m'' sample_session = (Ok (), ?s')"
    by (simp add: migrate_def migrate_once_def run_migrations_def sample_migrations_def sample_session_def f MIGRATION_ATTEMPTS_def)
  from migrate_complete [OF this] m show ?thesis by fastforce
qed

text \<open>On a server that has no streams of these names yet, every subject a job can be published on belongs
  to the stream made for jobs, a work queue, and every subject of an event to the one made for events,
  which is not one.\<close>

theorem connected_streams_take_subjects:
  assumes "bus_connect B ep pre streams = Ok (b, streams')"
    "streams (bu_jobs_stream b) = None" "streams (bu_events_stream b) = None"
  shows "(\<exists>cfg. streams' (bu_jobs_stream b) = Some cfg \<and> sg_retention cfg = WorkQueue
      \<and> (\<forall>r subject. subject_for (bu_prefix b) r = Ok subject \<longrightarrow> stream_takes cfg subject))
    \<and> (\<exists>cfg. streams' (bu_events_stream b) = Some cfg \<and> sg_retention cfg \<noteq> WorkQueue
      \<and> (\<forall>run key subject. event_subject (bu_prefix b) run key = Some subject \<longrightarrow> stream_takes cfg subject))"
proof -
  have "sg_retention (jobs_stream_config pre) = WorkQueue" "sg_retention (events_stream_config pre) \<noteq> WorkQueue"
    by (simp_all add: jobs_stream_config_def events_stream_config_def)
  with bus_connect_Ok [OF assms(1)] assms(2,3) jobs_stream_takes events_stream_takes show ?thesis by simp
qed

definition sample_bus :: "string bus_env" where
  "sample_bus =
     \<lparr>bv_check_creds = (\<lambda>_. Ok ()), bv_parse_addr = Ok, bv_dial = (\<lambda>_ _. Ok ()), bv_made = (\<lambda>_. Ok ()),
      bv_show = (\<lambda>_. [])\<rparr>"

definition sample_endpoint :: nats_endpoint where
  "sample_endpoint = \<lparr>ne_servers = [''nats://a:4222''], ne_credential = CredNone, ne_credential_from_url = False\<rparr>"

lemma sample_bus_connects: "is_subject_token pre \<Longrightarrow> \<exists>b s. bus_connect sample_bus sample_endpoint pre streams = Ok (b, s)"
  by (simp add: bus_connect_def sample_bus_def sample_endpoint_def connect_options_of_def get_or_create_stream_def)

theorem connected_streams_take_subjects_witness:
  "\<exists>b streams cfg. bus_connect sample_bus sample_endpoint ''ci'' (\<lambda>_. None) = Ok (b, streams)
     \<and> streams (bu_jobs_stream b) = Some cfg \<and> stream_takes cfg ''ci.job.r.hd-1''"
proof -
  have t: "is_subject_token ''ci''" "subject_for ''ci'' (RRunner ''hd-1'') = Ok ''ci.job.r.hd-1''" by code_simp+
  from sample_bus_connects [OF t(1)] obtain b streams where
    b: "bus_connect sample_bus sample_endpoint ''ci'' (\<lambda>_. None) = Ok (b, streams)" by blast
  from connected_streams_take_subjects [OF b] bus_connect_Ok(2) [OF b] t(2) b show ?thesis by fastforce
qed

text \<open>Two prefixes that differ in case only share the names of their streams, and the second finds the
  first's, which does not take its subjects.\<close>

lemma case_twin_prefix:
  assumes "bus_connect B ep ''CI'' streams = Ok (b, streams')" "streams ''CI_JOBS'' = Some (jobs_stream_config ''ci'')"
  shows "streams' (bu_jobs_stream b) = Some (jobs_stream_config ''ci'')
    \<and> \<not> stream_takes (jobs_stream_config ''ci'') ''CI.job.r.hd-1''"
proof -
  have "sg_name (jobs_stream_config ''CI'') = ''CI_JOBS''" "\<not> stream_takes (jobs_stream_config ''ci'') ''CI.job.r.hd-1''"
    by code_simp+
  with bus_connect_Ok(3,5) [OF assms(1)] assms(2) show ?thesis by simp
qed


end
