(* ===== verification/Background.thy ===== *)
theory Background
  imports Process Web
begin

text \<open>
  What runs beside the requests: the task that keeps a consumer per queue and the loop of a consumer
  (\<^verbatim>\<open>spawn_consumers\<close> and \<^verbatim>\<open>consume\<close> of \<^verbatim>\<open>dispatch.rs\<close>), the renewal of the time a VM has left to live
  (\<^verbatim>\<open>renew_vm_ttls\<close>) and the whole tick of the lease loop, and the small reads of the outside world the
  others build on: a VM's log (\<^verbatim>\<open>Vm::logs\<close>), the identity of the local daemon (\<^verbatim>\<open>runners.rs\<close>) and the depth
  of a queue (\<^verbatim>\<open>Bus::depth\<close>). Tasks are numbered in the order they are spawned; that one ends by a panic
  is a step of its own. The answers of the daemon and of the queue are arguments. The main results: no
  queue ever has two live consumers of one process, every message is answered in turn, and renewing
  touches exactly the VMs this instance runs a job on.
\<close>

section \<open>Reads\<close>

record log_line =
  ll_source :: string
  ll_message :: string

record logs_response =
  lr_logs :: "log_line list"
  lr_total :: nat

text \<open>\<^verbatim>\<open>{:<7}\<close> pads with blanks on the right.\<close>

definition pad_right :: "nat \<Rightarrow> string \<Rightarrow> string" where
  "pad_right w s = s @ replicate (w - length s) (CHR '' '')"

definition log_line_text :: "log_line \<Rightarrow> string" where
  "log_line_text e = pad_right 7 (ll_source e) @ '' '' @ ll_message e @ [CHR 0x0A]"

definition vm_logs :: "string \<Rightarrow> (heyo_error, logs_response) result \<Rightarrow> (vm_error, string) result" where
  "vm_logs vm answer =
     and_then (map_err (DaemonError vm ''reading the VM's logs'') answer) (\<lambda>response.
       Ok ((if length (lr_logs response) < lr_total response
            then ''[ci] showing the last '' @ nat_str (length (lr_logs response)) @ '' of ''
                 @ nat_str (lr_total response) @ '' lines'' @ [CHR 0x0A]
            else [])
           @ concat (map log_line_text (lr_logs response))))"

definition local_daemon_id_from_disk ::
    "(string \<Rightarrow> (string, string) result) \<Rightarrow> (string \<Rightarrow> (string, json) result) \<Rightarrow> string option \<Rightarrow> string option" where
  "local_daemon_id_from_disk read_file read_json path =
     (case path of
        None \<Rightarrow> None
      | Some p \<Rightarrow>
          (case read_file p of
             Err _ \<Rightarrow> None
           | Ok t \<Rightarrow>
               (case read_json t of
                  Ok (JObj m) \<Rightarrow>
                    (case map_of m ''backend_id'' of
                       Some (JStr s) \<Rightarrow> if trim s \<noteq> [] then Some (trim s) else None
                     | _ \<Rightarrow> None)
                | _ \<Rightarrow> None)))"

text \<open>The answer to a probe is a status and the decoded body, the daemon's id and name.\<close>

definition probe_local_daemon ::
    "(string, nat \<times> (string, string option \<times> string option) result) result \<Rightarrow> (string option \<times> string option) option" where
  "probe_local_daemon answer =
     (case answer of
        Err _ \<Rightarrow> None
      | Ok (status, body) \<Rightarrow>
          if status < 200 \<or> 300 \<le> status then None
          else (case body of Ok names \<Rightarrow> Some names | Err _ \<Rightarrow> None))"

text \<open>\<open>stream\<close> is the answer to a look-up of the jobs stream, \<open>info\<close> what is known of a consumer, if it is there.\<close>

definition depth ::
    "string \<Rightarrow> (string, unit) result \<Rightarrow> (string \<Rightarrow> (string, nat \<times> nat) result option) \<Rightarrow> route \<Rightarrow> (bus_error, queue_depth option) result" where
  "depth pre stream info r =
     and_then (durable_for pre r) (\<lambda>durable.
     and_then (map_err (StreamErr (to_uppercase pre @ ''_JOBS'')) stream) (\<lambda>_.
       (case info durable of
          None \<Rightarrow> Ok None
        | Some (Err _) \<Rightarrow> Ok None
        | Some (Ok (pending, ack_pending)) \<Rightarrow> Ok (Some \<lparr>qd_waiting = pending, qd_in_flight = ack_pending\<rparr>))))"

section \<open>Consumer tasks\<close>

text \<open>Every task ever spawned, by number, with its route and whether it is finished; and the number of the
  task remembered for a key.\<close>

record consumer_tasks =
  ct_tasks :: "(route \<times> bool) list"
  ct_running :: "string \<rightharpoonup> nat"

definition no_tasks :: consumer_tasks where
  "no_tasks = \<lparr>ct_tasks = [], ct_running = Map.empty\<rparr>"

definition is_finished :: "consumer_tasks \<Rightarrow> nat \<Rightarrow> bool" where
  "is_finished st t = snd (ct_tasks st ! t)"

definition ensure_consumer :: "(route \<Rightarrow> string) \<Rightarrow> route \<Rightarrow> consumer_tasks \<Rightarrow> consumer_tasks" where
  "ensure_consumer shown r st =
     (let key = shown r;
          alive = (case ct_running st key of None \<Rightarrow> False | Some t \<Rightarrow> \<not> is_finished st t) in
      if alive then st
      else st\<lparr>ct_tasks := ct_tasks st @ [(r, False)], ct_running := (ct_running st)(key \<mapsto> length (ct_tasks st))\<rparr>)"

definition reconcile_consumers :: "(route \<Rightarrow> string) \<Rightarrow> runner_pool \<Rightarrow> consumer_tasks \<Rightarrow> consumer_tasks" where
  "reconcile_consumers shown pool st = fold (ensure_consumer shown) (wanted_routes shown pool) st"

definition end_task :: "nat \<Rightarrow> consumer_tasks \<Rightarrow> consumer_tasks" where
  "end_task t st = st\<lparr>ct_tasks := (ct_tasks st)[t := (fst (ct_tasks st ! t), True)]\<rparr>"

inductive consumer_step :: "(route \<Rightarrow> string) \<Rightarrow> consumer_tasks \<Rightarrow> consumer_tasks \<Rightarrow> bool" for shown where
  tick: "consumer_step shown st (reconcile_consumers shown pool st)"
| panic: "t < length (ct_tasks st) \<Longrightarrow> consumer_step shown st (end_task t st)"

inductive_cases consumer_stepE: "consumer_step shown st st'"

section \<open>The loop of a consumer\<close>

text \<open>A message as it is taken off a queue: the attempt its headers tell, the decoded payload, and what the
  ceiling left behind if it cut the job off.\<close>

record delivery =
  de_attempt :: "nat option"
  de_payload :: "job_message option"
  de_dropped :: "world option"

definition delivery_attempt :: "delivery \<Rightarrow> nat" where
  "delivery_attempt m = (case de_attempt m of Some n \<Rightarrow> n | None \<Rightarrow> 1)"

text \<open>One stream of messages, up to its end or its first error.\<close>

fun consume_messages :: "host \<Rightarrow> nat \<Rightarrow> (string, delivery) result list \<Rightarrow> world \<Rightarrow> ack list \<times> world" where
  "consume_messages H ceiling [] w = ([], w)"
| "consume_messages H ceiling (Err e # ms) w = ([], w)"
| "consume_messages H ceiling (Ok m # ms) w =
     (case deliver H ceiling (delivery_attempt m) (de_payload m) (de_dropped m) w of
        (a, w') \<Rightarrow> (case consume_messages H ceiling ms w' of (as, w'') \<Rightarrow> (a # as, w'')))"

text \<open>What one turn of the outer loop meets.\<close>

datatype turn = NoConsumer string | NoStream string | Stream "(string, delivery) result list"

fun consume :: "host \<Rightarrow> nat \<Rightarrow> turn list \<Rightarrow> world \<Rightarrow> ack list \<times> world" where
  "consume H ceiling [] w = ([], w)"
| "consume H ceiling (NoConsumer _ # ts) w = consume H ceiling ts w"
| "consume H ceiling (NoStream _ # ts) w = consume H ceiling ts w"
| "consume H ceiling (Stream ms # ts) w =
     (case consume_messages H ceiling ms w of
        (as, w') \<Rightarrow> (case consume H ceiling ts w' of (bs, w'') \<Rightarrow> (as @ bs, w'')))"

section \<open>The lease loop\<close>

definition renew_ttl :: "string \<Rightarrow> (heyo_error, unit) result \<Rightarrow> (vm_error, unit) result" where
  "renew_ttl vm answer = map_err (DaemonError vm ''renewing the TTL'') answer"

text \<open>Renewing one VM; \<open>set_ttl\<close> is the daemon's answer.\<close>

definition renew_one ::
    "host \<Rightarrow> (string \<Rightarrow> (heyo_error, unit) result) \<Rightarrow> string \<times> string \<Rightarrow> world \<Rightarrow> (dispatch_error, unit) result \<times> world" where
  "renew_one H set_ttl = (\<lambda>(sandbox_id, runner) w.
     (case host_options H runner w of
        (Err e, w') \<Rightarrow> (Err e, w')
      | (Ok _, w') \<Rightarrow>
          (and_then (map_err DVm (open_vm H sandbox_id)) (\<lambda>_. map_err DVm (renew_ttl sandbox_id (set_ttl sandbox_id))), w')))"

fun renew_all ::
    "host \<Rightarrow> (string \<Rightarrow> (heyo_error, unit) result) \<Rightarrow> (string \<times> string) list \<Rightarrow> world
     \<Rightarrow> (string \<times> (dispatch_error, unit) result) list \<times> world" where
  "renew_all H set_ttl [] w = ([], w)"
| "renew_all H set_ttl (h # hs) w =
     (case renew_one H set_ttl h w of
        (r, w') \<Rightarrow> (case renew_all H set_ttl hs w' of (rs, w'') \<Rightarrow> ((fst h, r) # rs, w'')))"

text \<open>The renewals run together under one deadline; what is answered in time is only logged.\<close>

definition renew_vm_ttls ::
    "host \<Rightarrow> (string \<Rightarrow> (heyo_error, unit) result) \<Rightarrow> world \<Rightarrow> (string \<times> (dispatch_error, unit) result) list \<times> world" where
  "renew_vm_ttls H set_ttl w = renew_all H set_ttl (leased_by (ls_instance (ho_lease H)) (sy_pool (wo_sys w))) w"

definition lease_tick :: "host \<Rightarrow> (string \<Rightarrow> (heyo_error, unit) result) \<Rightarrow> nat \<Rightarrow> world \<Rightarrow> world" where
  "lease_tick H set_ttl wait w =
     (let w1 = on_pool (\<lambda>p. snd (renew_leases (ho_now H) (ho_lease H) p)) w;
          w2 = snd (renew_vm_ttls H set_ttl w1);
          w3 = on_sys (fail_jobs_waiting_for_a_runner (ho_sched H) wait) w2;
          w4 = on_sys (nudge_stalled_runs (ho_sched H)) w3
      in reclaim_pool H w4)"

section \<open>One consumer per queue\<close>

definition live_task :: "consumer_tasks \<Rightarrow> nat \<Rightarrow> bool" where
  "live_task st t \<longleftrightarrow> t < length (ct_tasks st) \<and> \<not> is_finished st t"

definition task_key :: "(route \<Rightarrow> string) \<Rightarrow> consumer_tasks \<Rightarrow> nat \<Rightarrow> string" where
  "task_key shown st t = shown (fst (ct_tasks st ! t))"

text \<open>A task that is alive is the one remembered under its key, and what is remembered is a task of that key.\<close>

definition tasks_ok :: "(route \<Rightarrow> string) \<Rightarrow> consumer_tasks \<Rightarrow> bool" where
  "tasks_ok shown st \<longleftrightarrow>
     (\<forall>t. live_task st t \<longrightarrow> ct_running st (task_key shown st t) = Some t)
     \<and> (\<forall>key t. ct_running st key = Some t \<longrightarrow> t < length (ct_tasks st) \<and> task_key shown st t = key)"

lemma ensure_consumer_ok:
  assumes "tasks_ok shown st"
  shows "tasks_ok shown (ensure_consumer shown r st)"
proof (cases "\<exists>t. ct_running st (shown r) = Some t \<and> \<not> is_finished st t")
  case True
  with assms show ?thesis by (auto simp: ensure_consumer_def Let_def)
next
  case False
  let ?st' = "st\<lparr>ct_tasks := ct_tasks st @ [(r, False)], ct_running := (ct_running st)(shown r \<mapsto> length (ct_tasks st))\<rparr>"
  have st': "ensure_consumer shown r st = ?st'"
    using False by (auto simp: ensure_consumer_def Let_def split: option.split)
  have old: "task_key shown ?st' t = task_key shown st t" "live_task ?st' t = live_task st t"
    if "t < length (ct_tasks st)" for t
    using that by (auto simp: task_key_def live_task_def is_finished_def nth_append)
  have new: "task_key shown ?st' (length (ct_tasks st)) = shown r" by (simp add: task_key_def)
  have other: "task_key shown st t \<noteq> shown r" if "live_task st t" for t
  proof
    assume "task_key shown st t = shown r"
    moreover have "ct_running st (task_key shown st t) = Some t" using assms that unfolding tasks_ok_def by blast
    ultimately show False using False that by (simp add: live_task_def)
  qed
  show ?thesis
    unfolding st' tasks_ok_def
  proof (intro conjI allI impI)
    fix t assume t: "live_task ?st' t"
    show "ct_running ?st' (task_key shown ?st' t) = Some t"
    proof (cases "t < length (ct_tasks st)")
      case True
      with t have l: "live_task st t" by (simp only: old)
      with assms have "ct_running st (task_key shown st t) = Some t" unfolding tasks_ok_def by blast
      with other [OF l] show ?thesis unfolding old(1) [OF True] by simp
    next
      case False
      with t have "t = length (ct_tasks st)" by (auto simp: live_task_def)
      then show ?thesis by (simp add: new)
    qed
  next
    fix key t assume "ct_running ?st' key = Some t"
    then have "key = shown r \<and> t = length (ct_tasks st) \<or> key \<noteq> shown r \<and> ct_running st key = Some t"
      by (auto split: if_splits)
    moreover have "t < length (ct_tasks st) \<and> task_key shown st t = key" if "ct_running st key = Some t"
      using assms that unfolding tasks_ok_def by blast
    ultimately show "t < length (ct_tasks ?st')" "task_key shown ?st' t = key"
      using new old(1) [of t] by auto
  qed
qed

lemma ensure_consumer_alive:
  assumes "tasks_ok shown st"
  shows "\<exists>t. live_task (ensure_consumer shown r st) t \<and> task_key shown (ensure_consumer shown r st) t = shown r"
proof (cases "\<exists>t. ct_running st (shown r) = Some t \<and> \<not> is_finished st t")
  case True
  with assms show ?thesis by (auto simp: ensure_consumer_def Let_def tasks_ok_def live_task_def)
next
  case False
  then have "ensure_consumer shown r st =
      st\<lparr>ct_tasks := ct_tasks st @ [(r, False)], ct_running := (ct_running st)(shown r \<mapsto> length (ct_tasks st))\<rparr>"
    by (auto simp: ensure_consumer_def Let_def split: option.split)
  then show ?thesis
    by (intro exI [of _ "length (ct_tasks st)"]) (simp add: live_task_def is_finished_def task_key_def)
qed

lemma ensure_consumer_keeps:
  "live_task st t \<Longrightarrow> live_task (ensure_consumer shown r st) t
     \<and> task_key shown (ensure_consumer shown r st) t = task_key shown st t"
  by (auto simp: ensure_consumer_def Let_def live_task_def is_finished_def task_key_def nth_append)

lemma fold_ensure:
  "tasks_ok shown st \<Longrightarrow> tasks_ok shown (fold (ensure_consumer shown) rs st)
     \<and> (\<forall>t. live_task st t \<longrightarrow> live_task (fold (ensure_consumer shown) rs st) t
          \<and> task_key shown (fold (ensure_consumer shown) rs st) t = task_key shown st t)
     \<and> (\<forall>r \<in> set rs. \<exists>t. live_task (fold (ensure_consumer shown) rs st) t
          \<and> task_key shown (fold (ensure_consumer shown) rs st) t = shown r)"
proof (induction rs arbitrary: st)
  case (Cons r rs)
  let ?st = "ensure_consumer shown r st"
  from ensure_consumer_alive [OF Cons.prems] obtain t where
    t: "live_task ?st t" "task_key shown ?st t = shown r" by blast
  note IH = Cons.IH [OF ensure_consumer_ok [OF Cons.prems, of r]]
  show ?case using IH t ensure_consumer_keeps [of st _ shown r] by (auto 0 3)
qed simp

lemma end_task_ok:
  assumes "tasks_ok shown st" "t < length (ct_tasks st)"
  shows "tasks_ok shown (end_task t st)"
proof -
  have "task_key shown (end_task t st) u = task_key shown st u" for u
    using assms(2) by (cases "u = t") (simp_all add: task_key_def end_task_def)
  moreover have "live_task (end_task t st) u \<Longrightarrow> live_task st u" for u
    using assms(2) by (cases "u = t") (simp_all add: live_task_def is_finished_def end_task_def)
  ultimately show ?thesis using assms(1) by (auto simp: tasks_ok_def) (simp_all add: end_task_def)
qed

interpretation consumers: step_invariant "\<lambda>st. st = no_tasks" "consumer_step shown" "tasks_ok shown"
  for shown
proof
  show "tasks_ok shown st" if "st = no_tasks" for st
    using that by (simp add: tasks_ok_def no_tasks_def live_task_def)
next
  fix st st' assume "tasks_ok shown st" "consumer_step shown st st'"
  then show "tasks_ok shown st'"
    by (auto elim!: consumer_stepE simp: reconcile_consumers_def fold_ensure end_task_ok)
qed

section \<open>Answers and renewals\<close>

lemma deliver_answer:
  assumes "deliver H ceiling attempt payload dropped w = (a, w')"
  shows "a = Acked \<or> attempt < MAX_DELIVER \<and> payload \<noteq> None \<and> a = Nak (backoff_for attempt)"
  using assms by (auto simp: deliver_def Let_def split: option.splits result.splits prod.splits if_splits)

lemma consume_messages_answers:
  "list_all2 (\<lambda>m a. \<exists>d. m = Ok d
       \<and> (a = Acked \<or> delivery_attempt d < MAX_DELIVER \<and> de_payload d \<noteq> None \<and> a = Nak (backoff_for (delivery_attempt d))))
     (takeWhile is_ok ms) (fst (consume_messages H ceiling ms w))"
proof (induction ms arbitrary: w)
  case (Cons m ms)
  show ?case
  proof (cases m)
    case (Ok d)
    obtain a w' where a: "deliver H ceiling (delivery_attempt d) (de_payload d) (de_dropped d) w = (a, w')" by fastforce
    with Ok Cons.IH [of w'] deliver_answer [OF a] show ?thesis by (simp add: case_prod_beta)
  qed simp
qed simp

lemma renew_one_sys: "wo_sys (snd (renew_one H set_ttl h w)) = wo_sys w"
proof -
  obtain sid runner where h: "h = (sid, runner)" by fastforce
  obtain r w' where o: "host_options H runner w = (r, w')" by fastforce
  with host_options_sys [OF o] show ?thesis by (cases r) (simp_all add: renew_one_def h)
qed

lemma renew_all_sys: "wo_sys (snd (renew_all H set_ttl hs w)) = wo_sys w"
proof (induction hs arbitrary: w)
  case (Cons h hs)
  obtain r w' where "renew_one H set_ttl h w = (r, w')" by fastforce
  with Cons.IH [of w'] renew_one_sys [of H set_ttl h w] show ?case by (simp add: case_prod_beta)
qed simp

lemma renew_all_fst: "map fst (fst (renew_all H set_ttl hs w)) = map fst hs"
  by (induction hs arbitrary: w) (simp_all add: case_prod_beta)

lemma wo_sys_on_sys [simp]: "wo_sys (on_sys f w) = f (wo_sys w)"
  by (simp add: on_sys_def)

lemma reclaim_pool_cong: "wo_sys w = wo_sys w' \<Longrightarrow> wo_sys (reclaim_pool H w) = wo_sys (reclaim_pool H w')"
  by (simp add: reclaim_pool_def Let_def)

section \<open>Properties\<close>

text \<open>C24. However the hosts come and go and whichever tasks end by themselves, no queue ever has two live
  consumers in one process, and after every tick each queue that is wanted has one.\<close>

theorem one_consumer_per_queue:
  assumes "reach (\<lambda>st. st = no_tasks) (consumer_step shown) st"
  shows "(live_task st t \<and> live_task st u \<and> task_key shown st t = task_key shown st u \<longrightarrow> t = u)
    \<and> (r \<in> set (wanted_routes shown pool) \<longrightarrow>
        (\<exists>v. live_task (reconcile_consumers shown pool st) v
           \<and> task_key shown (reconcile_consumers shown pool st) v = shown r))"
proof -
  have ok: "tasks_ok shown st" using consumers.inv_reach [OF assms] .
  then have "t = u" if "live_task st t" "live_task st u" "task_key shown st t = task_key shown st u"
    using that unfolding tasks_ok_def by (metis option.inject)
  with fold_ensure [OF ok, of "wanted_routes shown pool"] show ?thesis by (auto simp: reconcile_consumers_def)
qed

theorem one_consumer_per_queue_witness:
  "\<exists>v. live_task (reconcile_consumers show_route (sample_runners []) no_tasks) v
     \<and> task_key show_route (reconcile_consumers show_route (sample_runners []) no_tasks) v = ''Nnet-1''"
proof -
  have "RNetwork ''net-1'' \<in> set (wanted_routes show_route (sample_runners []))"
    by (simp add: wanted_routes_def sample_runners_def served_def dispatchable_def)
  moreover have "reach (\<lambda>st. st = no_tasks) (consumer_step show_route) no_tasks" by (simp add: reach_init)
  ultimately show ?thesis
    using one_consumer_per_queue [of show_route no_tasks 0 0 "RNetwork ''net-1''" "sample_runners []"]
    by (simp add: show_route_def)
qed

text \<open>C29. Every message a consumer takes off its queue is answered, in turn: with an acknowledgement, or with a
  request to deliver it again after the pause for its attempt, the latter only for a job message that
  has attempts left.\<close>

theorem every_message_answered:
  "list_all2 (\<lambda>m a. \<exists>d. m = Ok d
       \<and> (a = Acked \<or> delivery_attempt d < MAX_DELIVER \<and> de_payload d \<noteq> None \<and> a = Nak (backoff_for (delivery_attempt d))))
     (concat (map (\<lambda>t. case t of Stream ms \<Rightarrow> takeWhile is_ok ms | _ \<Rightarrow> []) turns)) (fst (consume H ceiling turns w))"
proof (induction turns arbitrary: w)
  case (Cons t ts)
  show ?case
  proof (cases t)
    case (Stream ms)
    obtain as w' where a: "consume_messages H ceiling ms w = (as, w')" by fastforce
    with Stream Cons.IH [of w'] consume_messages_answers [of ms H ceiling w] show ?thesis
      by (simp add: list_all2_appendI case_prod_beta)
  qed (use Cons.IH in simp_all)
qed simp

text \<open>A tick of the lease loop asks the daemons to let live exactly the VMs this instance runs a job on, and
  whatever they answer, the tables come out as if they had not been asked.\<close>

theorem lease_tick_renews:
  "map fst (fst (renew_vm_ttls H set_ttl w)) =
     map pv_sandbox_id (filter (\<lambda>r. pv_leased_by r = Some (ls_instance (ho_lease H)) \<and> pv_status r = Claimed) (world_pool w))
   \<and> wo_sys (lease_tick H set_ttl wait w) = wo_sys (lease_pass H wait w)"
proof -
  have "wo_sys (lease_tick H set_ttl wait w) = wo_sys (lease_pass H wait w)"
    unfolding lease_tick_def lease_pass_def Let_def renew_vm_ttls_def
    by (rule reclaim_pool_cong) (simp add: renew_all_sys)
  then show ?thesis by (simp add: renew_vm_ttls_def renew_all_fst leased_by_def comp_def)
qed

text \<open>A VM's log as it is attached to a job: every line the daemon sent, in order, after a note if it sent fewer
  than there are.\<close>

lemma vm_logs_lines:
  assumes "vm_logs vm (Ok resp) = Ok t"
  shows "\<exists>head'. t = head' @ concat (map log_line_text (lr_logs resp)) \<and> (head' = [] \<longleftrightarrow> lr_total resp \<le> length (lr_logs resp))"
  using assms by (auto simp: vm_logs_def split: if_splits)

text \<open>No consumer is a depth of its own, not an error; an unreachable stream is an error, not an idle queue.\<close>

lemma depth_outcomes:
  assumes "durable_for pre r = Ok durable"
  shows "depth pre (Err e) info r = Err (StreamErr (to_uppercase pre @ ''_JOBS'') e)"
    and "info durable = None \<Longrightarrow> depth pre (Ok ()) info r = Ok None"
  using assms by (simp_all add: depth_def)

end
