(* ===== verification/Pages.thy ===== *)
theory Pages
  imports Background
begin

text \<open>
  The pages (\<^verbatim>\<open>web/pages.rs\<close>) as trees: a text, which the template engine escapes, a text it takes as it is,
  and an element with its attributes and children. Rendering a tree is the engine's. The stylesheet, the
  printing of times and of one-decimal numbers, and the JSON printer of strings are arguments, and so
  are the dates a repository and a token were made on, which the rows do not hold. Times are in seconds.
  The main results: nothing that was submitted reaches a page unescaped, and what a page offers
  to do, the server does.
\<close>

section \<open>Markup\<close>

datatype markup = Txt string | Raw string | Elem string "(string \<times> string) list" "markup list"

abbreviation el :: "string \<Rightarrow> markup list \<Rightarrow> markup" where
  "el t cs \<equiv> Elem t [] cs"

abbreviation elc :: "string \<Rightarrow> string \<Rightarrow> markup list \<Rightarrow> markup" where
  "elc t c cs \<equiv> Elem t [(''class'', c)] cs"

abbreviation link_to :: "string \<Rightarrow> markup list \<Rightarrow> markup" where
  "link_to url cs \<equiv> Elem ''a'' [(''href'', url)] cs"

abbreviation mono :: "string \<Rightarrow> markup" where
  "mono s \<equiv> elc ''code'' ''mono'' [Txt s]"

abbreviation post_form :: "string \<Rightarrow> markup list \<Rightarrow> markup" where
  "post_form action cs \<equiv> Elem ''form'' [(''method'', ''post''), (''action'', action)] cs"

abbreviation submit_button :: "string \<Rightarrow> markup" where
  "submit_button label \<equiv> Elem ''button'' [(''type'', ''submit'')] [Txt label]"

abbreviation quiet_button :: "string \<Rightarrow> markup" where
  "quiet_button label \<equiv> Elem ''button'' [(''class'', ''quiet''), (''type'', ''submit'')] [Txt label]"

abbreviation row_form :: "string \<Rightarrow> markup list \<Rightarrow> markup" where
  "row_form action cs \<equiv> Elem ''form'' [(''class'', ''row''), (''method'', ''post''), (''action'', action)] cs"

definition shown_if :: "bool \<Rightarrow> markup list \<Rightarrow> markup list" where
  "shown_if b cs = (if b then cs else [])"

definition shown_with :: "'a option \<Rightarrow> ('a \<Rightarrow> markup list) \<Rightarrow> markup list" where
  "shown_with x f = (case x of Some v \<Rightarrow> f v | None \<Rightarrow> [])"

definition flag_attr :: "string \<Rightarrow> bool \<Rightarrow> (string \<times> string) list" where
  "flag_attr name b = (if b then [(name, [])] else [])"

definition heads :: "string list \<Rightarrow> markup" where
  "heads names = el ''thead'' [el ''tr'' (map (\<lambda>n. el ''th'' (if n = [] then [] else [Txt n])) names)]"

definition scroll_table :: "markup \<Rightarrow> markup list \<Rightarrow> markup" where
  "scroll_table head' rows = elc ''div'' ''scroll'' [el ''table'' [head', el ''tbody'' rows]]"

text \<open>The characters outside ASCII the pages use, in UTF-8.\<close>

definition MIDDOT :: string where
  "MIDDOT = [CHR '' '', CHR 0xC2, CHR 0xB7, CHR '' '']"

definition ELLIPSIS :: string where
  "ELLIPSIS = [CHR 0xE2, CHR 0x80, CHR 0xA6]"

definition WARNING :: string where
  "WARNING = [CHR 0xE2, CHR 0x9A, CHR 0xA0]"

record page_env =
  pg_app_name :: string
  pg_who :: "string option"
  pg_style :: string
  pg_now :: nat
  pg_when :: "nat \<Rightarrow> string"
  pg_repo_made :: "string \<Rightarrow> string"
  pg_token_made :: "string \<Rightarrow> string"
  pg_one_decimal :: "nat \<Rightarrow> nat \<Rightarrow> string"
  pg_json_string :: "string \<Rightarrow> string"
  pg_endpoint :: string
  pg_require_token :: bool
  pg_pattern :: string
  pg_retention_days :: "nat option"
  pg_pool :: runner_pool

definition nav_link :: "string \<Rightarrow> string \<Rightarrow> string \<Rightarrow> string \<Rightarrow> markup" where
  "nav_link current url name label =
     Elem ''a'' ([(''href'', url)] @ (if current = name then [(''class'', ''on'')] else [])) [Txt label]"

definition layout :: "page_env \<Rightarrow> string \<Rightarrow> markup list \<Rightarrow> markup list" where
  "layout P current body =
     [Raw ''<!DOCTYPE html>'',
      Elem ''html'' [(''lang'', ''en'')]
        [el ''head''
           [Elem ''meta'' [(''charset'', ''utf-8'')] [],
            Elem ''meta'' [(''name'', ''viewport''), (''content'', ''width=device-width, initial-scale=1'')] [],
            el ''title'' [Txt (pg_app_name P)],
            el ''style'' [Raw (pg_style P)]],
         el ''body''
           [el ''header''
              ([el ''h1'' [Txt (pg_app_name P)],
                el ''nav''
                  [nav_link current ''/'' ''runs'' ''Runs'',
                   nav_link current ''/networks'' ''networks'' ''Networks'',
                   nav_link current ''/workflows'' ''workflows'' ''Workflows'',
                   nav_link current ''/vms'' ''vms'' ''VMs'',
                   nav_link current ''/repos'' ''repos'' ''Repositories'']]
               @ shown_with (pg_who P) (\<lambda>who. [elc ''span'' ''who'' [Txt who]])),
            el ''main'' body]]]"

section \<open>Small parts\<close>

definition pill :: "string \<Rightarrow> markup" where
  "pill status = elc ''span'' (''pill '' @ status) [Txt status]"

definition status_pill :: "runner_status \<Rightarrow> markup" where
  "status_pill st = elc ''span'' (''pill '' @ runner_status_str st) [Txt (runner_status_str st)]"

definition meta_span :: "markup list \<Rightarrow> markup" where
  "meta_span cs = elc ''span'' ''meta'' cs"

fun step_status_str :: "step_status \<Rightarrow> string" where
  "step_status_str SPending = ''pending''"
| "step_status_str SRunning = ''running''"
| "step_status_str SSuccess = ''success''"
| "step_status_str SFailure = ''failure''"
| "step_status_str SSkipped = ''skipped''"

fun vm_status_str :: "vm_status \<Rightarrow> string" where
  "vm_status_str Building = ''building''"
| "vm_status_str Idle = ''idle''"
| "vm_status_str Claimed = ''claimed''"
| "vm_status_str Draining = ''draining''"

fun image_status_str :: "image_status \<Rightarrow> string" where
  "image_status_str ImgBuilding = ''building''"
| "image_status_str ImgReady = ''ready''"
| "image_status_str ImgFailed = ''failed''"

text \<open>\<^verbatim>\<open>{:02}\<close> of a number below a hundred.\<close>

definition two_digits :: "nat \<Rightarrow> string" where
  "two_digits n = pad_left 2 (CHR ''0'') (nat_str n)"

text \<open>A duration in milliseconds.\<close>

definition human_duration :: "nat \<Rightarrow> string" where
  "human_duration ms =
     (let secs = ms div 1000 in
      if 3600 \<le> secs then nat_str (secs div 3600) @ ''h '' @ two_digits (secs mod 3600 div 60) @ ''m''
      else if 60 \<le> secs then nat_str (secs div 60) @ ''m '' @ two_digits (secs mod 60) @ ''s''
      else if 0 < secs then nat_str secs @ ''.'' @ nat_str (ms mod 1000 div 100) @ ''s''
      else nat_str ms @ ''ms'')"

text \<open>The time between two instants, if it is not negative.\<close>

definition between :: "nat \<Rightarrow> nat \<Rightarrow> nat option" where
  "between begun end' = (if begun \<le> end' then Some ((end' - begun) * 1000) else None)"

definition run_duration :: "page_env \<Rightarrow> run_row \<Rightarrow> nat option" where
  "run_duration P r =
     Option.bind (rn_started_at r) (\<lambda>begun. between begun (unwrap_or (pg_now P) (rn_finished_at r)))"

definition short :: "string \<Rightarrow> nat \<Rightarrow> string" where
  "short s n = take n s"

definition short_ref :: "string \<Rightarrow> string" where
  "short_ref r = unwrap_or r (strip_prefix ''refs/heads/'' r)"

definition short_job :: "string \<Rightarrow> string" where
  "short_job j = (case rsplit_once (CHR ''.'') j of Some (_, key) \<Rightarrow> key | None \<Rightarrow> j)"

definition workflow_label :: "string \<Rightarrow> string" where
  "workflow_label i = (if trim i = [] then ''(unnamed)'' else i)"

definition run_title :: "run_row \<Rightarrow> string" where
  "run_title r =
     (case rn_workflow_name r of
        Some n \<Rightarrow> if trim n \<noteq> [] then n else workflow_label (rn_workflow_id r)
      | None \<Rightarrow> workflow_label (rn_workflow_id r))"

definition UNITS :: "string list" where
  "UNITS = [''B'', ''KiB'', ''MiB'', ''GiB'']"

text \<open>How often 1024 goes into a size, three times at most. The quotients are exact in binary64.\<close>

fun unit_of :: "nat \<Rightarrow> nat \<Rightarrow> nat" where
  "unit_of n 0 = 0"
| "unit_of n (Suc k) = (if 1024 \<le> n then Suc (unit_of (n div 1024) k) else 0)"

definition human_bytes :: "page_env \<Rightarrow> nat \<Rightarrow> string" where
  "human_bytes P n =
     (let u = unit_of n (length UNITS - 1) in
      if u = 0 then nat_str n @ '' B'' else pg_one_decimal P n (1024 ^ u) @ '' '' @ UNITS ! u)"

definition job_needs :: "job_row \<Rightarrow> string" where
  "job_needs j = (let needs = join '', '' (jp_needs (jr_plan j)) in if needs = [] then DASH else needs)"

definition job_duration :: "page_env \<Rightarrow> job_row \<Rightarrow> string" where
  "job_duration P j =
     (case jr_started_at j of
        None \<Rightarrow> DASH
      | Some begun \<Rightarrow>
          (case between begun (unwrap_or (pg_now P) (jr_finished_at j)) of Some d \<Rightarrow> human_duration d | None \<Rightarrow> DASH))"

definition step_duration :: "page_env \<Rightarrow> step_row \<Rightarrow> string" where
  "step_duration P s =
     (case sr_started_at s of
        None \<Rightarrow> []
      | Some begun \<Rightarrow>
          (case between begun (unwrap_or (pg_now P) (sr_finished_at s)) of Some d \<Rightarrow> human_duration d | None \<Rightarrow> []))"

text \<open>\<^verbatim>\<open>%{b:02X}\<close> for every byte but the unreserved ones.\<close>

definition upper_hex :: "nat \<Rightarrow> char" where
  "upper_hex d = char_of (if d < 10 then 48 + d else 55 + d)"

definition urlencode :: "string \<Rightarrow> string" where
  "urlencode s =
     concat (map (\<lambda>c. if is_unreserved c then [c]
                      else [CHR ''%'', upper_hex (of_char c div 16), upper_hex (of_char c mod 16)]) s)"

definition notices :: "flash \<Rightarrow> markup list" where
  "notices f =
     (case f of FlashFailed err \<Rightarrow> [elc ''div'' ''banner'' [Txt err]] | FlashDone ok \<Rightarrow> [elc ''div'' ''notice'' [Txt ok]] | _ \<Rightarrow> [])"

section \<open>Networks\<close>

definition queue_cell :: "queue_depths \<Rightarrow> string \<Rightarrow> bool \<Rightarrow> markup" where
  "queue_cell q key dispatchable' =
     (case qs_by_route q key of
        Some None \<Rightarrow>
          if dispatchable' then elc ''span'' ''pill failure'' [Txt ''no consumer''] else meta_span [Txt ''no consumer'']
      | Some (Some d) \<Rightarrow>
          if depth_is_empty d then meta_span [Txt ''idle'']
          else elc ''span'' ''mono''
                 ([Txt (nat_str (qd_waiting d)), Txt '' queued'']
                  @ shown_if (0 < qd_in_flight d) [Txt '', '', Txt (nat_str (qd_in_flight d)), Txt '' running''])
      | None \<Rightarrow> meta_span [Txt DASH])"

definition runner_rows_marking :: "runner list \<Rightarrow> string \<Rightarrow> queue_depths \<Rightarrow> markup list" where
  "runner_rows_marking runners this_host q =
     map (\<lambda>r. el ''tr''
        [el ''td'' ([Txt (ru_name r)]
           @ shown_if (this_host \<noteq> [] \<and> ru_id r = this_host)
               [Txt '' '', elc ''span'' ''pill queued'' [Txt ''this host'']]),
         elc ''td'' ''mono'' [Txt (ru_id r)],
         el ''td'' [status_pill (ru_status r)],
         el ''td'' [queue_cell q (ru_id r) (is_dispatchable (ru_status r))],
         elc ''td'' ''mono'' [Txt (unwrap_or DASH (ru_last_seen_at r))]]) runners"

definition runner_rows :: "runner list \<Rightarrow> markup list" where
  "runner_rows runners = runner_rows_marking runners [] \<lparr>qs_by_route = Map.empty, qs_error = None\<rparr>"

definition runner_table :: "runner list \<Rightarrow> markup" where
  "runner_table runners = scroll_table (heads [''Name'', ''Daemon'', ''Status'', ''Last seen'']) (runner_rows runners)"

definition network_section :: "runner_set \<Rightarrow> string \<Rightarrow> string \<Rightarrow> queue_depths \<Rightarrow> markup" where
  "network_section n default_id this_host q =
     (let joined = this_host \<noteq> [] \<and> list_ex (\<lambda>r. ru_id r = this_host) (ns_runners n) in
      elc ''div'' ''repo''
        ([elc ''div'' ''head''
            ([el ''h3'' [Txt (ns_network_name n)],
              (if ns_served n then elc ''span'' ''pill success'' [Txt ''serving'']
               else elc ''span'' ''pill cancelled'' [Txt ''not served''])]
             @ shown_if (ns_network_id n = default_id) [elc ''span'' ''pill queued'' [Txt ''default'']]
             @ shown_if (ns_is_default n) [meta_span [Txt ''heyvm default'']]
             @ shown_if (this_host \<noteq> [] \<and> \<not> joined)
                 [post_form (''/networks/'' @ ns_network_id n @ ''/join'') [submit_button ''Add this host'']]),
          elc ''p'' ''meta''
            ([mono (ns_network_id n), Txt MIDDOT, Txt (nat_str (length (dispatchable n))), Txt '' of '',
              Txt (nat_str (length (ns_runners n))), Txt '' host(s) can take work'']
             @ shown_if (ns_served n)
                 [Txt (MIDDOT @ ''unpinned queue: ''), queue_cell q (ns_network_id n) (0 < length (dispatchable n))]),
          (if ns_runners n = [] then
             elc ''p'' ''empty''
               [Txt ''No host has joined this network. Add this machine with the button above, or on another machine run '',
                mono ''heyvmd'', Txt '' and then '', mono ''heyvm network add-host'', Txt ''.'']
           else
             scroll_table (heads [''Name'', ''Daemon'', ''Status'', ''Queue'', ''Last seen''])
               (runner_rows_marking (ns_runners n) this_host q))]
         @ shown_if (\<not> ns_served n)
             [elc ''p'' ''meta''
                [Txt ''This orchestrator does not take work for this network, so a repository assigned to it would have its submits refused. Add it to '',
                 mono ''CI_NETWORK'', Txt '', or set '', mono ''CI_NETWORK=*'', Txt ''.'']]))"

definition pool_banners :: "runner_pool \<Rightarrow> queue_depths \<Rightarrow> markup list" where
  "pool_banners pool q =
     shown_with (po_last_error pool) (\<lambda>err.
       [elc ''div'' ''banner'' [el ''strong'' [Txt ''The runner pool is stale. ''], Txt err]])
     @ shown_with (qs_error q) (\<lambda>err.
         [elc ''div'' ''banner'' [el ''strong'' [Txt ''Queue depths are unavailable. ''], Txt err]])
     @ shown_if (po_default_node_id pool = [])
         [elc ''div'' ''banner''
            [el ''strong'' [Txt ''This machine's daemon could not be identified. ''],
             Txt ''So '', mono ''uses: default'',
             Txt '' is refused, and there is no host to add to a network from here. Set '',
             mono ''CI_DEFAULT_NODE'',
             Txt ('' to its daemon id or name '' @ DASH
               @ '' heyvmd reports its own id only when BACKEND_SERVER_ID is set in its environment.'')]]"

definition networks_page_html :: "page_env \<Rightarrow> runner_pool \<Rightarrow> queue_depths \<Rightarrow> flash \<Rightarrow> markup list" where
  "networks_page_html P pool q fl =
     layout P ''networks''
       (notices fl @ pool_banners pool q
        @ [el ''section''
             ([el ''h2'' [Txt ''Networks''],
               elc ''p'' ''sub''
                 [Txt ''Every heyvm network on this account. '', Txt (nat_str (length (served pool))), Txt '' of '',
                  Txt (nat_str (length (po_networks pool))),
                  Txt ('' are served by this orchestrator '' @ DASH
                    @ '' a job may only run in one that is, and a repository is assigned one on ''),
                  link_to ''/repos'' [Txt ''Repositories''], Txt ''.'']]
              @ shown_if (po_networks pool = [])
                  [elc ''p'' ''empty''
                     [Txt ''This account has no network. Create one with '', mono ''heyvm network create'',
                      Txt '', then join a host to it with '', mono ''heyvm network add-host'', Txt ''.'']]
              @ map (\<lambda>n. network_section n (po_default_network_id pool) (po_default_node_id pool) q) (po_networks pool))]
        @ shown_if (po_unjoined pool \<noteq> [])
            [el ''section''
               [el ''h2'' [Txt ''Registered but in no network''],
                elc ''p'' ''sub''
                  [Txt ''These daemons belong to this account but have joined no network at all, so nothing can dispatch to them. Add one with '',
                   mono ''heyvm network add-host'', Txt ''.''],
                runner_table (po_unjoined pool)]])"

section \<open>VMs and images\<close>

definition counted_twice :: "vm_row list \<Rightarrow> vm_row \<Rightarrow> bool" where
  "counted_twice vms v \<longleftrightarrow>
     1 < length (filter (\<lambda>u. pv_status u \<noteq> Building \<and> pv_runner_hd_id u = pv_runner_hd_id v
                            \<and> pv_fingerprint u = pv_fingerprint v) vms)"

definition idle_failed :: "(vm_row \<times> (string \<times> run_status) option) list \<Rightarrow> nat" where
  "idle_failed vms =
     length (filter (\<lambda>(v, latest). pv_status v = Idle
        \<and> (case latest of Some (_, st) \<Rightarrow> st \<in> {RFailure, RCancelled} | None \<Rightarrow> False)) vms)"

definition vm_html :: "page_env \<Rightarrow> vm_row list \<Rightarrow> vm_row \<times> (string \<times> run_status) option \<Rightarrow> markup" where
  "vm_html P vms = (\<lambda>(v, latest).
     el ''tr''
       [elc ''td'' ''mono''
          ([(if pv_status v = Building then meta_span [Txt (''creating'' @ ELLIPSIS)] else Txt (pv_sandbox_id v))]
           @ shown_if (trim (pv_workflow_id v) \<noteq> []) [meta_span [Txt '' '', Txt (pv_workflow_id v)]]),
        elc ''td'' ''mono'' [Txt (pv_runner_hd_id v)],
        elc ''td'' ''mono''
          ([Txt (short (pv_fingerprint v) 12)]
           @ shown_if (counted_twice vms v) [Txt '' '', elc ''span'' ''pill failure'' [Txt ''not reused'']]),
        el ''td''
          ([pill (vm_status_str (pv_status v))]
           @ shown_if (pv_status v = Claimed \<and> pv_leased_by v \<noteq> None) [meta_span [Txt '' held'']]),
        el ''td''
          ([(case latest of
               Some (i, st) \<Rightarrow> link_to (''/runs/'' @ i) [pill (run_status_str st)]
             | None \<Rightarrow> meta_span [Txt DASH])]
           @ shown_with (coalesce (pv_claimed_by_job v) (pv_last_job v)) (\<lambda>j. [meta_span [Txt '' '', Txt (short_job j)]])),
        elc ''td'' ''mono''
          [Txt (case between (pv_created_at v) (pg_now P) of Some d \<Rightarrow> human_duration d | None \<Rightarrow> DASH)],
        elc ''td'' ''mono'' [Txt (pg_when P (pv_last_used_at v))],
        el ''td''
          (shown_if (pv_status v \<notin> {Claimed, Building})
             [post_form (''/vms/'' @ pv_sandbox_id v @ ''/destroy'') [quiet_button ''Destroy'']])])"

definition image_html :: "page_env \<Rightarrow> image_row \<Rightarrow> markup" where
  "image_html P i =
     el ''tr''
       [elc ''td'' ''mono'' [Txt (im_name i)],
        elc ''td'' ''mono'' [Txt (im_runner_hd_id i)],
        el ''td''
          ([pill (image_status_str (im_status i))] @ shown_with (im_error i) (\<lambda>err. [elc ''div'' ''meta'' [Txt err]])),
        elc ''td'' ''mono'' [Txt (im_workflow_id i)],
        elc ''td'' ''mono'' [if 0 < im_size_bytes i then Txt (human_bytes P (im_size_bytes i)) else meta_span [Txt DASH]],
        elc ''td'' ''mono''
          [Txt (case im_ready_at i of
                  Some t \<Rightarrow> pg_when P t
                | None \<Rightarrow> ''building for ''
                    @ (case between (im_created_at i) (pg_now P) of Some d \<Rightarrow> human_duration d | None \<Rightarrow> DASH))]]"

definition vms_section :: "page_env \<Rightarrow> (vm_row \<times> (string \<times> run_status) option) list \<Rightarrow> markup" where
  "vms_section P vms =
     el ''section''
       ([el ''h2'' [Txt ''Warm VMs''],
         elc ''p'' ''sub''
           [Txt (''Every VM this orchestrator has pooled, on the hosts it serves. A job reuses one when its fingerprint matches ''
              @ DASH @ '' so two rows with the same fingerprint on the same host means reuse did not happen.'')]]
        @ shown_if (0 < idle_failed vms)
            [post_form ''/vms/cleanup-failed''
               [Elem ''button'' [(''type'', ''submit'')]
                  [Txt ''Destroy '', Txt (nat_str (idle_failed vms)), Txt '' idle VM(s) left by failed runs'']]]
        @ [if vms = [] then
             elc ''p'' ''empty''
               [Txt (''Nothing is pooled. A VM appears here as soon as a job starts building one '' @ DASH
                  @ '' if a run is going and this is empty, no job has reached a runner yet, and the run's own page says why.'')]
           else
             scroll_table
               (heads [''VM'', ''Host'', ''Fingerprint'', ''Status'', ''Last run'', ''Age'', ''Last used'', []])
               (map (vm_html P (map fst vms)) vms)])"

definition images_section :: "page_env \<Rightarrow> image_table \<Rightarrow> markup" where
  "images_section P images =
     el ''section''
       [el ''h2'' [Txt ''Images''],
        elc ''p'' ''sub''
          [Txt ''Rootfs images built from a workflow's '', el ''code'' [Txt ''vm.build''],
           Txt ('' Dockerfile, one row per host that has one. The name is the hash of the Dockerfile and its build context, so an unchanged one is reused and any change builds a new image. Unlike a warm VM these survive a reboot, and nothing sweeps them ''
             @ DASH @ '' remove one on the host to force a rebuild.'')],
        (if images = [] then
           elc ''p'' ''empty''
             [Txt ''No image has been built. A workflow with a '', el ''code'' [Txt ''vm.build''],
              Txt '' block builds one the first time it runs on a host.'']
         else
           scroll_table (heads [''Image'', ''Host'', ''Status'', ''Workflow'', ''Size'', ''Built''])
             (map (image_html P) images))]"

definition vms_page_html ::
    "page_env \<Rightarrow> (vm_row \<times> (string \<times> run_status) option) list \<Rightarrow> image_table \<Rightarrow> flash \<Rightarrow> markup list" where
  "vms_page_html P vms images fl = layout P ''vms'' (notices fl @ [vms_section P vms, images_section P images])"

section \<open>Runs\<close>

definition repo_option :: "string option \<Rightarrow> repo_row \<Rightarrow> markup" where
  "repo_option repo_filter r =
     Elem ''option'' ([(''value'', rp_id r)] @ flag_attr ''selected'' (repo_filter = Some (rp_id r))) [Txt (rp_name r)]"

text \<open>The join of a run with its repository that the statement behind the page makes.\<close>

definition repo_name_of :: "repo_row list \<Rightarrow> run_row \<Rightarrow> string option" where
  "repo_name_of rps r = Option.bind (rn_repo_id r) (\<lambda>i. map_option rp_name (find (\<lambda>p. rp_id p = i) rps))"

definition run_html :: "page_env \<Rightarrow> repo_row list \<Rightarrow> run_row \<Rightarrow> markup" where
  "run_html P rps r =
     elc ''tr'' ''link''
       [el ''td'' [Elem ''a'' [(''class'', ''row''), (''href'', ''/runs/'' @ rn_id r)] [Txt (run_title r)]],
        el ''td'' [case (rn_repo_id r, repo_name_of rps r) of
                     (Some i, Some name) \<Rightarrow> link_to (''/?repo='' @ i) [Txt name]
                   | _ \<Rightarrow> Txt DASH],
        el ''td'' [Txt (short_ref (rn_git_ref r))],
        elc ''td'' ''mono'' [Txt (short (rn_sha r) 12)],
        el ''td'' [pill (run_status_str (rn_status r))],
        el ''td'' [Txt (case run_duration P r of Some d \<Rightarrow> human_duration d | None \<Rightarrow> DASH)],
        elc ''td'' ''mono'' [Txt (pg_when P (rn_created_at r))],
        el ''td'' [Txt (unwrap_or DASH (rn_actor_email r))]]"

definition no_runs :: "repo_row list \<Rightarrow> string option \<Rightarrow> markup" where
  "no_runs rps repo_filter =
     (case repo_filter of
        Some i \<Rightarrow>
          elc ''p'' ''empty''
            [Txt ''No runs for '',
             (case find (\<lambda>p. rp_id p = i) rps of
                Some p \<Rightarrow> el ''strong'' [Txt (rp_name p)]
              | None \<Rightarrow> Txt ''that repository''),
             Txt '' yet. '', link_to ''/'' [Txt ''Show all runs''], Txt ''.'']
      | None \<Rightarrow>
          elc ''p'' ''empty''
            [Txt ''Nothing has been submitted yet. Register a repository on '',
             link_to ''/repos'' [Txt ''Repositories''],
             Txt '' for a token, then from a clone with '', mono ''.ci/workflows/*.yml'', Txt '' run '', mono ''git submit'',
             Txt ''.''])"

definition runs_page_html :: "page_env \<Rightarrow> run_row list \<Rightarrow> repo_row list \<Rightarrow> string option \<Rightarrow> markup list" where
  "runs_page_html P rs rps repo_filter =
     layout P ''runs''
       [el ''section''
          ([el ''h2'' [Txt ''Runs'']]
           @ shown_if (rps \<noteq> [])
               [Elem ''form'' [(''class'', ''row''), (''method'', ''get''), (''action'', ''/'')]
                  [Elem ''select'' [(''name'', ''repo'')]
                     (Elem ''option'' ([(''value'', [])] @ flag_attr ''selected'' (repo_filter = None))
                        [Txt ''All repositories'']
                      # map (repo_option repo_filter) rps),
                   submit_button ''Filter'']]
           @ [if rs = [] then no_runs rps repo_filter
              else scroll_table
                     (heads [''Workflow'', ''Repository'', ''Ref'', ''Commit'', ''Status'', ''Duration'', ''Started'', ''By''])
                     (map (run_html P rps) rs)])]"

section \<open>One run\<close>

definition run_section :: "page_env \<Rightarrow> run_row \<Rightarrow> markup" where
  "run_section P r =
     el ''section''
       ([elc ''h1'' ''page'' [Txt (run_title r), Txt '' '', pill (run_status_str (rn_status r))],
         elc ''p'' ''meta''
           ([mono (short (rn_sha r) 12), Txt '' on '', mono (short_ref (rn_git_ref r))]
            @ shown_with (rn_actor_email r) (\<lambda>by'. [Txt MIDDOT, Txt by'])
            @ shown_with (run_duration P r) (\<lambda>d. [Txt MIDDOT, Txt (human_duration d)])
            @ [Txt MIDDOT, mono (rn_workflow_path r)])]
        @ shown_with (rn_error r) (\<lambda>err. [elc ''div'' ''banner'' [Txt err]])
        @ shown_if (rn_status r \<notin> {RSuccess, RFailure, RCancelled})
            [post_form (''/runs/'' @ rn_id r @ ''/cancel'') [submit_button ''Cancel this run''],
             elc ''p'' ''meta''
               [Txt (''Queued jobs are dropped and running ones stop after their current step '' @ DASH
                  @ '' a step already executing cannot be aborted.'')]])"

definition job_html :: "page_env \<Rightarrow> run_row \<Rightarrow> job_row \<Rightarrow> markup" where
  "job_html P r j =
     elc ''tr'' ''link''
       [el ''td'' [Elem ''a'' [(''class'', ''row''), (''href'', ''/runs/'' @ rn_id r @ ''/jobs/'' @ jr_job_key j)]
                     [Txt (jr_display j)]],
        el ''td'' [pill (job_status_str (jr_status j))],
        el ''td'' [Txt (unwrap_or DASH (jr_runner_hd_id j))],
        elc ''td'' ''mono'' [Txt (unwrap_or DASH (jr_sandbox_id j))],
        elc ''td'' ''mono'' [Txt (job_needs j)],
        el ''td'' [Txt (job_duration P j)]]"

definition jobs_section :: "page_env \<Rightarrow> run_row \<Rightarrow> job_row list \<Rightarrow> markup" where
  "jobs_section P r jobs =
     el ''section''
       (el ''h2'' [Txt ''Jobs'']
        # (if jobs = [] then [elc ''p'' ''empty'' [Txt ''This run planned no jobs.'']]
           else scroll_table (heads [''Job'', ''Status'', ''Runner'', ''VM'', ''Needs'', ''Duration''])
                  (map (job_html P r) jobs)
                # concat (map (\<lambda>j. shown_with (jr_error j) (\<lambda>err.
                    [elc ''div'' ''banner'' [el ''strong'' [Txt (jr_display j), Txt '': ''], Txt err]])) jobs)))"

definition vm_log_html :: "string \<times> string option \<Rightarrow> markup" where
  "vm_log_html = (\<lambda>(job_key, log).
     elc ''details'' ''step''
       [el ''summary''
          (elc ''span'' ''grow'' [Txt job_key] # shown_if (log = None) [meta_span [Txt ''no longer retained'']]),
        (case log of
           Some b \<Rightarrow> elc ''pre'' ''log'' [Txt b]
         | None \<Rightarrow> elc ''p'' ''empty''
             [Txt ''This log has been discarded. Step results are kept; only the bytes age out.''])])"

definition vm_logs_section :: "page_env \<Rightarrow> (string \<times> string option) list \<Rightarrow> markup" where
  "vm_logs_section P logs =
     el ''section''
       ([el ''h2'' [Txt ''VM logs''],
         elc ''p'' ''sub''
           (Txt (''Each job's machine, as its daemon saw it '' @ DASH
               @ '' boot and console output, captured before the VM was released.'')
            # shown_with (pg_retention_days P) (\<lambda>days.
                [Txt '' Discarded after '', Txt (nat_str days), Txt '' day'', Txt (if days = 1 then [] else ''s''), Txt ''.'']))]
        @ map vm_log_html logs)"

definition artifact_html :: "page_env \<Rightarrow> artifact_row \<Rightarrow> markup" where
  "artifact_html P a =
     el ''tr'' [el ''td'' [Txt (ar_name a)], el ''td'' [Txt (ar_sink a)], el ''td'' [Txt (human_bytes P (ar_size_bytes a))],
                elc ''td'' ''mono'' [Txt (ar_uri a)]]"

definition run_page_html ::
    "page_env \<Rightarrow> run_row \<Rightarrow> job_row list \<Rightarrow> artifact_row list \<Rightarrow> (string \<times> string option) list \<Rightarrow> markup list" where
  "run_page_html P r jobs arts logs =
     layout P ''runs''
       ([run_section P r, jobs_section P r jobs]
        @ shown_if (logs \<noteq> []) [vm_logs_section P logs]
        @ shown_if (arts \<noteq> [])
            [el ''section''
               [el ''h2'' [Txt ''Artifacts''],
                scroll_table (heads [''Name'', ''Sink'', ''Size'', ''Location'']) (map (artifact_html P) arts)]])"

section \<open>One job\<close>

definition job_section :: "run_row \<Rightarrow> job_row \<Rightarrow> markup" where
  "job_section r j =
     el ''section''
       ([elc ''h1'' ''page'' [Txt (jr_display j), Txt '' '', pill (job_status_str (jr_status j))],
         elc ''p'' ''meta''
           ([link_to (''/runs/'' @ rn_id r) [Txt (unwrap_or (rn_workflow_id r) (rn_workflow_name r))],
             Txt MIDDOT, mono (short (rn_sha r) 12)]
            @ shown_with (jr_runner_hd_id j) (\<lambda>x. [Txt (MIDDOT @ ''runner ''), mono x])
            @ shown_with (jr_sandbox_id j) (\<lambda>x. [Txt (MIDDOT @ ''vm ''), mono x])
            @ shown_with (jr_fingerprint j) (\<lambda>x. [Txt (MIDDOT @ ''fingerprint ''), mono x])
            @ shown_if (1 < jr_attempt j) [Txt (MIDDOT @ ''attempt ''), Txt (int_str (jr_attempt j))])]
        @ shown_with (jr_error j) (\<lambda>err. [elc ''div'' ''banner'' [Txt err]]))"

definition step_html :: "page_env \<Rightarrow> step_row \<times> string \<Rightarrow> markup" where
  "step_html P = (\<lambda>(s, log).
     Elem ''details'' ([(''class'', ''step'')] @ flag_attr ''open'' (sr_status s = SFailure))
       [el ''summary''
          ([elc ''span'' ''grow'' [Txt (sr_name s)]]
           @ shown_with (sr_exit_code s) (\<lambda>code. shown_if (code \<noteq> 0) [meta_span [Txt ''exit '', Txt (int_str code)]])
           @ [meta_span [Txt (step_duration P s)], pill (step_status_str (sr_status s))]),
        Elem ''pre'' [(''class'', ''log''), (''id'', ''log-'' @ int_str (sr_idx s))] [Txt log]])"

definition stream_url :: "string \<Rightarrow> string \<Rightarrow> string \<Rightarrow> string" where
  "stream_url run_id job_key token =
     ''/api/stream/'' @ urlencode run_id @ ''/'' @ urlencode job_key @ ''?token='' @ urlencode token"

text \<open>The one script, before and after the address of the stream.\<close>

definition SCRIPT_OPEN :: string where
  "SCRIPT_OPEN = NL # ''(function () {'' @ NL # ''  var es = new EventSource(''"

definition SCRIPT_CLOSE :: string where
  "SCRIPT_CLOSE = join [NL]
     ['');'',
      ''  es.addEventListener(\"log\", function (e) {'',
      ''    var d = JSON.parse(e.data);'',
      ''    var pre = document.getElementById(\"log-\" + d.idx);'',
      ''    if (!pre) { location.reload(); return; }'',
      ''    var atBottom = pre.scrollTop + pre.clientHeight >= pre.scrollHeight - 32;'',
      ''    pre.appendChild(document.createTextNode(d.text));'',
      ''    if (atBottom) pre.scrollTop = pre.scrollHeight;'',
      ''  });'',
      ''  es.addEventListener(\"done\", function () { es.close(); location.reload(); });'',
      ''  es.onerror = function () { es.close(); };'',
      ''})();'', []]"

definition live_log_script :: "page_env \<Rightarrow> string \<Rightarrow> string \<Rightarrow> string \<Rightarrow> markup" where
  "live_log_script P run_id job_key token =
     el ''script'' [Raw (SCRIPT_OPEN @ pg_json_string P (stream_url run_id job_key token) @ SCRIPT_CLOSE)]"

definition job_page_html ::
    "page_env \<Rightarrow> run_row \<Rightarrow> job_row \<Rightarrow> (step_row \<times> string) list \<Rightarrow> string option \<Rightarrow> markup list" where
  "job_page_html P r j steps stream_token =
     layout P ''runs''
       ([job_section r j,
         Elem ''section'' [(''id'', ''steps'')]
           (shown_if (steps = []) [elc ''p'' ''empty'' [Txt ''This job has not started any steps yet.'']]
            @ map (step_html P) steps)]
        @ shown_with stream_token (\<lambda>token. [live_log_script P (rn_id r) (jr_job_key j) token]))"

section \<open>Workflows and repositories\<close>

definition workflow_html :: "page_env \<Rightarrow> string \<times> run_row option \<Rightarrow> markup" where
  "workflow_html P = (\<lambda>(i, latest).
     el ''tr''
       [el ''td'' [Txt (workflow_label i)],
        el ''td'' [case latest of
                     Some r \<Rightarrow> link_to (''/runs/'' @ rn_id r) [pill (run_status_str (rn_status r))]
                   | None \<Rightarrow> meta_span [Txt ''never'']],
        elc ''td'' ''mono'' [Txt (case latest of Some r \<Rightarrow> pg_when P (rn_created_at r) | None \<Rightarrow> DASH)]])"

definition workflows_page_html :: "page_env \<Rightarrow> (string \<times> run_row option) list \<Rightarrow> markup list" where
  "workflows_page_html P workflows =
     layout P ''workflows''
       [el ''section''
          [el ''h2'' [Txt ''Workflows''],
           elc ''p'' ''sub'' [Txt ''Discovered from submitted trees matching '', mono (pg_pattern P), Txt ''.''],
           (if workflows = [] then
              elc ''p'' ''empty''
                [Txt ''Nothing has been submitted yet, so no workflow is known. Run '', mono ''git submit'',
                 Txt '' from a repository that has one.'']
            else scroll_table (heads [''Workflow'', ''Last run'', ''When'']) (map (workflow_html P) workflows))]]"

definition setup_lines :: "string \<Rightarrow> string \<Rightarrow> string" where
  "setup_lines endpoint token = ''git config ci.endpoint '' @ endpoint @ NL # ''git config ci.token '' @ token"

definition network_options :: "runner_pool \<Rightarrow> string option \<Rightarrow> markup list" where
  "network_options pool selected =
     Elem ''option'' ([(''value'', [])] @ flag_attr ''selected'' (selected = None))
       [Txt ''Default ('',
        Txt (case default_set pool of Some n \<Rightarrow> ns_network_name n | None \<Rightarrow> ''none resolved''), Txt '')'']
     # map (\<lambda>n. Elem ''option''
           ([(''value'', ns_network_name n)]
            @ flag_attr ''selected'' (case selected of Some s \<Rightarrow> network_matches n s | None \<Rightarrow> False))
           (Txt (ns_network_name n)
            # shown_if (length (dispatchable n) = 0) [Txt ('' '' @ DASH @ '' no host online'')])) (served pool)"

definition token_html :: "page_env \<Rightarrow> token_row \<Rightarrow> markup" where
  "token_html P t =
     el ''tr''
       [elc ''td'' ''mono'' [Txt (tk_id t)],
        el ''td''
          (Txt (if tk_name t = [] then DASH else tk_name t)
           # shown_with (tk_created_email t) (\<lambda>by'. [meta_span [Txt (MIDDOT @ ''minted by ''), Txt by']])),
        elc ''td'' ''mono'' [Txt (pg_token_made P (tk_id t))],
        elc ''td'' ''mono'' [Txt (case tk_last_used_at t of Some at \<Rightarrow> pg_when P at | None \<Rightarrow> ''never'')],
        el ''td''
          [if tk_revoked_at t = None then elc ''span'' ''pill success'' [Txt ''active'']
           else elc ''span'' ''pill cancelled'' [Txt ''revoked'']],
        el ''td''
          (shown_if (tk_revoked_at t = None)
             [post_form (''/repos/'' @ tk_repo_id t @ ''/tokens/'' @ tk_id t @ ''/revoke'') [quiet_button ''Revoke'']])]"

definition token_rows :: "page_env \<Rightarrow> token_row list \<Rightarrow> markup list" where
  "token_rows P tokens = map (token_html P) tokens"

definition minted_notice :: "page_env \<Rightarrow> flash \<Rightarrow> markup list" where
  "minted_notice P fl =
     (case fl of
        FlashMinted repo_name token \<Rightarrow>
          [elc ''div'' ''notice''
             [el ''strong'' [Txt ''A new submit token for '', Txt repo_name, Txt ''.''],
              Txt ('' This is the only time it is shown '' @ DASH
                @ '' nothing here stores it, only its digest. Run these two lines in a clone of that repository:''),
              elc ''pre'' ''secret'' [Txt (setup_lines (pg_endpoint P) token)],
              Txt ''Then '', mono ''git submit'', Txt '' builds it.'']]
      | _ \<Rightarrow> [])"

abbreviation text_input :: "string \<Rightarrow> string \<Rightarrow> markup" where
  "text_input name placeholder \<equiv>
     Elem ''input'' [(''type'', ''text''), (''name'', name), (''placeholder'', placeholder)] []"

definition register_section :: "page_env \<Rightarrow> markup" where
  "register_section P =
     el ''section''
       [el ''h2'' [Txt ''Repositories''],
        elc ''p'' ''sub''
          (Txt ''A registered repository submits with its own tokens, each revocable on its own. The token says which repository a submit is for, so one repository's credential cannot start a build of another's workflow.''
           # (if pg_require_token P then
                [Txt '' '', el ''strong'' [Txt ''CI_REQUIRE_REPO_TOKEN is set''], Txt '', so a token is the only way to submit.'']
              else
                [Txt '' The shared '', mono ''CI_WEBHOOK_SECRET'',
                 Txt '' still submits too, until CI_REQUIRE_REPO_TOKEN is set.''])),
        row_form ''/repos''
          [el ''label''
             [Txt ''Clone URL'',
              Elem ''input'' [(''type'', ''text''), (''name'', ''url''), (''required'', []),
                              (''placeholder'', ''git@github.com:me/app.git'')] []],
           el ''label'' [Txt ''Name (optional)'', text_input ''name'' ''me/app''],
           el ''label'' [Txt ''Workflow path (optional)'', text_input ''workflow_path'' ''.ci/workflows/*.yml''],
           el ''label'' [Txt ''Network'', Elem ''select'' [(''name'', ''network'')] (network_options (pg_pool P) None)],
           submit_button ''Register'']]"

definition repo_head :: "repo_row \<Rightarrow> run_row option \<Rightarrow> markup" where
  "repo_head r latest =
     elc ''div'' ''head''
       ([el ''h3'' [Txt (rp_name r)]]
        @ shown_if (\<not> rp_enabled r) [elc ''span'' ''pill cancelled'' [Txt ''paused'']]
        @ shown_with latest (\<lambda>run. [link_to (''/runs/'' @ rn_id run) [pill (run_status_str (rn_status run))]])
        @ [post_form (''/repos/'' @ rp_id r @ ''/enabled'')
             [Elem ''input'' [(''type'', ''hidden''), (''name'', ''enabled''),
                              (''value'', if rp_enabled r then ''false'' else ''true'')] [],
              quiet_button (if rp_enabled r then ''Pause'' else ''Resume'')],
           post_form (''/repos/'' @ rp_id r @ ''/delete'') [quiet_button ''Remove'']])"

definition repo_html :: "page_env \<Rightarrow> repo_view \<Rightarrow> markup" where
  "repo_html P = (\<lambda>(r, tokens, latest).
     elc ''div'' ''repo''
       ([repo_head r latest,
         elc ''p'' ''meta''
           ([mono (rp_url r)]
            @ shown_with (rp_workflow_path r) (\<lambda>path. [Txt MIDDOT, mono path])
            @ shown_with (rp_created_email r) (\<lambda>by'. [Txt (MIDDOT @ ''registered by ''), Txt by'])
            @ [Txt MIDDOT, Txt (pg_repo_made P (rp_id r))]),
         row_form (''/repos/'' @ rp_id r @ ''/network'')
           [el ''label''
              [Txt ''Builds run in'',
               Elem ''select'' [(''name'', ''network'')] (network_options (pg_pool P) (rp_network r))],
            submit_button ''Assign'']]
        @ shown_with (rp_network r) (\<lambda>assigned.
            shown_if (\<not> list_ex (\<lambda>n. network_matches n assigned) (served (pg_pool P)))
              [elc ''p'' ''meta''
                 [Txt (WARNING @ '' Assigned to ''), mono assigned,
                  Txt ('', which this orchestrator does not serve '' @ DASH
                    @ '' submits for this repository are refused until it is reassigned or added to ''),
                  mono ''CI_NETWORK'', Txt ''.'']])
        @ [if tokens = [] then
             elc ''p'' ''empty'' [Txt ''No token yet, so nothing can submit as this repository.'']
           else
             scroll_table (heads [''Key'', ''For'', ''Created'', ''Last used'', ''Status'', []]) (token_rows P tokens),
           row_form (''/repos/'' @ rp_id r @ ''/tokens'')
             [el ''label'' [Txt ''New token for'', text_input ''name'' ''sam's laptop''],
              submit_button ''Mint'']]))"

definition repos_page_html :: "page_env \<Rightarrow> repo_view list \<Rightarrow> flash \<Rightarrow> markup list" where
  "repos_page_html P views fl =
     layout P ''repos''
       (notices fl @ minted_notice P fl
        @ [register_section P,
           el ''section''
             (shown_if (views = [])
                [elc ''p'' ''empty''
                   [Txt ''No repository is registered. Until one is, '', mono ''git submit'',
                    Txt '' signs with the installation-wide '', mono ''CI_WEBHOOK_SECRET'',
                    Txt ('' '' @ DASH
                      @ '' a credential that cannot be revoked for one repository and cannot say which repository is submitting.'')]]
              @ map (repo_html P) views)])"

section \<open>Replies\<close>

text \<open>A refusal and a page that is not there show one message, of which the replies keep only the status.\<close>

definition refused_html :: "page_env \<Rightarrow> string \<Rightarrow> string \<Rightarrow> markup list" where
  "refused_html P current message =
     layout P current [elc ''div'' ''banner'' [Txt message], el ''p'' [link_to ''/'' [Txt ''Back to runs'']]]"

fun render :: "page_env \<Rightarrow> (web_reply \<Rightarrow> string) \<Rightarrow> web_reply \<Rightarrow> markup list" where
  "render P msg (WebRefused c) = refused_html P ''repos'' (msg (WebRefused c))"
| "render P msg WebNotFound = refused_html P [] (msg WebNotFound)"
| "render P msg (WebRedirect u) = []"
| "render P msg (RunsPage rs rps q) = runs_page_html P rs rps q"
| "render P msg (RunPage r jobs arts logs) = run_page_html P r jobs arts logs"
| "render P msg (JobPage r j steps token) = job_page_html P r j steps token"
| "render P msg (WorkflowsPage ws) = workflows_page_html P (map (\<lambda>(i, r). (i, Some r)) ws)"
| "render P msg (ReposPage views fl) = repos_page_html P views fl"
| "render P msg (VmsPage vms images fl) = vms_page_html P vms images fl"
| "render P msg (NetworksPage pool q fl) = networks_page_html P pool q fl"

section \<open>What is on a page\<close>

text \<open>A condition on every raw text and every element of a tree.\<close>

fun everywhere :: "(string \<Rightarrow> bool) \<Rightarrow> (string \<Rightarrow> (string \<times> string) list \<Rightarrow> markup list \<Rightarrow> bool) \<Rightarrow> markup \<Rightarrow> bool" where
  "everywhere R E (Txt s) = True"
| "everywhere R E (Raw s) = R s"
| "everywhere R E (Elem t as cs) \<longleftrightarrow> E t as cs \<and> list_all (everywhere R E) cs"

text \<open>An address that stays on this server.\<close>

fun local_url :: "string \<Rightarrow> bool" where
  "local_url [] = False"
| "local_url [c] \<longleftrightarrow> c = CHR ''/''"
| "local_url (c # d # s) \<longleftrightarrow> c = CHR ''/'' \<and> d \<noteq> CHR ''/''"

definition url_char :: "char \<Rightarrow> bool" where
  "url_char c \<longleftrightarrow> is_unreserved c \<or> c \<in> {CHR ''%'', CHR ''/'', CHR ''?'', CHR ''=''}"

text \<open>The texts that reach the browser unescaped: the document type, the stylesheet, and the script that
  follows a log, with an address in quotation marks that can end neither the string nor the script.\<close>

definition fixed_raw :: "page_env \<Rightarrow> string \<Rightarrow> bool" where
  "fixed_raw P s \<longleftrightarrow>
     s = ''<!DOCTYPE html>'' \<or> s = pg_style P
     \<or> (\<exists>u. list_all url_char u \<and> s = SCRIPT_OPEN @ [CHR 0x22] @ u @ [CHR 0x22] @ SCRIPT_CLOSE)"

definition local_links :: "string \<Rightarrow> (string \<times> string) list \<Rightarrow> markup list \<Rightarrow> bool" where
  "local_links t as cs \<longleftrightarrow> list_all (\<lambda>(n, v). n = ''href'' \<or> n = ''action'' \<longrightarrow> local_url v) as"

abbreviation safe_markup :: "page_env \<Rightarrow> markup \<Rightarrow> bool" where
  "safe_markup P \<equiv> everywhere (fixed_raw P) local_links"

text \<open>A table has a heading for every cell of every row.\<close>

fun width :: "markup \<Rightarrow> nat" where
  "width (Elem t as cs) = length cs"
| "width _ = 0"

fun table_fits :: "markup list \<Rightarrow> bool" where
  "table_fits [Elem _ _ [h], Elem _ _ rows] \<longleftrightarrow> list_all (\<lambda>r. width r = width h) rows"
| "table_fits _ = False"

definition headed :: "string \<Rightarrow> (string \<times> string) list \<Rightarrow> markup list \<Rightarrow> bool" where
  "headed t as cs \<longleftrightarrow> (t = ''table'' \<longrightarrow> table_fits cs)"

abbreviation aligned :: "markup \<Rightarrow> bool" where
  "aligned \<equiv> everywhere (\<lambda>_. True) headed"

text \<open>What the forms of a page post to.\<close>

fun posts :: "markup \<Rightarrow> string list" where
  "posts (Elem t as cs) =
     (if t = ''form'' \<and> map_of as ''method'' = Some ''post''
      then (case map_of as ''action'' of Some u \<Rightarrow> [u] | None \<Rightarrow> []) else [])
     @ concat (map posts cs)"
| "posts _ = []"

definition page_posts :: "markup list \<Rightarrow> string list" where
  "page_posts ms = concat (map posts ms)"

section \<open>Conditions on the parts\<close>

named_theorems page_simps \<open>conditions on every node of a part of a page\<close>

lemma everywhere_shown [page_simps]:
  "list_all (everywhere R E) (shown_if b cs) \<longleftrightarrow> (b \<longrightarrow> list_all (everywhere R E) cs)"
  "list_all (everywhere R E) (shown_with x f) \<longleftrightarrow> (case x of Some v \<Rightarrow> list_all (everywhere R E) (f v) | None \<Rightarrow> True)"
  by (auto simp: shown_if_def shown_with_def split: option.split)

lemma list_all_trivial [page_simps]: "list_all (\<lambda>x. True) xs" "list_all (\<lambda>x. False) xs \<longleftrightarrow> xs = []"
  by (auto simp: list_all_iff)

lemma list_all_concat_map [page_simps]:
  "list_all Q (concat (map f xs)) \<longleftrightarrow> list_all (\<lambda>x. list_all Q (f x)) xs"
  by (induction xs) simp_all

declare list.pred_map [page_simps] comp_def [page_simps] case_prod_beta [page_simps]

lemma local_links_simps [page_simps]:
  "local_links t [] cs"
  "local_links t ((n, v) # as) cs \<longleftrightarrow> (n = ''href'' \<or> n = ''action'' \<longrightarrow> local_url v) \<and> local_links t as cs"
  "local_links t (flag_attr ''selected'' b) cs" "local_links t (flag_attr ''open'' b) cs"
  "local_links t (as @ bs) cs \<longleftrightarrow> local_links t as cs \<and> local_links t bs cs"
  by (auto simp: local_links_def flag_attr_def)

lemma headed_simps [page_simps]: "headed t as cs" if "t \<noteq> ''table''"
  using that by (simp add: headed_def)

lemma headed_table [page_simps]: "headed ''table'' as cs \<longleftrightarrow> table_fits cs"
  by (simp add: headed_def)

lemma table_fits_heads [page_simps]:
  "table_fits [heads names, Elem t as rows] \<longleftrightarrow> list_all (\<lambda>r. width r = length names) rows"
  by (simp add: heads_def)

lemma safe_heads [page_simps]: "safe_markup P (heads names)"
  by (induction names) (simp_all add: heads_def page_simps)

lemma aligned_heads [page_simps]: "aligned (heads names)"
  by (induction names) (simp_all add: heads_def page_simps)

lemma safe_scroll_table [page_simps]: "safe_markup P (scroll_table (heads names) rows) \<longleftrightarrow> list_all (safe_markup P) rows"
  by (simp add: scroll_table_def page_simps)

lemma aligned_scroll_table [page_simps]:
  "aligned (scroll_table (heads names) rows) \<longleftrightarrow>
     list_all (\<lambda>r. width r = length names) rows \<and> list_all aligned rows"
  by (simp add: scroll_table_def page_simps)

lemma fixed_raw_known [page_simps]: "fixed_raw P ''<!DOCTYPE html>''" "fixed_raw P (pg_style P)"
  by (simp_all add: fixed_raw_def)

lemma safe_small [page_simps]: "safe_markup P (pill s)" "safe_markup P (status_pill st)" "list_all (safe_markup P) (notices fl)"
  "safe_markup P (nav_link current url name label) \<longleftrightarrow> local_url url" "safe_markup P (queue_cell q key b)"
  "safe_markup P (meta_span cs) \<longleftrightarrow> list_all (safe_markup P) cs"
  by (simp_all add: pill_def status_pill_def notices_def nav_link_def queue_cell_def meta_span_def page_simps
      split: flash.split option.split)

lemma aligned_small [page_simps]: "aligned (pill s)" "aligned (status_pill st)" "list_all aligned (notices fl)"
  "aligned (nav_link current url name label)" "aligned (queue_cell q key b)"
  "aligned (meta_span cs) \<longleftrightarrow> list_all aligned cs"
  by (simp_all add: pill_def status_pill_def notices_def nav_link_def queue_cell_def meta_span_def page_simps
      split: flash.split option.split)

lemma safe_layout [page_simps]: "list_all (safe_markup P) (layout P current body) \<longleftrightarrow> list_all (safe_markup P) body"
  by (simp add: layout_def page_simps split: option.split)

lemma aligned_layout [page_simps]: "list_all aligned (layout P current body) \<longleftrightarrow> list_all aligned body"
  by (simp add: layout_def page_simps split: option.split)

lemmas network_defs = networks_page_html_def pool_banners_def runner_table_def runner_rows_def runner_rows_marking_def
  network_section_def Let_def

lemma safe_networks: "list_all (safe_markup P) (networks_page_html P pool q fl)"
  by (simp add: network_defs page_simps split: option.split)

lemma aligned_networks: "list_all aligned (networks_page_html P pool q fl) \<longleftrightarrow> po_unjoined pool = []"
  by (simp add: network_defs page_simps split: option.split)

lemmas vm_defs = vms_page_html_def vms_section_def images_section_def vm_html_def image_html_def

lemma safe_vms: "list_all (safe_markup P) (vms_page_html P vms images fl)"
  by (simp add: vm_defs page_simps split: option.split)

lemma aligned_vms: "list_all aligned (vms_page_html P vms images fl)"
  by (simp add: vm_defs page_simps split: option.split)

lemmas runs_defs = runs_page_html_def no_runs_def run_html_def repo_option_def

lemma safe_runs: "list_all (safe_markup P) (runs_page_html P rs rps q)"
  by (simp add: runs_defs page_simps split: option.split)

lemma aligned_runs: "list_all aligned (runs_page_html P rs rps q)"
  by (simp add: runs_defs page_simps split: option.split)

lemmas run_defs = run_page_html_def run_section_def jobs_section_def job_html_def vm_logs_section_def vm_log_html_def
  artifact_html_def

lemma safe_run: "list_all (safe_markup P) (run_page_html P r jobs arts logs)"
  by (simp add: run_defs page_simps split: option.split)

lemma aligned_run: "list_all aligned (run_page_html P r jobs arts logs)"
  by (simp add: run_defs page_simps split: option.split)

lemmas repos_defs = repos_page_html_def minted_notice_def register_section_def repo_html_def repo_head_def token_rows_def
  token_html_def network_options_def workflows_page_html_def workflow_html_def refused_html_def

lemma safe_repos: "list_all (safe_markup P) (repos_page_html P views fl)" "list_all (safe_markup P) (workflows_page_html P ws)"
  "list_all (safe_markup P) (refused_html P current m)"
  by (simp_all add: repos_defs page_simps split: option.split flash.split)

lemma aligned_repos: "list_all aligned (repos_page_html P views fl)" "list_all aligned (workflows_page_html P ws)"
  "list_all aligned (refused_html P current m)"
  by (simp_all add: repos_defs page_simps split: option.split flash.split)

section \<open>The address of a stream\<close>

lemma urlencode_append [simp]: "urlencode (s @ t) = urlencode s @ urlencode t"
  by (simp add: urlencode_def)

lemma upper_hex_digit: "d < 16 \<Longrightarrow> hex_val (upper_hex d) = Some d \<and> is_unreserved (upper_hex d)"
proof -
  have "\<forall>d \<in> set [0,1,2,3,4,5,6,7,8,9,10,11,12,13,14,15]. hex_val (upper_hex d) = Some d \<and> is_unreserved (upper_hex d)"
    by code_simp
  moreover assume "d < 16"
  then have "d \<in> set [0,1,2,3,4,5,6,7,8,9,10,11,12,13,14,15]" by (simp, arith)
  ultimately show ?thesis by blast
qed

lemma nibbles: "(of_char c :: nat) div 16 < 16" "(of_char c :: nat) mod 16 < 16"
  by (intro less_mult_imp_div_less) simp_all

lemma urlencode_chars: "list_all url_char (urlencode s)"
  using upper_hex_digit [OF nibbles(1)] upper_hex_digit [OF nibbles(2)]
  by (induction s) (auto simp: urlencode_def url_char_def)

lemma stream_url_chars: "list_all url_char (stream_url run_id job_key token)"
proof -
  have "list_all url_char ''/api/stream/''" "list_all url_char ''/''" "list_all url_char ''?token=''" by code_simp+
  then show ?thesis by (simp add: stream_url_def urlencode_chars)
qed

lemma percent_bytes_urlencode: "percent_bytes (urlencode s) = s"
proof (induction s)
  case (Cons c s)
  have "c \<noteq> CHR ''%''" if "is_unreserved c" using that by (auto simp: is_unreserved_def is_ascii_alphanumeric_def
      is_ascii_digit_def is_ascii_lower_def is_ascii_upper_def less_eq_char_def)
  with Cons upper_hex_digit [OF nibbles(1), of c] upper_hex_digit [OF nibbles(2), of c] show ?case
    by (auto simp: urlencode_def)
qed (simp add: urlencode_def)

text \<open>Decoding an encoded part of an address gives the part back.\<close>

lemma percent_decode_urlencode: "percent_decode (urlencode s) = s" if "utf8_valid s"
  using that percent_bytes_urlencode [of s] percent_bytes_id [of "urlencode s"] by (auto simp: percent_decode_def)

section \<open>The script\<close>

lemmas job_defs = job_page_html_def job_section_def step_html_def live_log_script_def

text \<open>How a JSON printer writes a text with nothing in it to escape.\<close>

definition quotes_plain :: "page_env \<Rightarrow> bool" where
  "quotes_plain P \<longleftrightarrow> (\<forall>u. list_all url_char u \<longrightarrow> pg_json_string P u = [CHR 0x22] @ u @ [CHR 0x22])"

lemma safe_script: "safe_markup P (live_log_script P run_id job_key token)" if "quotes_plain P"
  using that stream_url_chars [of run_id job_key token]
  by (auto simp: live_log_script_def quotes_plain_def fixed_raw_def page_simps)

lemma safe_job: "list_all (safe_markup P) (job_page_html P r j steps token)" if "quotes_plain P"
  using that by (simp add: job_page_html_def job_section_def step_html_def safe_script page_simps split: option.split)

lemma aligned_job: "list_all aligned (job_page_html P r j steps token)"
  by (simp add: job_defs page_simps split: option.split)

section \<open>What is offered\<close>

lemma posts_shown [page_simps]:
  "concat (map posts (shown_if b cs)) = (if b then concat (map posts cs) else [])"
  "concat (map posts (shown_with x f)) = (case x of Some v \<Rightarrow> concat (map posts (f v)) | None \<Rightarrow> [])"
  by (simp_all add: shown_if_def shown_with_def split: option.split)

lemma concat_map_Nil [page_simps]: "concat (map (\<lambda>x. []) xs) = []"
  by (induction xs) simp_all

lemma posts_small [page_simps]: "posts (pill s) = []" "concat (map posts (notices fl)) = []"
  "posts (nav_link current url name label) = []" "posts (meta_span cs) = concat (map posts cs)"
  "posts (scroll_table h rows) = posts h @ concat (map posts rows)"
  by (simp_all add: pill_def notices_def nav_link_def meta_span_def scroll_table_def split: flash.split)

lemma posts_heads [page_simps]: "posts (heads names) = []"
  by (induction names) (simp_all add: heads_def)

lemma page_posts_layout: "page_posts (layout P current body) = concat (map posts body)"
  by (simp add: page_posts_def layout_def page_simps split: option.split)

lemma posts_vm: "posts (vm_html P vms v) =
    (if pv_status (fst v) \<in> {Claimed, Building} then [] else [''/vms/'' @ pv_sandbox_id (fst v) @ ''/destroy''])"
  by (simp add: vm_html_def page_simps split: option.split)

lemma posts_image: "posts (image_html P i) = []"
  by (simp add: image_html_def page_simps split: option.split)

lemma posts_vms_page: "page_posts (vms_page_html P vms images fl) =
    (if 0 < idle_failed vms then [''/vms/cleanup-failed''] else [])
    @ concat (map (\<lambda>v. if pv_status (fst v) \<in> {Claimed, Building} then []
                       else [''/vms/'' @ pv_sandbox_id (fst v) @ ''/destroy'']) vms)"
  by (simp add: vms_page_html_def page_posts_layout vms_section_def images_section_def page_simps posts_vm posts_image)

lemma destroy_not_cleanup: "''/vms/'' @ sid @ ''/destroy'' \<noteq> ''/vms/cleanup-failed''"
proof
  assume "''/vms/'' @ sid @ ''/destroy'' = ''/vms/cleanup-failed''"
  then have "last (''/vms/'' @ sid @ ''/destroy'') = last ''/vms/cleanup-failed''" by (rule arg_cong)
  then show False by simp
qed

lemma destroy_offered:
  "''/vms/'' @ sid @ ''/destroy'' \<in> set (page_posts (vms_page_html P vms images fl)) \<longleftrightarrow>
     (\<exists>v\<in>fst ` set vms. pv_sandbox_id v = sid \<and> pv_status v \<notin> {Claimed, Building})"
  using destroy_not_cleanup [of sid] by (auto simp: posts_vms_page image_iff Bex_def split: if_splits)

lemma cleanup_offered:
  "''/vms/cleanup-failed'' \<in> set (page_posts (vms_page_html P vms images fl)) \<longleftrightarrow> 0 < idle_failed vms"
  using destroy_not_cleanup by (auto simp: posts_vms_page split: if_splits)

lemma set_inventory: "fst ` set (inventory runners d rows) = {r \<in> set rows. pv_runner_hd_id r \<in> set runners}"
  by (auto simp: inventory_def newest_first_def image_iff)

text \<open>The rows the button counts are the rows the server takes, when no other request holds one of them.\<close>

lemma idle_failed_swept:
  assumes "pool_ok rows"
  shows "idle_failed (inventory runners d rows) = length (fst (take_failed_for_sweep (\<lambda>_. False) runners d rows))"
proof (cases "runners = []")
  case False
  let ?Q = "failed_sweepable (\<lambda>_. False) runners d"
  let ?sorted = "sort_key pv_runner_hd_id (sort_key pv_fingerprint
    (newest_first (filter (\<lambda>p. pv_runner_hd_id p \<in> set runners) rows)))"
  have "mset (filter ?Q ?sorted) = mset (filter ?Q rows)"
    by (auto simp: newest_first_def mset_filter filter_filter_mset failed_sweepable_def intro!: filter_mset_cong)
  then have len: "length (filter ?Q ?sorted) = length (filter ?Q rows)" by (rule mset_eq_length)
  have "pv_status r = Idle \<Longrightarrow> pv_claimed_by_job r = None" if "r \<in> set ?sorted" for r
    using that assms by (auto simp: newest_first_def table_ok_def vm_row_ok_def)
  then have "idle_failed (inventory runners d rows) = length (filter ?Q ?sorted)"
    using False unfolding idle_failed_def inventory_def
    by (auto simp: filter_map comp_def failed_sweepable_def newest_first_def split: option.splits
        intro!: arg_cong [where f = length] filter_cong)
  with len False show ?thesis by (simp add: take_failed_for_sweep_def drain_def)
qed (simp add: idle_failed_def inventory_def take_failed_for_sweep_def)

lemma posts_run_page:
  "''/runs/'' @ rn_id r @ ''/cancel'' \<in> set (page_posts (run_page_html P r jobs arts logs)) \<longleftrightarrow> \<not> run_terminal (rn_status r)"
  by (auto simp: run_defs page_posts_layout page_simps run_terminal_def shown_with_def split: option.splits)

lemma revoke_offered:
  "posts (token_html P t) = (if tk_revoked_at t = None then [''/repos/'' @ tk_repo_id t @ ''/tokens/'' @ tk_id t @ ''/revoke''] else [])"
  by (simp add: token_html_def page_simps split: option.split)

section \<open>Properties\<close>

text \<open>C9. Nothing anybody submits reaches a browser as markup: on every page, whatever the names, messages, logs
  and ids in it, the only texts that are not escaped are the document type, the stylesheet and the script that
  follows a running job's log, the address in that script is made of characters that end neither its string nor
  the script, and every link and form stays on this server.\<close>

theorem pages_escape:
  assumes "quotes_plain P"
  shows "list_all (safe_markup P) (render P msg r)"
  using assms by (cases r) (simp_all add: safe_networks safe_vms safe_runs safe_run safe_repos safe_job)

definition sample_page_env :: page_env where
  "sample_page_env = \<lparr>pg_app_name = ''ci'', pg_who = None, pg_style = ''a{}'', pg_now = 9, pg_when = nat_str,
     pg_repo_made = (\<lambda>_. []), pg_token_made = (\<lambda>_. []), pg_one_decimal = (\<lambda>_ _. []),
     pg_json_string = (\<lambda>s. [CHR 0x22] @ s @ [CHR 0x22]), pg_endpoint = ''https://ci'', pg_require_token = True,
     pg_pattern = [], pg_retention_days = None, pg_pool = sample_runners []\<rparr>"

theorem pages_escape_witness:
  "list_all (safe_markup sample_page_env)
     (render sample_page_env (\<lambda>_. []) (VmsPage [] [] (FlashFailed ''<script>alert(1)</script>'')))"
  by (rule pages_escape) (simp add: quotes_plain_def sample_page_env_def)

text \<open>C10. The VMs page offers what the server does: the form that destroys a VM is on it exactly when the
  server would take that VM out of the pool, and the button that clears up after failed runs exactly when
  the server would find a VM to clear.\<close>

theorem vms_page_offers:
  assumes "pool_ok (sy_pool (wo_sys (wb_world w)))"
  shows "(''/vms/'' @ sid @ ''/destroy'' \<in> set (page_posts (render P msg (fst (render_vms W fl w)))) \<longleftrightarrow>
          fst (take_one_for_sweep sid (served_runner_ids (web_host W w)) (sy_pool (wo_sys (wb_world w)))) \<noteq> None)
    \<and> (''/vms/cleanup-failed'' \<in> set (page_posts (render P msg (fst (render_vms W fl w)))) \<longleftrightarrow>
       fst (take_failed_for_sweep (\<lambda>_. False) (served_runner_ids (web_host W w)) (web_db w)
              (sy_pool (wo_sys (wb_world w)))) \<noteq> [])"
proof -
  let ?ours = "served_runner_ids (web_host W w)" and ?p = "sy_pool (wo_sys (wb_world w))"
  have page: "render P msg (fst (render_vms W fl w)) =
      vms_page_html P (inventory ?ours (web_db w) ?p) (image_inventory ?ours (sy_images (wo_sys (wb_world w)))) fl"
    by (simp add: render_vms_def served_runner_ids_def web_host_def web_db_def Let_def)
  have "fst (take_one_for_sweep sid ?ours ?p) \<noteq> None \<longleftrightarrow> list_ex (one_sweepable sid ?ours) ?p"
    by (auto simp: take_one_eq Let_def filter_empty_conv list_ex_iff one_sweepable_def)
  then show ?thesis unfolding page destroy_offered cleanup_offered idle_failed_swept [OF assms] set_inventory
    by (auto simp: list_ex_iff one_sweepable_def)
qed

text \<open>A state of the server with one idle VM.\<close>

definition sample_vms_state :: web_state where
  "sample_vms_state = sample_web_state
     \<lparr>wb_world := on_sys (\<lambda>s. s\<lparr>sy_pool := release_vm_row 7 ''sb-1'' sample_pool\<rparr>) sample_world,
      wb_pool := sample_runners [\<lparr>ru_id = ''hd'', ru_name = ''hd'', ru_status = ROnline, ru_last_seen_at = None\<rparr>]\<rparr>"

theorem vms_page_offers_witness:
  "''/vms/sb-1/destroy'' \<in> set (page_posts (render sample_page_env (\<lambda>_. []) (fst (render_vms sample_web NoFlash sample_vms_state))))"
proof -
  have pool: "sy_pool (wo_sys (wb_world sample_vms_state)) = release_vm_row 7 ''sb-1'' sample_pool"
    by (simp add: sample_vms_state_def on_sys_def)
  have "reach (\<lambda>p. p = []) vm_step (release_vm_row 7 ''sb-1'' sample_pool)"
    by (rule reach_step [OF sample_pool_reach], rule vm_release) simp
  then have "pool_ok (sy_pool (wo_sys (wb_world sample_vms_state)))" unfolding pool by (rule vm_pool.inv_reach)
  moreover have "fst (take_one_for_sweep ''sb-1'' (served_runner_ids (web_host sample_web sample_vms_state))
      (sy_pool (wo_sys (wb_world sample_vms_state)))) \<noteq> None"
    unfolding pool take_one_eq
    by (simp add: Let_def sample_vms_state_def web_host_def served_runner_ids_def all_runners_def served_def
        sample_runners_def sample_pool_def register_vm_def upsert_vm_def release_vm_row_def update_rows_def
        one_sweepable_def vm_rows)
  ultimately show ?thesis
    using vms_page_offers [of sample_vms_state "''sb-1''" sample_page_env "\<lambda>_. []" sample_web NoFlash] by simp
qed

text \<open>Every row of every table has as many cells as the table has headings, with one exception: the table
  of daemons that are in no network has five cells in a row, a queue among them, under four headings.\<close>

lemma tables_aligned: "list_all aligned (render P msg r) \<longleftrightarrow> (\<forall>pool q fl. r = NetworksPage pool q fl \<longrightarrow> po_unjoined pool = [])"
  by (cases r) (simp_all add: aligned_networks aligned_vms aligned_runs aligned_run aligned_repos aligned_job)

text \<open>A run is offered for cancelling exactly when cancelling does something.\<close>

lemma cancel_offered:
  assumes "get_run run_id d = Some r"
  shows "''/runs/'' @ run_id @ ''/cancel'' \<in> set (page_posts (render P msg (run_page W run_id d))) \<longleftrightarrow> \<not> run_terminal (rn_status r)"
proof -
  have "rn_id r = run_id" using assms by (auto simp: get_run_def dest: find_SomeD)
  then show ?thesis using posts_run_page [of r] assms by (auto simp: run_page_def Let_def)
qed

text \<open>A network of the picker is accepted by its form when names are unambiguous. Otherwise a network that
  is not served can take the place of the one that was picked, which is then refused.\<close>

lemma picked_network_accepted:
  assumes "unambiguous pool" "n \<in> set (served pool)" "ns_network_name n \<noteq> []"
  shows "served_choice W pool (ns_network_name n) = Ok (Some (ns_network_name n))"
proof -
  have n: "n \<in> set (po_networks pool)" "ns_served n" using assms(2) by (auto simp: served_iff)
  have "find_network pool (ns_network_name n) = Some n"
    unfolding find_network_def using assms(1) n(1)
    by (intro find_unique) (auto simp: unambiguous_def network_matches_def)
  with assms(3) n(2) show ?thesis by (simp add: served_choice_def)
qed

definition twin_networks :: runner_pool where
  "twin_networks = (sample_runners [])\<lparr>po_networks :=
     [\<lparr>ns_network_id = ''n1'', ns_network_name = ''LAB'', ns_is_default = False, ns_served = False, ns_runners = []\<rparr>,
      \<lparr>ns_network_id = ''n2'', ns_network_name = ''lab'', ns_is_default = False, ns_served = True, ns_runners = []\<rparr>]\<rparr>"

lemma picked_network_refused:
  "''lab'' \<in> ns_network_name ` set (served twin_networks) \<and> (\<exists>m. served_choice W twin_networks ''lab'' = Err m)"
proof
  show "''lab'' \<in> ns_network_name ` set (served twin_networks)" by code_simp
  have "find_network twin_networks ''lab'' = Some (hd (po_networks twin_networks))" by code_simp
  then show "\<exists>m. served_choice W twin_networks ''lab'' = Err m"
    by (simp add: served_choice_def twin_networks_def)
qed

end
