(* ===== verification/ExecLock.thy ===== *)
theory ExecLock
  imports Vm
begin

text \<open>
  The lock of \<^verbatim>\<open>vm.rs\<close> that keeps two commands on one sandbox apart (\<^verbatim>\<open>Vms\<close>, and the guards of \<^verbatim>\<open>exec\<close>,
  \<^verbatim>\<open>ensure_running\<close> and \<^verbatim>\<open>destroy\<close>), as a transition system of the process's tasks. A lock is the number it
  was made with, as an \<^verbatim>\<open>Arc\<close> is its address. What the daemon runs in a sandbox is part of the state, because
  that is what the lock is there for. The main result: while no call gives up on a command it has started, the
  daemon never has two at once in a sandbox; a call that gives up breaks that.
\<close>

section \<open>State\<close>

text \<open>\<^verbatim>\<open>Vm\<close>: a sandbox and its lock. Every task that works on the sandbox has its own.\<close>

record handle =
  hv_id :: string
  hv_lock :: nat

text \<open>The guarded sections: an operation, \<^verbatim>\<open>start\<close> and \<^verbatim>\<open>kill\<close>.\<close>

datatype guarded_call = CallExec string | CallStart | CallKill

datatype task = Free | Waiting handle guarded_call | Inside handle guarded_call

record vms =
  vs_locks :: "string \<rightharpoonup> nat"
  vs_made :: nat
  vs_held :: "nat set"
  vs_handles :: "handle set"
  vs_task :: "nat \<Rightarrow> task"
  vs_guest :: "string \<Rightarrow> string set"

definition new_vms :: vms where
  "new_vms = \<lparr>vs_locks = Map.empty, vs_made = 0, vs_held = {}, vs_handles = {}, vs_task = (\<lambda>_. Free), vs_guest = (\<lambda>_. {})\<rparr>"

definition lock_for :: "string \<Rightarrow> vms \<Rightarrow> nat \<times> vms" where
  "lock_for sandbox_id s =
     (case vs_locks s sandbox_id of
        Some l \<Rightarrow> (l, s)
      | None \<Rightarrow> (vs_made s, s\<lparr>vs_locks := (vs_locks s)(sandbox_id \<mapsto> vs_made s), vs_made := Suc (vs_made s)\<rparr>))"

text \<open>The end of \<^verbatim>\<open>open\<close> and of \<^verbatim>\<open>create\<close>.\<close>

definition make_handle :: "string \<Rightarrow> vms \<Rightarrow> handle \<times> vms" where
  "make_handle sandbox_id s =
     (case lock_for sandbox_id s of
        (l, s') \<Rightarrow> (let h = \<lparr>hv_id = sandbox_id, hv_lock = l\<rparr> in (h, s'\<lparr>vs_handles := insert h (vs_handles s')\<rparr>)))"

definition take_lock :: "nat \<Rightarrow> handle \<Rightarrow> guarded_call \<Rightarrow> vms \<Rightarrow> vms" where
  "take_lock t h c s = s\<lparr>vs_held := insert (hv_lock h) (vs_held s), vs_task := (vs_task s)(t := Inside h c)\<rparr>"

definition drop_lock :: "nat \<Rightarrow> handle \<Rightarrow> vms \<Rightarrow> vms" where
  "drop_lock t h s = s\<lparr>vs_held := vs_held s - {hv_lock h}, vs_task := (vs_task s)(t := Free)\<rparr>"

definition guest_start :: "string \<Rightarrow> string \<Rightarrow> vms \<Rightarrow> vms" where
  "guest_start sid op s = s\<lparr>vs_guest := (vs_guest s)(sid := insert op (vs_guest s sid))\<rparr>"

definition guest_end :: "string \<Rightarrow> string \<Rightarrow> vms \<Rightarrow> vms" where
  "guest_end sid op s = s\<lparr>vs_guest := (vs_guest s)(sid := vs_guest s sid - {op})\<rparr>"

section \<open>Steps\<close>

text \<open>
  A task gets a handle, waits for the lock of one and enters. Inside, an operation is posted, and the daemon runs
  it until it ends. The call leaves when its operation has ended, or was never started. With \<open>g\<close>, it may
  also give up before: a poll fails, the deadline passes, or the task is dropped because its job ran too
  long. Either way the guard is released.
\<close>

inductive vms_step :: "bool \<Rightarrow> vms \<Rightarrow> vms \<Rightarrow> bool" for g :: bool where
  vs_open: "vms_step g s (snd (make_handle sid s))"
| vs_ask: "vs_task s t = Free \<Longrightarrow> h \<in> vs_handles s \<Longrightarrow> vms_step g s (s\<lparr>vs_task := (vs_task s)(t := Waiting h c)\<rparr>)"
| vs_enter: "vs_task s t = Waiting h c \<Longrightarrow> hv_lock h \<notin> vs_held s \<Longrightarrow> vms_step g s (take_lock t h c s)"
| vs_post: "vs_task s t = Inside h (CallExec op) \<Longrightarrow> vms_step g s (guest_start (hv_id h) op s)"
| vs_end: "vms_step g s (guest_end sid op s)"
| vs_leave: "vs_task s t = Inside h c \<Longrightarrow> (\<And>op. c = CallExec op \<Longrightarrow> op \<notin> vs_guest s (hv_id h)) \<Longrightarrow> vms_step g s (drop_lock t h s)"
| vs_give_up: "g \<Longrightarrow> vs_task s t = Inside h (CallExec op) \<Longrightarrow> vms_step g s (drop_lock t h s)"

inductive_cases vms_stepE: "vms_step g s s'"

section \<open>The invariant\<close>

text \<open>Locks and sandboxes correspond one to one, a handle has its sandbox's lock, and a lock is held exactly
  by the one task inside a section it guards.\<close>

definition locks_ok :: "vms \<Rightarrow> bool" where
  "locks_ok s \<longleftrightarrow>
     (\<forall>sid l. vs_locks s sid = Some l \<longrightarrow> l < vs_made s)
     \<and> (\<forall>sid sid' l. vs_locks s sid = Some l \<longrightarrow> vs_locks s sid' = Some l \<longrightarrow> sid = sid')
     \<and> (\<forall>h\<in>vs_handles s. vs_locks s (hv_id h) = Some (hv_lock h))"

definition tasks_hold :: "vms \<Rightarrow> bool" where
  "tasks_hold s \<longleftrightarrow>
     (\<forall>t h c. vs_task s t = Waiting h c \<or> vs_task s t = Inside h c \<longrightarrow> h \<in> vs_handles s)
     \<and> (\<forall>t h c. vs_task s t = Inside h c \<longrightarrow> hv_lock h \<in> vs_held s)
     \<and> (\<forall>l\<in>vs_held s. \<exists>t h c. vs_task s t = Inside h c \<and> hv_lock h = l)
     \<and> (\<forall>t t' h h' c c'. vs_task s t = Inside h c \<longrightarrow> vs_task s t' = Inside h' c' \<longrightarrow> hv_lock h = hv_lock h' \<longrightarrow> t = t')"

text \<open>Whatever the daemon runs, some task is inside the call that started it.\<close>

definition guest_watched :: "vms \<Rightarrow> bool" where
  "guest_watched s \<longleftrightarrow> (\<forall>sid. \<forall>op\<in>vs_guest s sid. \<exists>t h. vs_task s t = Inside h (CallExec op) \<and> hv_id h = sid)"

definition vms_ok :: "bool \<Rightarrow> vms \<Rightarrow> bool" where
  "vms_ok g s \<longleftrightarrow> locks_ok s \<and> tasks_hold s \<and> (g \<or> guest_watched s)"

lemmas vms_defs = make_handle_def lock_for_def take_lock_def drop_lock_def guest_start_def guest_end_def

lemma locks_ok_open: "locks_ok s \<Longrightarrow> locks_ok (snd (make_handle sid s))"
  by (auto simp: locks_ok_def vms_defs Let_def split: option.splits if_splits dest: less_SucI)

lemma locks_ok_step: "vms_step g s s' \<Longrightarrow> locks_ok s \<Longrightarrow> locks_ok s'"
  by (erule vms_stepE) (auto simp: locks_ok_open, auto simp: locks_ok_def vms_defs)

lemma open_keeps: "vs_task (snd (make_handle sid s)) = vs_task s" "vs_held (snd (make_handle sid s)) = vs_held s"
  "vs_guest (snd (make_handle sid s)) = vs_guest s" "vs_handles s \<subseteq> vs_handles (snd (make_handle sid s))"
  by (auto simp: vms_defs Let_def split: option.splits)

lemma tasks_hold_open: "tasks_hold s \<Longrightarrow> tasks_hold (snd (make_handle sid s))"
  unfolding tasks_hold_def open_keeps(1,2) using open_keeps(4) by blast

lemma tasks_hold_take:
  "tasks_hold s \<Longrightarrow> vs_task s t = Waiting h c \<Longrightarrow> hv_lock h \<notin> vs_held s \<Longrightarrow> tasks_hold (take_lock t h c s)"
  unfolding tasks_hold_def take_lock_def by (auto split: if_splits) (metis task.distinct(5))+

lemma tasks_hold_drop:
  assumes ok: "tasks_hold s" and t: "vs_task s t = Inside h c"
  shows "tasks_hold (drop_lock t h s)"
  unfolding tasks_hold_def
proof (intro conjI)
  have one: "t' = t" if "vs_task s t' = Inside h' c'" "hv_lock h' = hv_lock h" for t' h' c'
    using ok t that unfolding tasks_hold_def by metis
  show "\<forall>t' h' c'. vs_task (drop_lock t h s) t' = Inside h' c' \<longrightarrow> hv_lock h' \<in> vs_held (drop_lock t h s)"
    using ok one unfolding tasks_hold_def by (auto simp: drop_lock_def)
  show "\<forall>l\<in>vs_held (drop_lock t h s). \<exists>t' h' c'. vs_task (drop_lock t h s) t' = Inside h' c' \<and> hv_lock h' = l"
  proof
    fix l assume l: "l \<in> vs_held (drop_lock t h s)"
    then have "l \<in> vs_held s" by (simp add: drop_lock_def)
    with ok obtain t' h' c' where i: "vs_task s t' = Inside h' c'" "hv_lock h' = l" unfolding tasks_hold_def by metis
    moreover have "t' \<noteq> t" using l i t by (auto simp: drop_lock_def)
    ultimately show "\<exists>t' h' c'. vs_task (drop_lock t h s) t' = Inside h' c' \<and> hv_lock h' = l"
      by (auto simp: drop_lock_def intro!: exI [of _ t'])
  qed
qed (use ok in \<open>auto simp: tasks_hold_def drop_lock_def\<close>)

lemma tasks_hold_step: "vms_step g s s' \<Longrightarrow> tasks_hold s \<Longrightarrow> tasks_hold s'"
proof (induction rule: vms_step.induct)
  case (vs_ask s t h c)
  then show ?case unfolding tasks_hold_def by (auto split: if_splits) (metis task.distinct(3))+
qed (simp_all add: tasks_hold_open tasks_hold_take tasks_hold_drop, simp_all add: tasks_hold_def guest_start_def guest_end_def)

lemma guest_watched_take:
  "guest_watched s \<Longrightarrow> vs_task s t = Waiting h c \<Longrightarrow> guest_watched (take_lock t h c s)"
  unfolding guest_watched_def take_lock_def by (auto split: if_splits) (metis task.distinct(5))

lemma guest_watched_leave:
  assumes ok: "guest_watched s" and t: "vs_task s t = Inside h c" and over: "\<And>op. c = CallExec op \<Longrightarrow> op \<notin> vs_guest s (hv_id h)"
  shows "guest_watched (drop_lock t h s)"
  unfolding guest_watched_def
proof (intro allI ballI)
  fix sid op assume "op \<in> vs_guest (drop_lock t h s) sid"
  then have op: "op \<in> vs_guest s sid" by (simp add: drop_lock_def)
  with ok obtain t' h' where i: "vs_task s t' = Inside h' (CallExec op)" "hv_id h' = sid"
    unfolding guest_watched_def by metis
  moreover have "t' \<noteq> t" using op i t over by auto
  ultimately show "\<exists>t' h'. vs_task (drop_lock t h s) t' = Inside h' (CallExec op) \<and> hv_id h' = sid"
    by (auto simp: drop_lock_def intro!: exI [of _ t'])
qed

lemma guest_watched_step: "vms_step False s s' \<Longrightarrow> guest_watched s \<Longrightarrow> guest_watched s'"
proof (induction rule: vms_step.induct)
  case (vs_ask s t h c)
  then show ?case unfolding guest_watched_def by (auto split: if_splits) (metis task.distinct(3))
next
  case (vs_leave s t h c)
  then show ?case by (intro guest_watched_leave)
qed (simp_all add: guest_watched_take, auto simp: guest_watched_def guest_start_def guest_end_def open_keeps split: if_splits)

interpretation exec_lock: step_invariant "\<lambda>s. s = new_vms" "vms_step g" "vms_ok g"
proof unfold_locales
  show "s = new_vms \<Longrightarrow> vms_ok g s" for s
    by (simp add: vms_ok_def new_vms_def locks_ok_def tasks_hold_def guest_watched_def)
next
  fix s t assume "vms_ok g s" "vms_step g s t"
  then show "vms_ok g t" using locks_ok_step tasks_hold_step guest_watched_step by (cases g) (auto simp: vms_ok_def)
qed

lemma same_sandbox_same_lock:
  "vms_ok g s \<Longrightarrow> h \<in> vs_handles s \<Longrightarrow> h' \<in> vs_handles s \<Longrightarrow> hv_id h = hv_id h' \<longleftrightarrow> hv_lock h = hv_lock h'"
  unfolding vms_ok_def locks_ok_def by (metis option.inject)

section \<open>Properties\<close>

text \<open>C13. Calls on one sandbox take turns: in every state the tasks of a process can reach, two tasks that are inside
  a command, a start or a kill of the same sandbox are one task, even when each opened the sandbox for
  itself. And as long as no call gives up on a command it has started, the daemon runs nothing in that
  sandbox but the command of the task inside.\<close>

theorem exec_exclusive:
  assumes "reach (\<lambda>s. s = new_vms) (vms_step g) s"
    and "vs_task s t = Inside h c" "vs_task s t' = Inside h' c'" "hv_id h = hv_id h'"
  shows "t = t' \<and> (g \<or> vs_guest s (hv_id h) \<subseteq> {op. c = CallExec op})"
proof -
  have ok: "vms_ok g s" using assms(1) by (rule exec_lock.inv_reach)
  have one: "u = v" if "vs_task s u = Inside k d" "vs_task s v = Inside k' d'" "hv_id k = hv_id k'" for u v k k' d d'
    using ok that same_sandbox_same_lock [OF ok, of k k'] unfolding vms_ok_def tasks_hold_def by metis
  have "c = CallExec op" if quiet: "\<not> g" and op: "op \<in> vs_guest s (hv_id h)" for op
  proof -
    have "guest_watched s" using ok quiet by (simp add: vms_ok_def)
    then obtain u k where "vs_task s u = Inside k (CallExec op)" "hv_id k = hv_id h"
      using op unfolding guest_watched_def by blast
    with one [of u k "CallExec op" t h c] assms(2) show ?thesis by simp
  qed
  with one assms show ?thesis by blast
qed

text \<open>Two tasks with a handle each; the first is running a command.\<close>

definition first_opened :: vms where
  "first_opened = snd (make_handle ''sb-1'' new_vms)"

abbreviation sb1 :: handle where
  "sb1 \<equiv> \<lparr>hv_id = ''sb-1'', hv_lock = 0\<rparr>"

definition first_running :: vms where
  "first_running = guest_start ''sb-1'' ''op-1''
     (take_lock 1 sb1 (CallExec ''op-1'') (first_opened\<lparr>vs_task := (\<lambda>_. Free)(1 := Waiting sb1 (CallExec ''op-1''))\<rparr>))"

lemma first_opened_eq: "first_opened = new_vms\<lparr>vs_locks := [''sb-1'' \<mapsto> 0], vs_made := 1, vs_handles := {sb1}\<rparr>"
  by (simp add: first_opened_def new_vms_def make_handle_def lock_for_def Let_def)

lemma first_running_reach: "reach (\<lambda>s. s = new_vms) (vms_step g) first_running"
proof -
  let ?r = "reach (\<lambda>s. s = new_vms) (vms_step g)"
  let ?w = "first_opened\<lparr>vs_task := (\<lambda>_. Free)(1 := Waiting sb1 (CallExec ''op-1''))\<rparr>"
  have "?r new_vms" by (rule reach_init) simp
  then have "?r first_opened" unfolding first_opened_def by (rule reach_step) (rule vs_open)
  moreover have "vms_step g first_opened ?w"
    using vs_ask [of first_opened 1 sb1 g "CallExec ''op-1''"] by (simp add: first_opened_eq new_vms_def)
  ultimately have "?r ?w" by (rule reach_step)
  moreover have "vms_step g ?w (take_lock 1 sb1 (CallExec ''op-1'') ?w)"
    by (rule vs_enter) (simp_all add: first_opened_eq new_vms_def)
  ultimately have "?r (take_lock 1 sb1 (CallExec ''op-1'') ?w)" by (rule reach_step)
  moreover have "vms_step g (take_lock 1 sb1 (CallExec ''op-1'') ?w) first_running"
    unfolding first_running_def using vs_post [of "take_lock 1 sb1 (CallExec ''op-1'') ?w" 1 sb1 "''op-1''" g]
    by (simp add: take_lock_def)
  ultimately show ?thesis by (rule reach_step)
qed

theorem exec_exclusive_witness: "vs_guest first_running ''sb-1'' \<subseteq> {''op-1''}"
proof -
  have "vs_task first_running 1 = Inside sb1 (CallExec ''op-1'')"
    by (simp add: first_running_def guest_start_def take_lock_def)
  from exec_exclusive [OF first_running_reach [of False] this this] show ?thesis by auto
qed

text \<open>A call that gives up, because a poll fails, its deadline passes or its job is cut off, leaves its command
  running and lets the next one in: two commands run in one sandbox, which the lock is there to prevent.\<close>

lemma abandoned_exec_overlaps:
  "\<exists>s. reach (\<lambda>s. s = new_vms) (vms_step True) s \<and> {''op-1'', ''op-2''} \<subseteq> vs_guest s ''sb-1''"
proof -
  let ?r = "reach (\<lambda>s. s = new_vms) (vms_step True)" and ?c = "CallExec ''op-2''"
  let ?f = "drop_lock 1 sb1 first_running"
  let ?w = "?f\<lparr>vs_task := (vs_task ?f)(2 := Waiting sb1 ?c)\<rparr>"
  note defs = first_running_def first_opened_eq new_vms_def guest_start_def take_lock_def drop_lock_def
  have "vms_step True first_running ?f" by (rule vs_give_up [where op = "''op-1''"]) (simp_all add: defs)
  with first_running_reach have "?r ?f" by (rule reach_step)
  moreover have "vms_step True ?f ?w" by (rule vs_ask) (simp_all add: defs)
  ultimately have "?r ?w" by (rule reach_step)
  moreover have "vms_step True ?w (take_lock 2 sb1 ?c ?w)" by (rule vs_enter) (simp_all add: defs)
  ultimately have "?r (take_lock 2 sb1 ?c ?w)" by (rule reach_step)
  moreover have "vms_step True (take_lock 2 sb1 ?c ?w) (guest_start ''sb-1'' ''op-2'' (take_lock 2 sb1 ?c ?w))"
    using vs_post [of "take_lock 2 sb1 ?c ?w" 2 sb1 "''op-2''" True] by (simp add: take_lock_def)
  ultimately have "?r (guest_start ''sb-1'' ''op-2'' (take_lock 2 sb1 ?c ?w))" by (rule reach_step)
  moreover have "{''op-1'', ''op-2''} \<subseteq> vs_guest (guest_start ''sb-1'' ''op-2'' (take_lock 2 sb1 ?c ?w)) ''sb-1''"
    by (simp add: defs)
  ultimately show ?thesis by blast
qed

text \<open>Nobody waits for nobody: a task that waits can enter, or another task is inside, which waits for no lock.\<close>

lemma waiting_is_blocked_by_inside:
  assumes "reach (\<lambda>s. s = new_vms) (vms_step g) s" "vs_task s t = Waiting h c"
  shows "vms_step g s (take_lock t h c s) \<or> (\<exists>u k d. vs_task s u = Inside k d \<and> hv_id k = hv_id h)"
proof (cases "hv_lock h \<in> vs_held s")
  case True
  have ok: "vms_ok g s" using assms(1) by (rule exec_lock.inv_reach)
  then obtain u k d where u: "vs_task s u = Inside k d" "hv_lock k = hv_lock h"
    using True unfolding vms_ok_def tasks_hold_def by blast
  moreover have "k \<in> vs_handles s" "h \<in> vs_handles s" using ok u assms(2) unfolding vms_ok_def tasks_hold_def by blast+
  ultimately show ?thesis using same_sandbox_same_lock [OF ok, of k h] by blast
qed (use assms(2) vs_enter in blast)

end
