(* ===== verification/Messages.thy ===== *)
theory Messages
  imports Background
begin

text \<open>
  What the program prints of its errors: the \<^verbatim>\<open>Display\<close> implementations of every module, with Rust's quoted form of
  a text. Some of these texts are more than something to read: they are stored as the reason a job failed, sent
  back to a submit, and scanned for signs of a broken guest. The texts of the daemon's client and of the
  database driver are arguments. The results: an upload that arrived damaged is always recognised, whatever the
  names in its message are, and its VM does not go back into the pool; a refused signature is answered alike
  whatever was wrong with it.
\<close>

section \<open>The quoted form\<close>

definition DQ :: char where
  "DQ = CHR 0x22"

text \<open>\<^verbatim>\<open>{:?}\<close> of a character of a text, given the quote around it.\<close>

definition debug_escape :: "char \<Rightarrow> char \<Rightarrow> string" where
  "debug_escape q c =
     (if c = q \<or> c = BS then [BS, c]
      else if c = CHR 0x0A then [BS, CHR ''n'']
      else if c = CHR 0x0D then [BS, CHR ''r'']
      else if c = CHR 0x09 then [BS, CHR ''t'']
      else if c = CHR 0x00 then [BS, CHR ''0'']
      else if of_char c < (32::nat) \<or> c = CHR 0x7F then [BS, CHR ''u'', CHR ''{''] @ digits_in 16 (of_char c) @ [CHR ''}'']
      else [c])"

definition debug_str :: "string \<Rightarrow> string" where
  "debug_str s = [DQ] @ concat (map (debug_escape DQ) s) @ [DQ]"

definition debug_char :: "char \<Rightarrow> string" where
  "debug_char c = [SQ] @ debug_escape SQ c @ [SQ]"

text \<open>\<^verbatim>\<open>{:?}\<close> of a duration in milliseconds: seconds with the fraction that is left of its zeros.\<close>

definition debug_millis :: "nat \<Rightarrow> string" where
  "debug_millis ms =
     (if ms = 0 then ''0ns''
      else if ms < 1000 then nat_str ms @ ''ms''
      else nat_str (ms div 1000)
           @ (if ms mod 1000 = 0 then []
              else CHR ''.'' # rev (dropWhile (\<lambda>c. c = CHR ''0'') (rev (pad_left 3 (CHR ''0'') (nat_str (ms mod 1000))))))
           @ ''s'')"

definition debug_secs :: "nat \<Rightarrow> string" where
  "debug_secs secs = debug_millis (1000 * secs)"

text \<open>The texts of other crates.\<close>

record foreign_texts =
  ft_heyo :: "heyo_error \<Rightarrow> string"
  ft_sql :: "store_error \<Rightarrow> string"
  ft_f64 :: "f64 \<Rightarrow> string"

section \<open>Files and expressions\<close>

fun show_pattern :: "pattern_error \<Rightarrow> string" where
  "show_pattern EmptyPattern = ''a path pattern is empty''"
| "show_pattern (NegatedPattern p rest) =
     ''path pattern '' @ debug_str p
     @ '' starts with `!`. Negation is spelled with a separate `paths-ignore:` list here, because a mixed list makes the result depend on the order the patterns happen to be written in. Write ''
     @ debug_str rest @ '' under `paths-ignore:`.''"
| "show_pattern (AbsolutePattern p rest) =
     ''path pattern '' @ debug_str p
     @ '' is absolute. Patterns are matched against repository-relative paths, so write '' @ debug_str rest @ ''.''"

fun debug_tok :: "foreign_texts \<Rightarrow> tok \<Rightarrow> string" where
  "debug_tok T (TIdent s) = ''Ident('' @ debug_str s @ '')''"
| "debug_tok T (TStr s) = ''Str('' @ debug_str s @ '')''"
| "debug_tok T (TNum x) = ''Num('' @ ft_f64 T x @ '')''"
| "debug_tok T TDot = ''Dot''"
| "debug_tok T TLParen = ''LParen''"
| "debug_tok T TRParen = ''RParen''"
| "debug_tok T TComma = ''Comma''"
| "debug_tok T TEqEq = ''EqEq''"
| "debug_tok T TNotEq = ''NotEq''"
| "debug_tok T TGt = ''Gt''"
| "debug_tok T TGe = ''Ge''"
| "debug_tok T TLt = ''Lt''"
| "debug_tok T TLe = ''Le''"
| "debug_tok T TAnd = ''And''"
| "debug_tok T TOr = ''Or''"
| "debug_tok T TNot = ''Not''"

fun show_expr :: "foreign_texts \<Rightarrow> expr_error \<Rightarrow> string" where
  "show_expr T (UnexpectedChar c) = ''unexpected character '' @ debug_char c @ '' in an expression''"
| "show_expr T UnterminatedString = ''a string literal was never closed''"
| "show_expr T (BadNumber s) = debug_str s @ '' is not a number''"
| "show_expr T UnclosedParen = ''a `(` was never closed''"
| "show_expr T (TrailingDot p) = debug_str p @ '' ends with a `.` and no property''"
| "show_expr T (Unexpected t) =
     ''unexpected '' @ (case t of Some k \<Rightarrow> ''Some('' @ debug_tok T k @ '')'' | None \<Rightarrow> ''None'') @ '' in an expression''"
| "show_expr T (Trailing t) = ''unexpected '' @ debug_tok T t @ '' after the end of an expression''"
| "show_expr T (UnknownFunction n) =
     ''no such function '' @ n @ ''(); available: contains, startsWith, endsWith, format, join, toJSON, fromJSON, success, failure, cancelled, always''"

section \<open>Workflows and plans\<close>

fun show_vm_spec :: "vm_spec_error \<Rightarrow> string" where
  "show_vm_spec UnsupportedDriver = ''vm.driver must be `firecracker` or `kvm`; `libvirt` is not supported for CI VMs''"
| "show_vm_spec ZeroDisk = ''vm.disk_size_gb must be greater than zero''"
| "show_vm_spec ZeroTtl = ''vm.ttl_seconds must be greater than zero''"
| "show_vm_spec (InvalidEnvKey k) =
     ''vm.env_vars key '' @ debug_str k @ '' is not a shell-safe name; use only letters, digits and underscores''"
| "show_vm_spec (EscapingCacheKeyFile p) =
     ''vm.cache_key_files entry '' @ debug_str p @ '' must be a relative path inside the repository, with no `..` segments''"
| "show_vm_spec ImageAndBuild =
     ''vm.image and vm.build cannot both be set: a built image's name is the hash of its Dockerfile and context, so naming one as well could only disagree with it. Drop `image:` to build, or drop `build:` to use an image the host already has.''"
| "show_vm_spec (EscapingBuildPath p) =
     ''vm.build path '' @ debug_str p @ '' must be a relative path inside the repository, with no `..` segments''"
| "show_vm_spec EmptyDockerfilePath = ''vm.build.dockerfile must name a file in the repository''"
| "show_vm_spec ZeroImageSize = ''vm.build.size_mb must be greater than zero''"

fun show_workflow :: "workflow_error \<Rightarrow> string" where
  "show_workflow (Yaml path detail) = path @ '' is not valid workflow YAML: '' @ detail"
| "show_workflow (NoJobs path) = path @ '' declares no jobs''"
| "show_workflow (DuplicateJob path) = path @ '' declares the same job id twice''"
| "show_workflow (BadTriggerBlock path detail) =
     ''the `on: submit:` block in '' @ path @ '' is malformed: '' @ detail
     @ ''. The filters are `branches`, `branches-ignore`, `paths` and `paths-ignore`, each a list of glob patterns.''"
| "show_workflow (BadFilter path f e) =
     ''`on: submit: '' @ f @ '':` in '' @ path @ '' '' @ DASH @ '' '' @ show_pattern e"
| "show_workflow (ConflictingFilter path a b) =
     path @ '' sets both `'' @ a @ '':` and `'' @ b
     @ '':` under `on: submit:`. Which wins would depend on the order the patterns happen to be written in, so write one or the other.''"
| "show_workflow (BadJobId i) =
     ''job id '' @ debug_str i @ '' must be 1-64 characters of letters, digits, '' @ [SQ, CHR ''_'', SQ] @ '' or '' @ [SQ, CHR ''-'', SQ]
     @ ''; it becomes a NATS subject token and part of a VM name''"
| "show_workflow (BadJob path j detail) = ''job '' @ debug_str j @ '' in '' @ path @ '' is malformed: '' @ detail"
| "show_workflow (BadVm j e) = ''job '' @ debug_str j @ '' has an invalid `vm:` '' @ DASH @ '' '' @ show_vm_spec e"
| "show_workflow (BadUses j e) = ''job '' @ debug_str j @ '' has an invalid `uses:` '' @ DASH @ '' ''
       @ (case e of EmptyUses \<Rightarrow> ''`uses:` is empty'' | _ \<Rightarrow> show_workflow e)"
| "show_workflow EmptyUses = ''`uses:` must name a network, as `<network>` or `<network>/<runner>`''"
| "show_workflow (EmptyRunner raw) =
     ''`uses: '' @ raw @ ''` has an empty segment; write `<network>`, `<network>/<node>`, or `<network>/<node>/<vm>`''"
| "show_workflow (UsesTooDeep raw) =
     ''`uses: '' @ raw @ ''` has more than three segments. The deepest form is `<network>/<node>/<vm>`, which names an existing VM on a host; `default` names the host this CI runs on.''"
| "show_workflow (VmWithoutNode raw) =
     ''`uses: '' @ raw @ ''` names a VM but not the host holding it. A sandbox does not record its host, so write `<network>/<node>/<vm>` ''
     @ DASH @ '' otherwise every host in the network has to be interrogated to find it.''"
| "show_workflow (UnknownNeed j need) =
     ''job '' @ debug_str j @ '' needs '' @ debug_str need @ '', which no job in this workflow declares''"
| "show_workflow (SelfNeed j) = ''job '' @ debug_str j @ '' needs itself''"
| "show_workflow (Cycle path) = ''jobs form a `needs` cycle: '' @ join '' -> '' path"
| "show_workflow (NoSteps j) = ''job '' @ debug_str j @ '' has no steps''"
| "show_workflow (StepRunAndUses j st) =
     ''step '' @ debug_str st @ '' in job '' @ debug_str j @ '' sets both `run:` and `uses:`; a step is one or the other''"
| "show_workflow (StepNeitherRunNorUses j st) =
     ''step '' @ debug_str st @ '' in job '' @ debug_str j @ '' sets neither `run:` nor `uses:`''"

fun show_matrix :: "matrix_error \<Rightarrow> string" where
  "show_matrix NotAMapping = ''`strategy.matrix` must be a mapping of axes''"
| "show_matrix AxisNameNotString = ''a matrix axis name must be a string''"
| "show_matrix (NotAListOfMappings n) = ''`'' @ n @ ''` must be a list of mappings''"
| "show_matrix (AxisNotAList n) = ''matrix axis '' @ debug_str n @ '' must be a list of values''"
| "show_matrix (AxisEmpty n) = ''matrix axis '' @ debug_str n @ '' is empty''"

fun show_plan :: "plan_error \<Rightarrow> string" where
  "show_plan (PlanWorkflow e) = show_workflow e"
| "show_plan (BadMatrix j e) = ''job '' @ debug_str j @ '' has an invalid matrix: '' @ show_matrix e"
| "show_plan (EmptyMatrix j) =
     ''job '' @ debug_str j @ '' has a matrix that excludes every combination, so it would never run''"
| "show_plan (Unsatisfiable names) =
     ''these jobs can never start because their dependencies produced no jobs: '' @ join '', '' names"

fun show_decline :: "decline \<Rightarrow> string" where
  "show_decline (BranchNotIn branch ps) = ''branch '' @ debug_str branch @ '' is not in `branches: ['' @ join '', '' ps @ '']`''"
| "show_decline (BranchIgnored branch hit) = ''branch '' @ debug_str branch @ '' matches `branches-ignore: '' @ hit @ ''`''"
| "show_decline (NothingChanged ps ch) =
     ''nothing under `paths: ['' @ join '', '' ps @ '']` changed ('' @ display_changes ch @ '')''"
| "show_decline (AllIgnored ps) = ''every changed path matches `paths-ignore: ['' @ join '', '' ps @ '']`''"

text \<open>The warning about a pin: the job, its host and the host's status, with the seconds it will wait.\<close>

definition show_pin_warning :: "nat \<Rightarrow> string \<Rightarrow> runner \<Rightarrow> string" where
  "show_pin_warning wait key r =
     key @ '' is pinned to '' @ ru_name r @ '' ('' @ runner_status_str (ru_status r)
     @ ''), which is not online. The job will wait on that host's queue and run when it comes back, or fail after ''
     @ nat_str wait @ ''s.''"

section \<open>Submits and services\<close>

definition NO_CREDENTIAL :: string where
  "NO_CREDENTIAL = ''the request carries no usable credential. Register the repository on /repos and set `git config ci.token`, or sign with the shared CI_WEBHOOK_SECRET and check that the client and the server agree on it.''"

fun show_trigger :: "trigger_error \<Rightarrow> string" where
  "show_trigger MissingSignature = NO_CREDENTIAL"
| "show_trigger MalformedSignature = NO_CREDENTIAL"
| "show_trigger BadSignature = NO_CREDENTIAL"
| "show_trigger (UnsupportedFormat f) =
     ''source archive format '' @ debug_str f @ '' is not supported; this server understands `tar.gz`. Upgrade `git submit`.''"
| "show_trigger (BadArchive e) = ''the source archive could not be read: '' @ e"
| "show_trigger (EscapingEntry p) =
     ''the source archive contains '' @ debug_str p @ '', which would write outside the workspace. Refusing the whole archive.''"
| "show_trigger (ArchiveTooLarge bytes most) =
     ''the source archive is '' @ nat_str bytes @ '' bytes, over the '' @ nat_str most
     @ ''-byte limit. Raise CI_MAX_SOURCE_BYTES, or exclude build output with a .gitattributes `export-ignore`.''"
| "show_trigger (TriggerIo path reason) = path @ '': '' @ reason"
| "show_trigger (NoWorkflows pat) = ''no workflow files matched '' @ debug_str pat @ '' in the submitted tree''"
| "show_trigger NoGit =
     ''this submit is a git bundle, but `git` is not on this server's PATH. Install git on the orchestrator, or submit with `git submit --archive` to send a plain tree instead.''"

fun show_secrets :: "secrets_error \<Rightarrow> string" where
  "show_secrets (Transport e) = ''could not reach heyosecret: '' @ e"
| "show_secrets (Secrets.Api e) = ''heyosecret rejected the request: '' @ e"
| "show_secrets (Decode e) = ''heyosecret returned something unreadable: '' @ e"
| "show_secrets (NotText p) =
     ''the secret at '' @ debug_str p @ '' is not UTF-8, so it cannot be injected as an environment variable''"
| "show_secrets (Unreadable path reason) =
     ''could not read the secret at '' @ debug_str path @ '': '' @ reason
     @ ''. heyosecret answers 404 for every read failure, so this may be a missing path, no active version, or a decryption failure.''"

text \<open>What to do about the artifact store's own reasons.\<close>

definition slug_hint :: "string \<Rightarrow> string" where
  "slug_hint slug =
     (if slug = ''no_space'' then ''. The store is full.''
      else if slug = ''unauthorized'' then ''. Check CI_ARTIFACT_TOKEN.''
      else if slug = ''read_only'' then ''. The store has ART_READ_ONLY set.''
      else if slug = ''invalid_tag'' then ''. A tag may only contain [A-Za-z0-9_.-] and must be at most 64 characters.''
      else [])"

fun show_artifact :: "artifact_error \<Rightarrow> string" where
  "show_artifact (Misconfigured e) = ''the artifact sink is misconfigured: '' @ e"
| "show_artifact (ArtifactIo e) = ''writing an artifact: '' @ e"
| "show_artifact (ArtifactTransport e) = ''could not reach the artifact store: '' @ e"
| "show_artifact (StoreRefused what status slug message) =
     what @ '' failed ('' @ nat_str status @ (if slug = [] then [] else CHR '' '' # slug) @ ''): '' @ message @ slug_hint slug"
| "show_artifact (NotImplemented sink detail) =
     ''the '' @ sink @ '' artifact sink is not implemented yet ('' @ detail @ ''). Set CI_ARTIFACT_SINK=disk or =artifacts.''"

fun show_objects :: "objects_error \<Rightarrow> string" where
  "show_objects (ObjTransport e) = ''could not reach app-lb: '' @ e @ ''. Check CI_APP_LB_URL.''"
| "show_objects (ObjApi status body) =
     ''app-lb answered '' @ nat_str status @ '' for GET /workflows: '' @ body
     @ ''. A 401 usually means CI_APP_LB_TOKEN is missing or unscoped.''"
| "show_objects (ObjDecode e) = ''app-lb sent a workflow list this build cannot read: '' @ e"

fun show_nats :: "nats_auth_error \<Rightarrow> string" where
  "show_nats EmptyUrl = ''the NATS URL is empty; set CI_NATS_URL''"
| "show_nats EmptyServer =
     ''the NATS URL has an empty entry: a comma-separated cluster URL must not have a trailing or doubled comma''"
| "show_nats (MalformedServer entry) = ''could not parse the NATS server address '' @ debug_str entry"
| "show_nats (ConflictingCredentials a b) =
     ''conflicting NATS credentials: '' @ a @ '' and '' @ b
     @ '' are both set, and there is no order of precedence between them that is not a guess '' @ DASH @ '' set exactly one''"
| "show_nats UserWithoutPassword = ''CI_NATS_USER is set without CI_NATS_PASSWORD; for token auth use CI_NATS_TOKEN instead''"
| "show_nats PasswordWithoutUser = ''CI_NATS_PASSWORD is set without CI_NATS_USER''"
| "show_nats (CredsFileUnreadable path reason) = ''could not read the NATS creds file '' @ debug_str path @ '': '' @ reason"
| "show_nats (InvalidCreds reason) = ''the NATS creds file is not a valid JWT + nkey pair: '' @ reason"

fun show_bus :: "bus_error \<Rightarrow> string" where
  "show_bus (Connect e) = ''could not connect to NATS: '' @ e"
| "show_bus (StreamErr stream reason) = ''JetStream stream '' @ stream @ '': '' @ reason"
| "show_bus (ConsumerErr durable reason) = ''JetStream consumer '' @ durable @ '': '' @ reason"
| "show_bus (PublishErr subject reason) = ''publishing to '' @ subject @ '': '' @ reason"
| "show_bus (EncodeErr e) = ''encoding a job message: '' @ e"
| "show_bus (BadToken t) =
     debug_str t @ '' cannot be part of a NATS subject; ids must be [A-Za-z0-9_-]. This is checked here because a subject is interpolated, not escaped.''"

definition show_store :: "foreign_texts \<Rightarrow> store_error \<Rightarrow> string" where
  "show_store T e = ''database error: '' @ ft_sql T e"

fun show_migrate :: "migrate_error \<Rightarrow> string" where
  "show_migrate (MgSql e) = ''database error: '' @ e"
| "show_migrate (MgMigrations path reason) = ''migration '' @ path @ '' failed: '' @ reason"

fun show_pool :: "pool_error \<Rightarrow> string" where
  "show_pool (Encode e) = ''could not serialize a vm spec for hashing: '' @ e"
| "show_pool (EscapingPath p) =
     ''cache_key_files entry '' @ debug_str p @ '' escapes the checkout; it must be a relative path with no `..` segments''"
| "show_pool (UnreadableFile path reason) =
     ''could not read cache_key_files entry '' @ debug_str path @ '': '' @ reason
     @ ''. A missing file is fine and busts the pool when it appears; this one exists but could not be read.''"

fun show_runner :: "runner_error \<Rightarrow> string" where
  "show_runner (ControlPlane m) = ''heyvm control plane: '' @ m"
| "show_runner (UnknownNetworkName wanted available) =
     ''CI_NETWORK='' @ debug_str wanted
     @ (if available = [] then '' matches no network, and this account has none. Create one with `heyvm network create`.''
        else '' matches no network. Available: '' @ join '', '' available)"
| "show_runner (AmbiguousNetwork wanted ids) =
     ''CI_NETWORK='' @ debug_str wanted @ '' matches '' @ nat_str (length ids) @ '' networks ('' @ join '', '' ids
     @ ''); set it to an id instead, because the two have different runner pools''"
| "show_runner (UnknownDaemon i) =
     ''no daemon '' @ debug_str i
     @ '' is registered to this account; it may have been unregistered while still a member of the network''"
| "show_runner (NoTicket r detail) =
     ''runner '' @ debug_str r @ '' has no P2P connection ticket ('' @ detail
     @ ''). It is registered but its heyvmd tunnel is not up '' @ DASH @ '' check that heyvmd is running on that host.''"
| "show_runner (Unreachable r reason) = ''could not reach runner '' @ debug_str r @ '': '' @ reason"
| "show_runner (DaemonUnauthenticated i) =
     ''runner '' @ debug_str i
     @ '' serves its heyvm API without authentication, so its iroh ticket grants a host shell to anyone who has seen it. Start heyvmd with JWT_SECRET set, or set CI_ALLOW_UNAUTHENTICATED_RUNNERS=true if this host is local-only.''"

section \<open>VMs, images and jobs\<close>

fun show_vm :: "foreign_texts \<Rightarrow> vm_error \<Rightarrow> string" where
  "show_vm T (CreateError name e) = ''could not create VM '' @ debug_str name @ '': '' @ ft_heyo T e"
| "show_vm T (DaemonError sandbox what e) = what @ '' for '' @ sandbox @ '': '' @ ft_heyo T e"
| "show_vm T (NotRunnable sandbox status reason) =
     ''VM '' @ sandbox @ '' is '' @ status @ '' and cannot run steps'' @ (case reason of Some r \<Rightarrow> '': '' @ r | None \<Rightarrow> [])"
| "show_vm T (BadOperationId i) =
     ''operation id '' @ debug_str i @ '' is not acceptable to the daemon; it must be 1-160 bytes of letters, digits, ''
     @ [SQ, CHR ''.'', SQ] @ '', '' @ [SQ, CHR ''_'', SQ] @ '' or '' @ [SQ, CHR ''-'', SQ]"
| "show_vm T (ExecFailed sandbox op reason) =
     ''the daemon could not run operation '' @ op @ '' on '' @ sandbox @ '': '' @ reason"
| "show_vm T (ExecTimeout sandbox op after) =
     ''operation '' @ op @ '' on '' @ sandbox @ '' did not finish within '' @ debug_millis after
     @ ''. The guest timeout should have fired first, so the daemon most likely stopped responding.''"
| "show_vm T (MalformedRecord sandbox op detail) =
     ''the daemon returned an exec record for '' @ op @ '' on '' @ sandbox @ '' that could not be interpreted: '' @ detail"
| "show_vm T (UploadFailed sandbox path chunk n detail) =
     ''writing '' @ path @ '' into '' @ sandbox @ '' failed on chunk '' @ nat_str (chunk + 1) @ '' of '' @ nat_str n @ '': '' @ detail"
| "show_vm T (UploadCorrupted sandbox path expected actual) =
     ''writing '' @ path @ '' into '' @ sandbox
     @ '' completed, but the guest does not hold the bytes that were sent (sha256 mismatch: sent '' @ expected
     @ '', guest reports '' @ actual @ '') '' @ DASH @ '' the exec channel or the guest filesystem corrupted the data''"

fun show_image :: "foreign_texts \<Rightarrow> image_error \<Rightarrow> string" where
  "show_image T (NoDockerfile path reason) =
     ''vm.build.dockerfile '' @ debug_str path @ '' could not be read from the submitted tree: '' @ reason"
| "show_image T (UnreadableContext path reason) =
     ''build context file '' @ debug_str path @ '' could not be read: '' @ reason"
| "show_image T (Pack e) = ''could not pack the build context: '' @ e"
| "show_image T (ImageDaemon what e) = what @ '': '' @ ft_heyo T e"
| "show_image T (BuildFailed name detail) = ''the runner could not build image '' @ name @ '': '' @ detail"
| "show_image T (BuildTimeout name after) =
     ''the runner did not finish building image '' @ name @ '' within '' @ debug_secs after"
| "show_image T (WaitTimeout name waited) =
     ''another job has been building image '' @ name @ '' on this runner for '' @ debug_secs waited
     @ '' and has not finished. This job gave up waiting rather than building a second copy; it will be retried.''"

definition or_none :: "string list \<Rightarrow> string" where
  "or_none items =
     (if items = [] then ''nothing '' @ DASH @ '' no network in CI_NETWORK resolved'' else join '', '' items)"

fun show_dispatch :: "foreign_texts \<Rightarrow> dispatch_error \<Rightarrow> string" where
  "show_dispatch T (DStore e) = show_store T e"
| "show_dispatch T (DPool e) = show_pool e"
| "show_dispatch T (DBus e) = show_bus e"
| "show_dispatch T (DRunner e) = show_runner e"
| "show_dispatch T (DVm e) = show_vm T e"
| "show_dispatch T (DImage e) = show_image T e"
| "show_dispatch T (BadPlan e) = ''the stored plan could not be read: '' @ e"
| "show_dispatch T (Condition e) = ''an `if:` condition could not be evaluated: '' @ show_expr T e"
| "show_dispatch T (UnknownJob i) = ''no job '' @ i @ '' exists''"
| "show_dispatch T (UnknownRunner wanted network) =
     ''no runner '' @ debug_str wanted @ '' is a host member of network '' @ debug_str network
     @ ''. Add it with `heyvm network add-host`, or set `fallback: any` on the job.''"
| "show_dispatch T (RunnerOffline r status) =
     ''runner '' @ debug_str r @ '' is '' @ runner_status_str status
     @ ''. The job stays queued for that host because moving it would discard the warm VM the pin asked for; set `fallback: any` to allow migrating.''"
| "show_dispatch T (NoOnlineRunner net) = ''no host in network '' @ debug_str net @ '' is online to take this job''"
| "show_dispatch T NoNetwork =
     ''the runner pool has not resolved a network yet; check CI_NETWORK and the heyvm control plane''"
| "show_dispatch T NoDefaultNode =
     ''`uses: default` means the host this orchestrator runs on, and that host could not be identified. Set CI_DEFAULT_NODE to its daemon id or name ''
     @ DASH @ '' heyvmd reports its own id only when BACKEND_SERVER_ID is set in its environment, so it is often not discoverable.''"
| "show_dispatch T (CancelledJob j) =
     ''job '' @ debug_str j @ '' was cancelled. The step that was already running was allowed to finish '' @ DASH
     @ '' the daemon has no way to abort one '' @ DASH @ '' and nothing after it ran.''"
| "show_dispatch T (VmNotSweepable i) =
     i @ '' cannot be destroyed from here. It is either unknown, on a host this orchestrator does not serve, or currently running a job ''
     @ DASH @ '' a claimed VM is left alone so cleaning up cannot fail a live build.''"
| "show_dispatch T (JobTimeout j after) =
     ''job '' @ debug_str j @ '' ran past CI_MAX_JOB_SECONDS ('' @ nat_str after
     @ ''s) and was cut off. Its VM is reclaimed once this dispatcher's lease on it lapses.''"
| "show_dispatch T (UnknownVm wanted node available) =
     ''no sandbox '' @ debug_str wanted @ '' exists on node '' @ debug_str node
     @ ''. `uses: <network>/<node>/<vm>` runs in a VM that is already there '' @ DASH
     @ '' it does not create one. On that node: '' @ or_none available"
| "show_dispatch T (DefaultNodeUnserved node served') =
     ''`uses: default` resolved to daemon '' @ debug_str node
     @ '', but that host is in no network this orchestrator serves. Join it to one with `heyvm network add-host`. Currently serving: ''
     @ or_none served'"
| "show_dispatch T (UnservedNetwork wanted served') =
     ''network '' @ debug_str wanted
     @ '' exists, but this orchestrator does not take work for it. Add it to CI_NETWORK (or set CI_NETWORK=*). Currently serving: ''
     @ or_none served'"
| "show_dispatch T (UnknownNetwork wanted served') =
     ''no heyvm network is named '' @ debug_str wanted
     @ ''. Check the job's `uses:` or the repository's assigned network on /repos. Currently serving: '' @ or_none served'"
| "show_dispatch T (StepFailed r) = r"
| "show_dispatch T (Checkout r) = ''checkout failed: '' @ r"
| "show_dispatch T (SecretsErr r) = r"
| "show_dispatch T (Artifact r) = r"
| "show_dispatch T (DTrigger e) = show_trigger e"
| "show_dispatch T (WorkflowErr e) = e"

section \<open>Signs of a broken guest\<close>

lemma marked: "mark \<in> set corruption_marks \<Longrightarrow> list_ex (contains_sub (a @ mark @ b)) corruption_marks"
  by (auto simp: list_ex_iff intro!: bexI [of _ mark])

text \<open>An upload that arrived damaged is recognised by its text, whatever the names in it are, and so is every
  failed checkout whose output names a failure of the guest's file system. A step that fails is not, whatever
  it printed.\<close>

lemma corruption_recognised:
  "indicates_guest_corruption (\<lambda>v. show_dispatch T (DVm v)) (DVm (UploadCorrupted sandbox path expected actual))"
  "mark \<in> set corruption_marks \<Longrightarrow> indicates_guest_corruption sv (Checkout (a @ mark @ b))"
  "\<not> indicates_guest_corruption sv (StepFailed r)"
proof -
  have printed: "show_dispatch T (DVm (UploadCorrupted sandbox path expected actual)) =
      (''writing '' @ path @ '' into '' @ sandbox
       @ '' completed, but the guest does not hold the bytes that were sent ('') @ ''sha256 mismatch''
      @ ('': sent '' @ expected @ '', guest reports '' @ actual @ '') '' @ DASH
         @ '' the exec channel or the guest filesystem corrupted the data'')"
    by simp
  show "indicates_guest_corruption (\<lambda>v. show_dispatch T (DVm v)) (DVm (UploadCorrupted sandbox path expected actual))"
    unfolding indicates_guest_corruption_def dispatch_error.case printed by (rule marked) (simp add: corruption_marks_def)
  show "indicates_guest_corruption sv (Checkout (a @ mark @ b))" if "mark \<in> set corruption_marks"
    using marked [OF that, of "''checkout failed: '' @ a" b] by (simp add: indicates_guest_corruption_def)
qed (simp add: indicates_guest_corruption_def)

text \<open>A job that fails like that leaves no row of its VM behind, so no other job is given it.\<close>

lemma broken_guest_not_reused:
  assumes "start_job (ho_now H) (jm_job_id msg) runner vm fp (int attempt) (sy_db (wo_sys w)) = (True, d)"
    and "fst (job_body H msg p vm (tell H msg p [(''status'', JStr ''running''), (''runner'', JStr runner), (''sandbox'', JStr vm),
           (''reusedVm'', JBool reused), (''attempt'', JNum (NInt (int attempt)))] (on_sys (on_db (\<lambda>_. d)) w))) = Err e"
    and "indicates_guest_corruption (\<lambda>v. ho_show H (DVm v)) e" "\<not> is_existing_vm (jp_target p)"
  shows "vm \<notin> pv_sandbox_id ` set (world_pool (snd (run_on H msg attempt p runner vm reused fp w)))"
  using assms by (auto simp: run_on_def Let_def case_prod_beta release_vm_def forget_vm_def)

section \<open>Refused signatures\<close>

lemma verify_signature_errors:
  "verify_signature hmac secret body header = Err e \<Longrightarrow> e \<in> {MissingSignature, MalformedSignature, BadSignature}"
  by (auto simp: verify_signature_def and_then_Err ok_or_def Let_def split: option.splits if_splits)

text \<open>A submit signed with the shared secret is accepted, or refused with one answer that does not tell what was
  wrong with the signature.\<close>

lemma signature_refusals_alike:
  assumes "bearer h = None" "\<not> ap_require_repo_token A"
  shows "authenticate_submit A show_trigger now h body d \<in> {(Ok CredShared, d), (Err (error_reply 401 NO_CREDENTIAL), d)}"
  using assms
  by (auto simp: authenticate_submit_def trigger_status_def split: option.split result.split dest!: verify_signature_errors)

section \<open>Messages that say something else\<close>

text \<open>Asked for a VM on a host that has none, the program says that no network was configured.\<close>

lemma empty_host_blames_network:
  "\<exists>a. show_dispatch T (UnknownVm wanted node []) = a @ ''nothing '' @ DASH @ '' no network in CI_NETWORK resolved''"
  by (simp add: or_none_def)

text \<open>The functions listed for one that does not exist leave out one that does.\<close>

lemma changed_not_listed: "\<not> contains_sub (show_expr T (UnknownFunction ''f'')) ''changed''"
  by code_simp

end
