(* ===== verification/SecretStore.thy ===== *)
theory SecretStore
  imports Secrets NatsAuth
begin

text \<open>
  The client of the secret store (\<^verbatim>\<open>Secrets::resolve\<close> and \<^verbatim>\<open>Secrets::read\<close> of \<^verbatim>\<open>secrets.rs\<close>) down to its
  requests. What the store answers, the readers of its two JSON bodies and base64 are arguments. The result: what
  is resolved is text, found under the name its path ends in, and a secret that cannot be read fails the whole.
\<close>

text \<open>An answer: no connection, or a status and a body.\<close>

type_synonym store_answer = "(string, nat \<times> string) result"

record secret_store =
  st_base_url :: "string option"
  st_token :: "string option"
  st_list :: "string \<Rightarrow> string \<Rightarrow> string \<Rightarrow> store_answer"
  st_read :: "string \<Rightarrow> string \<Rightarrow> string \<Rightarrow> store_answer"
  st_show_status :: "nat \<Rightarrow> string"
  st_list_of :: "string \<Rightarrow> (string, secret_meta list) result"
  st_value_of :: "string \<Rightarrow> (string, string) result"
  st_base64 :: "string \<Rightarrow> (string, string) result"

definition is_configured :: "secret_store \<Rightarrow> bool" where
  "is_configured S \<longleftrightarrow> st_base_url S \<noteq> None \<and> st_token S \<noteq> None"

text \<open>\<^verbatim>\<open>send\<close> with \<^verbatim>\<open>error_for_status\<close>: a status from 400 on is an error.\<close>

definition checked_body :: "secret_store \<Rightarrow> (string \<Rightarrow> secrets_error) \<Rightarrow> store_answer \<Rightarrow> (secrets_error, string) result" where
  "checked_body S refused answer =
     and_then (map_err Transport answer) (\<lambda>(status, body).
       if 400 \<le> status \<and> status < 600 then Err (refused (st_show_status S status)) else Ok body)"

definition list_secrets :: "secret_store \<Rightarrow> string \<Rightarrow> string \<Rightarrow> string \<Rightarrow> (secrets_error, secret_meta list) result" where
  "list_secrets S base token pre =
     and_then (checked_body S Secrets.Api (st_list S (base @ ''/v1/secrets'') token pre)) (\<lambda>body.
       map_err Decode (st_list_of S body))"

definition read_secret :: "secret_store \<Rightarrow> string \<Rightarrow> (secrets_error, string) result" where
  "read_secret S path =
     (case (st_base_url S, st_token S) of
        (Some base, Some token) \<Rightarrow>
          and_then (checked_body S (Unreadable path) (st_read S (base @ ''/v1/secrets/read'') token path)) (\<lambda>body.
          and_then (map_err Decode (st_value_of S body)) (\<lambda>encoded.
          and_then (map_err (\<lambda>e. Decode (path @ '': '' @ e)) (st_base64 S encoded)) (\<lambda>bytes.
            if utf8_valid bytes then Ok bytes else Err (NotText path))))
      | _ \<Rightarrow> Ok [])"

definition resolve_from :: "secret_store \<Rightarrow> string \<Rightarrow> (secrets_error, resolved) result" where
  "resolve_from S pre =
     (case (st_base_url S, st_token S) of
        (Some base, Some token) \<Rightarrow> resolve True (list_secrets S base token) (read_secret S) pre
      | _ \<Rightarrow> Ok \<lparr>rs_secrets = [], rs_vars = []\<rparr>)"

lemma resolve_from_eq:
  "resolve_from S pre = resolve (is_configured S) (list_secrets S (the (st_base_url S)) (the (st_token S))) (read_secret S) pre"
  by (auto simp: resolve_from_def resolve_def is_configured_def split: option.split)

lemma read_secret_text: "read_secret S path = Ok v \<Longrightarrow> utf8_valid v"
  by (auto simp: read_secret_def and_then_Ok split: option.splits if_splits)

definition all_text :: "resolved \<Rightarrow> bool" where
  "all_text r \<longleftrightarrow> (\<forall>v\<in>snd ` (set (rs_secrets r) \<union> set (rs_vars r)). utf8_valid v)"

lemma set_bm_insert: "set (bm_insert k v m) \<subseteq> insert (k, v) (set m)"
  by (induction k v m rule: bm_insert.induct) auto

lemma snd_bm_insert: "x \<in> snd ` set (bm_insert k v m) \<Longrightarrow> x = v \<or> x \<in> snd ` set m"
  using set_bm_insert [of k v m] by auto

lemma all_text_add: "all_text r \<Longrightarrow> utf8_valid v \<Longrightarrow> all_text (add_secret pre r (meta, v))"
  unfolding all_text_def add_secret_def by (auto simp: image_Un dest!: snd_bm_insert split: option.split)

text \<open>Every value that reaches a job is text.\<close>

lemma resolved_is_text:
  assumes "resolve_from S pre = Ok r"
  shows "all_text r"
proof -
  have step: "all_text (foldl (add_secret pre) r0 fetched)" if "\<forall>mv\<in>set fetched. utf8_valid (snd mv)" "all_text r0" for fetched r0
    using that by (induction fetched arbitrary: r0) (auto simp: all_text_add)
  have reads: "\<forall>mv\<in>set fetched. utf8_valid (snd mv)"
    if "map_result (\<lambda>m. and_then (read_secret S (sm_path m)) (\<lambda>v. Ok (m, v))) metas = Ok fetched" for metas fetched
    using that
  proof (induction metas arbitrary: fetched)
    case (Cons m metas)
    then obtain v rest where "read_secret S (sm_path m) = Ok v" "fetched = (m, v) # rest" "\<forall>mv\<in>set rest. utf8_valid (snd mv)"
      by (auto simp: and_then_Ok)
    with read_secret_text show ?case by auto
  qed simp
  have none: "all_text \<lparr>rs_secrets = [], rs_vars = []\<rparr>" by (simp add: all_text_def)
  show ?thesis using assms step [OF reads none] none unfolding resolve_from_eq resolve_def
    by (auto simp: and_then_Ok split: if_splits)
qed

text \<open>One secret that is not text, or that the store does not give, fails the whole.\<close>

lemma unreadable_fails:
  assumes "is_configured S" "list_secrets S (the (st_base_url S)) (the (st_token S)) pre = Ok metas"
    and "m \<in> set metas" "read_secret S (sm_path m) = Err e"
  shows "\<exists>e'. resolve_from S pre = Err e'"
proof -
  have "map_result (\<lambda>m. and_then (read_secret S (sm_path m)) (\<lambda>v. Ok (m, v))) metas \<noteq> Ok fetched" for fetched
    using assms(3,4) by (induction metas arbitrary: fetched) (auto simp: and_then_Ok)
  then have "resolve_from S pre \<noteq> Ok r" for r
    using assms(1,2) by (auto simp: resolve_from_eq resolve_def and_then_Ok)
  then show ?thesis by (cases "resolve_from S pre") auto
qed

end
