(* ===== verification/System.thy ===== *)
theory System
  imports Background
begin

text \<open>
  The program as a whole: everything that changes its tables, as steps of one system. A step is a message
  delivered to a consumer, a tick of the lease loop, a request to the submit endpoint, or a request to a page that
  manages; a delivery that dies with its process stops after any of its statements, which are steps of their own.
  The main result is that from a database without jobs and VMs no sequence of these, on any number of
  instances with any answers from outside, makes the job table or the pool inconsistent.
\<close>

section \<open>The invariant and the outside\<close>

definition sys_ok :: "sys \<Rightarrow> bool" where
  "sys_ok s \<longleftrightarrow> jobs_ok (sy_db s) \<and> pool_ok (sy_pool s)"

abbreviation world_ok :: "world \<Rightarrow> bool" where
  "world_ok w \<equiv> sys_ok (wo_sys w)"

text \<open>What is relied on: what other instances do while a job waits is consistent, and the daemon gives no
  sandbox an id of the form of the pool's placeholders.\<close>

definition honest :: "host \<Rightarrow> bool" where
  "honest H \<longleftrightarrow> polite H \<and> (\<forall>s. pool_ok (sy_pool s) \<longrightarrow> pool_ok (sy_pool (ho_others H s)))
     \<and> (\<forall>name spec vm. ho_create H name spec = Ok vm \<longrightarrow> \<not> is_placeholder vm)"

text \<open>\<open>envs\<close> are the environments submits are handled in, with any type of file trees. A delivery that runs
  into its time limit is dropped in some state, of which only consistency is assumed.\<close>

inductive system_step :: "'t submit_env set \<Rightarrow> world \<Rightarrow> world \<Rightarrow> bool"
  for envs :: "'t submit_env set" where
  sys_deliver: "honest H \<Longrightarrow> (\<And>x. dropped = Some x \<Longrightarrow> world_ok x)
     \<Longrightarrow> system_step envs w (snd (deliver H ceiling attempt payload dropped w))"
| sys_tick: "system_step envs w (lease_tick H set_ttl wait w)"
| sys_submit: "E \<in> envs \<Longrightarrow> system_step envs w (w\<lparr>wo_sys := fst (snd (post_submit A E show_trigger read_request h body (wo_sys w, disk)))\<rparr>)"
| sys_manage: "system_step envs w (wb_world (snd (handle_manage W m h \<lparr>wb_world = w, wb_pool = pool\<rparr>)))"
| sys_job_statement: "job_step (sy_db (wo_sys w)) d \<Longrightarrow> system_step envs w (on_sys (on_db (\<lambda>_. d)) w)"
| sys_pool_statement: "vm_step (world_pool w) p \<Longrightarrow> system_step envs w (on_pool (\<lambda>_. p) w)"

inductive_cases system_stepE: "system_step envs w w'"

text \<open>A database as it is after its migrations: no jobs, no VMs.\<close>

definition fresh_world :: "world \<Rightarrow> bool" where
  "fresh_world w \<longleftrightarrow> world_jobs w = [] \<and> world_pool w = []"

section \<open>The pool while a job runs\<close>

lemmas pool_steps = vm_step.intros [THEN pool_ok_step]

lemma claimed_id: "pool_ok p \<Longrightarrow> claim_vm locked now runner fp jid l p = (Some vm, rows) \<Longrightarrow> \<not> is_placeholder vm"
  by (rule claim_vm_cases [of locked now runner fp jid l p]) (auto simp: table_ok_def vm_row_ok_def claimable_def)

lemma claim_pooled_ok:
  assumes "pool_ok (world_pool w)" "claim_pooled H runner p fp jid w = (r, w')"
  shows "pool_ok (world_pool w') \<and> (\<forall>vm. r = Ok (Some vm) \<longrightarrow> \<not> is_placeholder vm)"
proof -
  obtain c rows where c: "claim_vm (ho_locked H) (ho_now H) runner fp jid (ho_lease H) (world_pool w) = (c, rows)"
    by fastforce
  have "pool_ok rows" using pool_ok_claim [OF assms(1)] c by (metis snd_conv)
  then show ?thesis using assms c claimed_id [OF assms(1)] pool_steps(6)
    by (cases c) (auto simp: claim_pooled_def Let_def split: if_splits result.splits)
qed

lemma create_vm_id: "honest H \<Longrightarrow> create_vm H name spec = Ok vm \<Longrightarrow> \<not> is_placeholder vm"
  by (auto simp: create_vm_def honest_def split: result.splits)

lemma fresh_vm_ok:
  assumes "honest H" "pool_ok (world_pool w)" "fresh_vm H runner p fp jid w = (r, w')"
  shows "pool_ok (world_pool w') \<and> (\<forall>vm. r = Ok vm \<longrightarrow> \<not> is_placeholder vm)"
proof -
  obtain b rows where b: "begin_build (ho_now H) jid runner fp (jp_base_id p) (ho_lease H) (world_pool w) = (b, rows)"
    by fastforce
  have "pool_ok (forget_vm b rows)" using pool_steps(6) pool_steps(2) [OF assms(2)] b by (metis snd_conv)
  then show ?thesis using assms(3) b create_vm_id [OF assms(1)] pool_steps(4)
    by (auto simp: fresh_vm_def Let_def split: result.splits)
qed

lemma acquire_vm_ok:
  assumes "honest H" "pool_ok (world_pool w)" "acquire_vm H runner p fp jid w = (r, w')"
  shows "pool_ok (world_pool w') \<and> (\<forall>vm b. r = Ok (vm, b) \<longrightarrow> \<not> is_placeholder vm)"
proof -
  obtain o1 w1 where o1: "host_options H runner w = (o1, w1)" by fastforce
  obtain c w2 where c: "claim_pooled H runner p fp jid w1 = (c, w2)" by fastforce
  obtain f w3 where f: "fresh_vm H runner p fp jid w2 = (f, w3)" by fastforce
  have ok1: "pool_ok (world_pool w1)" using host_options_sys [OF o1] assms(2) by simp
  note ok2 = claim_pooled_ok [OF ok1 c]
  note ok3 = fresh_vm_ok [OF assms(1) conjunct1 [OF ok2] f]
  from assms(3) o1 c f ok1 ok2 ok3 show ?thesis
    by (auto simp: acquire_vm_def split: result.splits option.splits)
qed

lemma machine_for_ok:
  assumes "honest H" "pool_ok (world_pool w)" "machine_for H msg p runner None w = (r, w')"
  shows "pool_ok (world_pool w') \<and> (\<forall>vm b fp. r = Ok (vm, b, fp) \<longrightarrow> \<not> is_placeholder vm)"
proof (cases "fingerprint (ho_encode_spec H) (ho_sha H) (ho_files H) (jp_vm p)")
  case (Err e)
  with assms(2,3) show ?thesis by (auto simp: machine_for_def)
next
  case (Ok fp)
  obtain a w1 where a: "acquire_vm H runner p fp (jm_job_id msg) w = (a, w1)" by fastforce
  with assms(3) Ok acquire_vm_ok [OF assms(1,2) a] show ?thesis
    by (cases a) (auto simp: machine_for_def)
qed

lemma release_vm_ok:
  assumes "pool_ok (world_pool w)" "is_existing_vm (jp_target p) \<or> \<not> is_placeholder vm"
  shows "pool_ok (world_pool (release_vm H p vm c w))"
  using assms pool_steps(5,6) by (auto simp: release_vm_def destroy_vm_sys)

lemma pick_runner_existing: "pick_runner pool p = Ok (runner, Some wanted) \<Longrightarrow> is_existing_vm (jp_target p)"
  by (auto simp: pick_runner_def place_def is_existing_vm_def
      split: option.splits prod.splits list.splits if_splits)

lemma run_claimed_pool_ok:
  assumes "honest H" "pool_ok (world_pool w)" "run_claimed H msg attempt p runner existing w = (r, w')"
    and "existing = None \<or> is_existing_vm (jp_target p)"
  shows "pool_ok (world_pool w')"
  using assms(3)
proof (cases rule: run_claimed_stages)
  case refused
  then show ?thesis using assms(2) by simp
next
  case (no_machine e q w2)
  then show ?thesis using assms(2) machine_for_ok [OF assms(1), of w2 msg q runner] machine_existing_pool
    by (cases existing) fastforce+
next
  case (ran q w2 vm reused fp w3)
  have vm: "pool_ok (world_pool w3)" "is_existing_vm (jp_target q) \<or> \<not> is_placeholder vm"
    using ran(1,3,4) assms(2,4) machine_for_ok [OF assms(1), of w2 msg q runner] machine_existing_pool
    by (cases existing; fastforce)+
  from run_on_pool [OF ran(5)] obtain c w0 where
    "world_pool w0 = world_pool (on_sys (ho_others H) w3)" "world_pool w' = world_pool (release_vm H q vm c w0)"
    by blast
  then show ?thesis using vm assms(1) release_vm_ok [of w0 q vm H c] by (simp add: honest_def)
qed

lemma run_job_ok:
  assumes "honest H" "world_ok w" "run_job H msg attempt w = (r, w')"
  shows "world_ok w'"
proof -
  have "jobs_ok (sy_db (wo_sys w'))"
    using assms run_job_settles [OF _ _ assms(3)] by (simp add: honest_def sys_ok_def)
  moreover have "pool_ok (world_pool w'')"
    if "pick_runner (se_pool (ho_sched H)) p = Ok (runner, existing)" "run_claimed H msg attempt p runner existing w = (r', w'')"
    for p runner existing r' w''
    using that pick_runner_existing run_claimed_pool_ok [OF assms(1) _ that(2)] assms(2)
    by (cases existing) (auto simp: sys_ok_def)
  then have "pool_ok (world_pool w')"
    using assms(2,3) by (auto simp: run_job_def sys_ok_def split: option.splits if_splits result.splits prod.splits)
  ultimately show ?thesis by (simp add: sys_ok_def)
qed

section \<open>Scheduling and the lease loop\<close>

lemma advance_job_pool: "sy_pool (advance_job E run_id needs ci fin s j) = sy_pool s"
  by (auto simp: advance_job_def enqueue_def Let_def on_db_def emit_def split: result.splits bool.splits prod.splits)

lemma advance_run_ok: "sys_ok s \<Longrightarrow> sys_ok (snd (advance_run E run_id s))"
proof -
  assume ok: "sys_ok s"
  obtain st s' where a: "advance_run E run_id s = (st, s')" by fastforce
  have "sy_pool s' = sy_pool s"
    using a by (auto simp: advance_run_def Let_def foldl_keeps [of sy_pool, OF advance_job_pool] split: prod.splits)
  with ok a advance_run_jobs_ok [OF _ a] show ?thesis by (simp add: sys_ok_def)
qed

lemma foldl_sys_ok: "(\<And>s x. sys_ok s \<Longrightarrow> sys_ok (f s x)) \<Longrightarrow> sys_ok s \<Longrightarrow> sys_ok (foldl f s xs)"
  by (induction xs arbitrary: s) simp_all

lemma fail_job_ok: "sys_ok s \<Longrightarrow> sys_ok (on_db (set_job_status now jid JFailure err) s)"
  using jobs_ok_step [OF step_finish] by (simp add: sys_ok_def on_db_def terminal_simps)

lemma repair_ok:
  "sys_ok s \<Longrightarrow> sys_ok (nudge_stalled_runs E s)"
  "sys_ok s \<Longrightarrow> sys_ok (fail_jobs_waiting_for_a_runner E wait s)"
  unfolding nudge_stalled_runs_def fail_jobs_waiting_for_a_runner_def fail_waiting_job_def
  by (rule foldl_sys_ok; simp add: advance_run_ok fail_job_ok)+

lemma reclaim_ok: "sys_ok (wo_sys w) \<Longrightarrow> sys_ok (wo_sys (reclaim_pool H w))"
  by (simp add: reclaim_pool_def Let_def sys_ok_def pool_steps)

lemma lease_tick_ok: "world_ok w \<Longrightarrow> world_ok (lease_tick H set_ttl wait w)"
proof -
  assume "world_ok w"
  then have "sys_ok (wo_sys (on_pool (\<lambda>p. snd (renew_leases (ho_now H) (ho_lease H) p)) w))"
    by (simp add: sys_ok_def pool_steps)
  then show ?thesis unfolding lease_tick_def Let_def
    by (intro reclaim_ok) (simp add: renew_vm_ttls_def renew_all_sys repair_ok)
qed

lemma deliver_ok:
  assumes "honest H" "world_ok w" "\<And>x. dropped = Some x \<Longrightarrow> world_ok x"
  shows "world_ok (snd (deliver H ceiling attempt payload dropped w))"
proof (cases payload)
  case None
  then show ?thesis using assms(2) by (simp add: deliver_def)
next
  case (Some msg)
  define run where "run = (case dropped of None \<Rightarrow> run_job H msg attempt w
      | Some w' \<Rightarrow> (Err (JobTimeout (jm_job_key msg) ceiling), w'))"
  obtain out w1 where r: "run = (out, w1)" by fastforce
  have ok: "world_ok w1"
    using r run_job_ok [OF assms(1,2)] assms(3) by (auto simp: run_def split: option.splits)
  have noted: "sys_ok (emit E k v j (on_db (note_job_error jid d) s))" if "sys_ok s" for E k v j jid d s
    using that jobs_ok_step [OF step_note] by (simp add: sys_ok_def on_db_def)
  show ?thesis using ok noted fail_job_ok advance_run_ok
    unfolding deliver_def Some option.case run_def [symmetric] r by (auto split: result.splits)
qed

section \<open>Requests\<close>

abbreviation pool_after :: "'r \<times> sys \<times> 'd \<Rightarrow> vm_table" where
  "pool_after x \<equiv> sy_pool (fst (snd x))"

lemma start_run_pool: "pool_after (start_run E rq p ws acc st) = sy_pool (fst st)"
proof -
  have "sy_pool (snd (advance_run F i s)) = sy_pool s" for F i s
    by (auto simp: advance_run_def Let_def foldl_keeps [of sy_pool, OF advance_job_pool] split: prod.splits)
  then show ?thesis
    by (auto simp: start_run_def Let_def split: prod.splits result.splits if_splits)
qed

lemma try_fold_pool:
  assumes "\<And>x a st. pool_after (f x a st) = sy_pool (fst st)"
  shows "pool_after (try_fold f xs a st) = sy_pool (fst st)"
proof (induction xs arbitrary: a st)
  case (Cons x xs)
  obtain r st' where "f x a st = (r, st')" by (meson surj_pair)
  with assms [of x a st] Cons.IH show ?case by (cases r) auto
qed simp

lemma submit_file_pool: "pool_after (submit_file E req actor repo ch src f acc st) = sy_pool (fst st)"
  by (simp add: submit_file_def Let_def start_run_pool split: prod.splits result.splits if_splits)

lemma submit_source_pool: "pool_after (submit_source E req actor repo ch src acc st) = sy_pool (fst st)"
  by (simp add: submit_source_def try_fold_pool [OF submit_file_pool] split: result.splits)

lemma submit_pool:
  assumes "submit E req actor repo st = (r, st')" "jobs_ok (sy_db (fst st))"
  shows "sy_pool (fst st') = sy_pool (fst st)"
  using assms
proof (cases rule: submit_cases)
  case (ended sources acc d1 r1)
  from arg_cong [where f = pool_after, OF ended(2)] show ?thesis
    by (simp add: try_fold_pool [OF submit_source_pool])
qed simp

lemma post_submit_ok:
  assumes "sys_ok s"
  shows "sys_ok (fst (snd (post_submit A E show_trigger read_request h body (s, d))))"
proof -
  obtain r s' d' where "post_submit A E show_trigger read_request h body (s, d) = (r, s', d')" by (metis surj_pair)
  moreover obtain a db1 where a: "authenticate_submit A show_trigger (su_now E) h body (sy_db s) = (a, db1)" by fastforce
  have ok1: "sys_ok (s\<lparr>sy_db := db1\<rparr>)"
    using assms conjunct2 [OF authenticate_submit_keeps [OF a]] by (simp add: sys_ok_def jobs_ok_def)
  moreover have "sys_ok (fst st')" if "submit E req who repo (s\<lparr>sy_db := db1\<rparr>, d) = (x, st')" for req who repo x st'
    using ok1 submit_added [OF that] submit_pool [OF that] assms conjunct2 [OF authenticate_submit_keeps [OF a]]
    by (auto simp: sys_ok_def only_added_def)
  ultimately show ?thesis
    using a unfolding post_submit_def Let_def by (auto split: result.splits prod.splits if_splits)
qed

lemma set_web_db_ok: "world_ok (wb_world w) \<Longrightarrow> db_jobs d = db_jobs (web_db w) \<Longrightarrow> world_ok (wb_world (set_web_db d w))"
  by (simp add: sys_ok_def set_web_db_def on_sys_def web_db_def jobs_ok_def)

lemma account_jobs [simp]:
  "set_repo_network rid n d = (b, d') \<Longrightarrow> db_jobs d' = db_jobs d"
  "set_repo_enabled rid e d = (b, d') \<Longrightarrow> db_jobs d' = db_jobs d"
  "delete_repo rid d = (b, d') \<Longrightarrow> db_jobs d' = db_jobs d"
  "revoke_repo_token now tid d = (b, d') \<Longrightarrow> db_jobs d' = db_jobs d"
  "register_repo i url name p net email d = Ok (r, d') \<Longrightarrow> db_jobs d' = db_jobs d"
  "create_repo_token sha sec k rid nm email d = Ok (t, d') \<Longrightarrow> db_jobs d' = db_jobs d"
  by (auto simp: set_repo_network_def set_repo_enabled_def delete_repo_def revoke_repo_token_def register_repo_def
      create_repo_token_def Let_def split: option.splits if_splits)

lemma may_manage_jobs: "may_manage A now h d = (r, d') \<Longrightarrow> db_jobs d' = db_jobs d"
  using may_manage_spec [of A h d now]
  by (cases r) (auto, (metis db.select_convs(2) db.surjective db.update_convs(6))+)

lemma destroy_one_ok: "world_ok w \<Longrightarrow> destroy_one H r w = (x, w') \<Longrightarrow> world_ok w'"
proof -
  assume ok: "world_ok w" and d: "destroy_one H r w = (x, w')"
  obtain o1 w1 where o1: "host_options H (pv_runner_hd_id r) w = (o1, w1)" by fastforce
  with ok d host_options_sys [OF o1] show "world_ok w'"
    by (auto simp: destroy_one_def destroy_vm_def sys_ok_def pool_steps split: result.splits)
qed

lemma destroy_swept_ok: "destroy_swept H rs n failed w = (x, w') \<Longrightarrow> world_ok w \<Longrightarrow> world_ok w'"
proof (induction rs arbitrary: n failed w)
  case (Cons r rs)
  obtain y w1 where one: "destroy_one H r w = (y, w1)" by fastforce
  with Cons.IH [of _ _ w1] Cons.prems destroy_one_ok [OF _ one] show ?case by (cases y) auto
qed simp

lemma on_pool_ok: "world_ok w \<Longrightarrow> (pool_ok (world_pool w) \<Longrightarrow> pool_ok (f (world_pool w))) \<Longrightarrow> world_ok (on_pool f w)"
  by (simp add: sys_ok_def)

lemma destroy_pooled_vm_ok: "world_ok w \<Longrightarrow> world_ok (snd (destroy_pooled_vm H sid w))"
proof -
  assume ok: "world_ok w"
  obtain t rows where t: "take_one_for_sweep sid (served_runner_ids H) (world_pool w) = (t, rows)" by fastforce
  have "pool_ok rows" using ok pool_steps(7) t by (metis snd_conv sys_ok_def)
  then have "world_ok (on_pool (\<lambda>_. rows) w)" using on_pool_ok [OF ok] by simp
  with t show ?thesis by (auto simp: destroy_pooled_vm_def simp del: destroy_swept.simps split: option.splits prod.splits dest: destroy_swept_ok)
qed

lemma destroy_failed_vms_ok: "world_ok w \<Longrightarrow> world_ok (snd (destroy_failed_vms H w))"
proof -
  assume ok: "world_ok w"
  obtain t rows where t: "take_failed_for_sweep (ho_locked H) (served_runner_ids H) (sy_db (wo_sys w)) (world_pool w) = (t, rows)"
    by fastforce
  have "pool_ok rows" using ok pool_steps(8) t by (metis snd_conv sys_ok_def)
  then have "world_ok (on_pool (\<lambda>_. rows) w)" using on_pool_ok [OF ok] by simp
  with t show ?thesis by (auto simp: destroy_failed_vms_def simp del: destroy_swept.simps split: list.splits prod.splits dest: destroy_swept_ok)
qed

lemma manage_action_ok: "world_ok (wb_world w) \<Longrightarrow> world_ok (wb_world (snd (manage_action W m who w)))"
proof (cases m)
  case (CancelRun i)
  assume "world_ok (wb_world w)"
  then show ?thesis using CancelRun
    by (simp add: post_cancel_run_def sys_ok_def set_web_db_def on_sys_def web_db_def jobs_ok_cancel)
next
  case (DestroyVm v)
  assume "world_ok (wb_world w)"
  from destroy_pooled_vm_ok [OF this, of "web_host W w" v] show ?thesis using DestroyVm
    by (auto simp: post_destroy_vm_def render_vms_def Let_def split: prod.splits result.splits)
next
  case CleanupFailed
  assume "world_ok (wb_world w)"
  from destroy_failed_vms_ok [OF this, of "web_host W w"] show ?thesis using CleanupFailed
    by (auto simp: post_cleanup_failed_def render_vms_def Let_def split: prod.splits)
next
  case (JoinNetwork n)
  assume "world_ok (wb_world w)"
  then show ?thesis using JoinNetwork
    by (auto simp: post_join_network_def render_networks_def Let_def split: option.splits result.splits)
qed (auto simp: post_register_repo_def post_create_token_def post_revoke_token_def post_set_network_def
      post_set_enabled_def post_delete_repo_def render_repos_def Let_def
      split: option.splits result.splits prod.splits bool.splits intro!: set_web_db_ok)

lemma handle_manage_ok: "world_ok (wb_world w) \<Longrightarrow> world_ok (wb_world (snd (handle_manage W m h w)))"
  using manage_action_ok set_web_db_ok
  by (auto simp: handle_manage_def managed_def split: prod.splits result.splits dest!: may_manage_jobs)

section \<open>Properties\<close>

lemma system_step_ok: "system_step envs w w' \<Longrightarrow> world_ok w \<Longrightarrow> world_ok w'"
proof (induction rule: system_step.induct)
  case (sys_deliver H dropped w ceiling attempt payload)
  then show ?case by (intro deliver_ok) auto
next
  case (sys_tick w H set_ttl wait)
  then show ?case by (rule lease_tick_ok)
next
  case (sys_submit E w A show_trigger read_request h body disk)
  then show ?case by (simp add: post_submit_ok)
next
  case (sys_manage w W m h pool)
  then show ?case by (simp add: handle_manage_ok)
next
  case (sys_job_statement w d)
  then show ?case using jobs_ok_step by (simp add: sys_ok_def on_db_def)
next
  case (sys_pool_statement w p)
  then show ?case using pool_ok_step by (simp add: sys_ok_def)
qed

interpretation whole: step_invariant fresh_world "system_step envs" world_ok
  for envs
proof
  show "world_ok w" if "fresh_world w" for w
    using that by (simp add: fresh_world_def sys_ok_def jobs_ok_def)
qed (rule system_step_ok)

text \<open>C3. Whatever instances do, in whatever order, with whatever answers from the control plane, the daemons, the
  guests and the submitters, and however deliveries are cut off: starting from empty tables, every job id
  and every VM is in its table once, each job's row agrees with its status, and a VM that is claimed has a
  real sandbox, the job it was last claimed for and a lease.\<close>

theorem system_consistent:
  assumes "reach fresh_world (system_step envs) w"
  shows "(\<forall>r\<in>set (world_pool w). get_vm (pv_sandbox_id r) (world_pool w) = Some r
       \<and> (pv_status r = Claimed \<longrightarrow> \<not> is_placeholder (pv_sandbox_id r) \<and> pv_claimed_by_job r \<noteq> None
            \<and> pv_last_job r = pv_claimed_by_job r \<and> pv_leased_by r \<noteq> None \<and> pv_leased_until r \<noteq> None))
    \<and> (\<forall>j\<in>set (world_jobs w). get_job (jr_id j) (sy_db (wo_sys w)) = Some j \<and> job_row_ok j)"
proof -
  have ok: "jobs_ok (sy_db (wo_sys w))" "pool_ok (world_pool w)"
    using whole.inv_reach [OF assms] by (simp_all add: sys_ok_def)
  have "get_job (jr_id j) (sy_db (wo_sys w)) = Some j" if j: "j \<in> set (world_jobs w)" for j
  proof (cases "get_job (jr_id j) (sy_db (wo_sys w))")
    case None
    with j show ?thesis by (auto simp: get_job_def find_None_iff)
  next
    case (Some i)
    then have "i \<in> set (world_jobs w)" "jr_id i = jr_id j" by (auto simp: get_job_def dest: find_SomeD)
    with job_unique [OF ok(1) _ j] Some show ?thesis by simp
  qed
  moreover have "get_vm (pv_sandbox_id r) (world_pool w) = Some r" if "r \<in> set (world_pool w)" for r
    using get_vm_member [OF ok(2) that] .
  ultimately show ?thesis using ok by (auto simp: jobs_ok_def table_ok_def vm_row_ok_def)
qed

text \<open>A VM that is being built, then a delivery of another job and a tick.\<close>

theorem system_consistent_witness:
  "\<exists>w. reach fresh_world (system_step {sample_submit_env}) w
     \<and> list_all (\<lambda>r. get_vm (pv_sandbox_id r) (world_pool w) = Some r) (world_pool w)
     \<and> world_pool w \<noteq> []"
proof -
  let ?step = "system_step {sample_submit_env}"
  define w0 where "w0 = sample_world\<lparr>wo_sys := sample_sys\<lparr>sy_db := empty_db, sy_pool := []\<rparr>\<rparr>"
  define w1 where "w1 = snd (deliver sample_host 60 1 (Some sample_message) None w0)"
  define w2 where "w2 = on_pool (\<lambda>_. snd (begin_build 0 ''j1'' ''hd-1'' ''fp'' ''wf'' sample_lease (world_pool w1))) w1"
  have "fresh_world w0" by (simp add: fresh_world_def w0_def empty_db_def)
  then have w0: "reach fresh_world ?step w0" by (rule reach_init)
  have "honest sample_host" using sample_polite by (auto simp: honest_def sample_host_def)
  then have "?step w0 w1" unfolding w1_def by (rule sys_deliver) simp
  then have "reach fresh_world ?step w1" by (rule reach_step [OF w0])
  then have w2: "reach fresh_world ?step w2"
    unfolding w2_def by (rule reach_step) (intro sys_pool_statement vm_begin_build)
  moreover have "world_pool w2 \<noteq> []"
    by (auto simp: w2_def begin_build_def upsert_vm_def update_rows_def Let_def)
  ultimately show ?thesis using system_consistent [OF w2] by (auto simp: list_all_iff)
qed

end
